(* ===== verification/Prelude.thy ===== *)
theory Prelude
  imports Complex_Main "HOL-Library.AList"
begin

section \<open>Shared vocabulary of the development\<close>

text \<open>
  This theory holds what every component uses: the Python exceptions the source raises or
  catches, results as a sum of an exception and a value, dictionaries as association lists in
  insertion order, and a few generic lemmas about them. The named collections are filled by the
  component theories and used by their proofs.
\<close>

named_theorems state_simps \<open>unfolding equations of the state-passing operations\<close>
named_theorems text_simps \<open>facts about text and bytes\<close>

subsection \<open>Exceptions and results\<close>

text \<open>
  An exception is a value. \<open>CancelledError\<close> and \<open>KeyboardInterrupt\<close> are kept apart from the
  others by \<open>is_exception\<close>: in Python they are not caught by \<open>except Exception\<close>.
\<close>

datatype py_exc =
    ValueError
  | TypeError
  | OverflowError
  | KeyError
  | OSError
  | FileNotFoundError
  | TimeoutError
  | EOFError
  | ApiError int
  | LimitOverrunError
  | VsockError
  | FirecrackerError
  | ConfinementError
  | DockerException
  | NotFound
  | RuntimeError
  | AttributeError
  | NotImplementedError
  | SubprocessError
  | CalledProcessError
  | KeyboardInterrupt
  | CancelledError

definition is_exception :: "py_exc \<Rightarrow> bool" where
  "is_exception e \<longleftrightarrow> e \<noteq> CancelledError \<and> e \<noteq> KeyboardInterrupt"

type_synonym 'a res = "py_exc + 'a"

fun bind_res :: "'a res \<Rightarrow> ('a \<Rightarrow> 'b res) \<Rightarrow> 'b res" where
  "bind_res (Inl e) f = Inl e"
| "bind_res (Inr x) f = f x"

lemma bind_res_Inr_iff:
  "bind_res m f = Inr y \<longleftrightarrow> (\<exists>x. m = Inr x \<and> f x = Inr y)"
  by (cases m) auto

lemma bind_res_Inl_iff:
  "bind_res m f = Inl e \<longleftrightarrow> m = Inl e \<or> (\<exists>x. m = Inr x \<and> f x = Inl e)"
  by (cases m) auto

lemma bind_res_cong [fundef_cong]:
  "m = m' \<Longrightarrow> (\<And>x. m' = Inr x \<Longrightarrow> f x = f' x) \<Longrightarrow> bind_res m f = bind_res m' f'"
  by (cases m') auto

fun is_ok :: "'a res \<Rightarrow> bool" where
  "is_ok (Inl e) = False"
| "is_ok (Inr x) = True"

lemma is_ok_iff: "is_ok m \<longleftrightarrow> (\<exists>x. m = Inr x)"
  by (cases m) auto

subsection \<open>Dictionaries in insertion order\<close>

text \<open>
  A Python \<open>dict\<close> keeps its keys in insertion order; assigning to a key that is present
  keeps its place. \<open>AList.update\<close> does exactly that.
\<close>

type_synonym ('k, 'v) dict = "('k \<times> 'v) list"

abbreviation dget :: "('k, 'v) dict \<Rightarrow> 'k \<Rightarrow> 'v option" where
  "dget d k \<equiv> map_of d k"

abbreviation dset :: "'k \<Rightarrow> 'v \<Rightarrow> ('k, 'v) dict \<Rightarrow> ('k, 'v) dict" where
  "dset k v d \<equiv> AList.update k v d"

abbreviation ddel :: "'k \<Rightarrow> ('k, 'v) dict \<Rightarrow> ('k, 'v) dict" where
  "ddel k d \<equiv> AList.delete k d"

abbreviation dkeys :: "('k, 'v) dict \<Rightarrow> 'k list" where
  "dkeys d \<equiv> map fst d"

definition dhas :: "('k, 'v) dict \<Rightarrow> 'k \<Rightarrow> bool" where
  "dhas d k \<longleftrightarrow> k \<in> set (dkeys d)"

lemma dhas_iff: "dhas d k \<longleftrightarrow> dget d k \<noteq> None"
  by (induction d) (auto simp: dhas_def)

lemma dget_dset [simp]: "dget (dset k v d) k' = (if k' = k then Some v else dget d k')"
  by (simp add: update_conv)

lemma dget_ddel [simp]: "dget (ddel k d) k' = (if k' = k then None else dget d k')"
  by (simp add: delete_conv)

lemma set_dset_distinct:
  "distinct (dkeys d) \<Longrightarrow>
    set (dset k v d) = insert (k, v) {p \<in> set d. fst p \<noteq> k}"
  by (induction d) (auto simp: image_iff)

lemma distinct_dset: "distinct (dkeys d) \<Longrightarrow> distinct (dkeys (dset k v d))"
  by (simp add: distinct_update)

lemma distinct_ddel: "distinct (dkeys d) \<Longrightarrow> distinct (dkeys (ddel k d))"
  by (simp add: distinct_delete)

lemma dset_not_Nil [simp]: "dset k v d \<noteq> []"
  by (cases d) auto

lemma dget_hd: "d \<noteq> [] \<Longrightarrow> dget d (fst (hd d)) = Some (snd (hd d))"
  by (cases d) auto

subsection \<open>Lists\<close>

lemma takeWhile_all: "(\<And>x. x \<in> set xs \<Longrightarrow> P x) \<Longrightarrow> takeWhile P xs = xs"
  by (induction xs) auto

lemma dropWhile_all: "(\<And>x. x \<in> set xs \<Longrightarrow> P x) \<Longrightarrow> dropWhile P xs = []"
  by (induction xs) auto

lemma dropWhile_hd_not: "xs \<noteq> [] \<Longrightarrow> \<not> P (hd xs) \<Longrightarrow> dropWhile P xs = xs"
  by (cases xs) auto

text \<open>\<open>{**d, **e}\<close>\<close>

definition doverlay :: "('k, 'v) dict \<Rightarrow> ('k, 'v) dict \<Rightarrow> ('k, 'v) dict" where
  "doverlay d e = foldl (\<lambda>d kv. dset (fst kv) (snd kv) d) d e"

lemma dget_doverlay: "dget (doverlay d e) k = (case dget (rev e) k of None \<Rightarrow> dget d k | Some v \<Rightarrow> Some v)"
  by (induction e rule: rev_induct) (auto simp: doverlay_def)

end
