(* ===== verification/PyText.thy ===== *)
theory PyText
  imports Prelude
begin

section \<open>Text and bytes\<close>

text \<open>
  The operations of Python's \<open>str\<close> and \<open>bytes\<close> that the source uses. A text is the
  list of its bytes (UTF-8 for a \<open>str\<close>), so the operations below are those of Python on
  ASCII text; the white space and the digits beyond ASCII that \<open>str\<close> also accepts are not
  in the model.
\<close>

subsection \<open>White space and stripping\<close>

definition code :: "char \<Rightarrow> nat" where
  "code c = of_char c"

definition is_digit :: "char \<Rightarrow> bool" where
  "is_digit c \<longleftrightarrow> 48 \<le> code c \<and> code c \<le> 57"

text \<open>\<open>str.isspace\<close> on ASCII, and the white space of \<open>bytes\<close>.\<close>

definition is_space :: "char \<Rightarrow> bool" where
  "is_space c \<longleftrightarrow> (9 \<le> code c \<and> code c \<le> 13) \<or> (28 \<le> code c \<and> code c \<le> 32)"

definition is_bspace :: "char \<Rightarrow> bool" where
  "is_bspace c \<longleftrightarrow> (9 \<le> code c \<and> code c \<le> 13) \<or> code c = 32"

definition strip_by :: "(char \<Rightarrow> bool) \<Rightarrow> string \<Rightarrow> string" where
  "strip_by p s = rev (dropWhile p (rev (dropWhile p s)))"

definition lower_char :: "char \<Rightarrow> char" where
  "lower_char c = (if 65 \<le> code c \<and> code c \<le> 90 then char_of (code c + 32) else c)"

definition lower :: "string \<Rightarrow> string" where
  "lower s = List.map lower_char s"

lemma strip_by_id:
  assumes "s \<noteq> []" "\<not> p (hd s)" "\<not> p (last s)"
  shows "strip_by p s = s"
  using assms by (simp add: strip_by_def dropWhile_hd_not hd_rev)

lemma strip_by_none: "(\<And>c. c \<in> set s \<Longrightarrow> \<not> p c) \<Longrightarrow> strip_by p s = s"
  by (cases "s = []") (auto simp: strip_by_id, simp add: strip_by_def)

lemma strip_by_Nil [simp]: "strip_by p [] = []"
  by (simp add: strip_by_def)

subsection \<open>Splitting\<close>

text \<open>\<open>split()\<close> without a separator: the maximal runs of characters that are not white space.\<close>

fun words_aux :: "(char \<Rightarrow> bool) \<Rightarrow> string \<Rightarrow> string \<Rightarrow> string list" where
  "words_aux p acc [] = (if acc = [] then [] else [rev acc])"
| "words_aux p acc (c # cs) =
     (if p c then (if acc = [] then words_aux p [] cs else rev acc # words_aux p [] cs)
      else words_aux p (c # acc) cs)"

definition words :: "(char \<Rightarrow> bool) \<Rightarrow> string \<Rightarrow> string list" where
  "words p s = words_aux p [] s"

text \<open>\<open>split(sep)\<close> for a single character, at most \<open>n\<close> times when \<open>n\<close> is given.\<close>

fun split_char :: "char \<Rightarrow> string \<Rightarrow> string list" where
  "split_char d [] = [[]]"
| "split_char d (c # cs) =
     (if c = d then [] # split_char d cs
      else (case split_char d cs of [] \<Rightarrow> [[c]] | l # ls \<Rightarrow> (c # l) # ls))"

text \<open>
  \<open>cut d s\<close> is the text before the first \<open>d\<close> and, if there is one, the text
  after it; \<open>rcut\<close> does the same at the last one. \<open>partition\<close>, \<open>split(d, n)\<close> and
  \<open>rsplit(d, 1)\<close> are made of them.
\<close>

definition cut :: "char \<Rightarrow> string \<Rightarrow> string \<times> string option" where
  "cut d s = (takeWhile (\<lambda>c. c \<noteq> d) s,
     case dropWhile (\<lambda>c. c \<noteq> d) s of [] \<Rightarrow> None | _ # t \<Rightarrow> Some t)"

definition rcut :: "char \<Rightarrow> string \<Rightarrow> string option \<times> string" where
  "rcut d s = (case cut d (rev s) of (a, b) \<Rightarrow> (map_option rev b, rev a))"

primrec split_max :: "nat \<Rightarrow> char \<Rightarrow> string \<Rightarrow> string list" where
  "split_max 0 d s = [s]"
| "split_max (Suc n) d s =
     (case cut d s of (a, None) \<Rightarrow> [a] | (a, Some t) \<Rightarrow> a # split_max n d t)"

text \<open>The text after the first \<open>d\<close>, empty if there is none: \<open>partition(d)[2]\<close>.\<close>

definition after :: "char \<Rightarrow> string \<Rightarrow> string" where
  "after d s = (case snd (cut d s) of None \<Rightarrow> [] | Some t \<Rightarrow> t)"

abbreviation CR :: char where "CR \<equiv> CHR 0x0D"
abbreviation LF :: char where "LF \<equiv> CHR 0x0A"
abbreviation CRLF :: string where "CRLF \<equiv> [CR, LF]"

fun split_crlf :: "string \<Rightarrow> string list" where
  "split_crlf [] = [[]]"
| "split_crlf [c] = [[c]]"
| "split_crlf (c # d # cs) =
     (if c = CR \<and> d = LF then [] # split_crlf cs
      else (case split_crlf (d # cs) of [] \<Rightarrow> [[c]] | l # ls \<Rightarrow> (c # l) # ls))"

fun starts_with :: "string \<Rightarrow> string \<Rightarrow> bool" where
  "starts_with [] s = True"
| "starts_with (c # cs) [] = False"
| "starts_with (c # cs) (d # ds) = (c = d \<and> starts_with cs ds)"

fun join :: "string \<Rightarrow> string list \<Rightarrow> string" where
  "join sep [] = []"
| "join sep [x] = x"
| "join sep (x # y # xs) = x @ sep @ join sep (y # xs)"

lemma starts_with_append [simp]: "starts_with p (p @ s)"
  by (induction p) auto

lemma cut_append: "d \<notin> set a \<Longrightarrow> cut d (a @ d # t) = (a, Some t)"
proof -
  assume d: "d \<notin> set a"
  then have "takeWhile (\<lambda>c. c \<noteq> d) (a @ d # t) = a"
    by (subst takeWhile_append2) auto
  moreover have "dropWhile (\<lambda>c. c \<noteq> d) (a @ d # t) = d # t"
    using d by (subst dropWhile_append2) auto
  ultimately show ?thesis by (simp add: cut_def)
qed

lemma cut_none: "d \<notin> set a \<Longrightarrow> cut d a = (a, None)"
proof -
  assume d: "d \<notin> set a"
  then have "takeWhile (\<lambda>c. c \<noteq> d) a = a" by (intro takeWhile_all) auto
  moreover have "dropWhile (\<lambda>c. c \<noteq> d) a = []" using d by (intro dropWhile_all) auto
  ultimately show ?thesis unfolding cut_def by (simp only: list.case)
qed

lemma rcut_append: "d \<notin> set t \<Longrightarrow> rcut d (a @ d # t) = (Some a, t)"
  by (simp add: rcut_def cut_append)

lemma rcut_none: "d \<notin> set t \<Longrightarrow> rcut d t = (None, t)"
  by (simp add: rcut_def cut_none)

lemma words_aux_token:
  "(\<And>c. c \<in> set t \<Longrightarrow> \<not> p c) \<Longrightarrow> words_aux p acc (t @ s) = words_aux p (rev t @ acc) s"
  by (induction t arbitrary: acc) auto

lemma words_token: "t \<noteq> [] \<Longrightarrow> (\<And>c. c \<in> set t \<Longrightarrow> \<not> p c) \<Longrightarrow> words p t = [t]"
  using words_aux_token [of t p "[]" "[]"] by (simp add: words_def)

lemma words_cons:
  "t \<noteq> [] \<Longrightarrow> (\<And>c. c \<in> set t \<Longrightarrow> \<not> p c) \<Longrightarrow> p d \<Longrightarrow> words p (t @ d # s) = t # words p s"
  using words_aux_token [of t p "[]" "d # s"] by (simp add: words_def)

lemma split_char_none: "d \<notin> set s \<Longrightarrow> split_char d s = [s]"
  by (induction s) auto

subsection \<open>Decimal numerals\<close>

definition digit_char :: "nat \<Rightarrow> char" where
  "digit_char d = char_of (48 + d)"

definition digit_val :: "char \<Rightarrow> nat" where
  "digit_val c = code c - 48"

definition digits_val :: "string \<Rightarrow> nat" where
  "digits_val s = foldl (\<lambda>a c. 10 * a + digit_val c) 0 s"

fun show_nat :: "nat \<Rightarrow> string" where
  "show_nat n = (if n < 10 then [digit_char n] else show_nat (n div 10) @ [digit_char (n mod 10)])"

declare show_nat.simps [simp del]

definition show_int :: "int \<Rightarrow> string" where
  "show_int i = (if i < 0 then CHR ''-'' # show_nat (nat (- i)) else show_nat (nat i))"

text \<open>
  \<open>int(text)\<close> in base ten: white space around is dropped, one sign is taken, single
  underscores may stand between digits, and more than 4300 digits are refused (the limit of
  \<open>sys.int_info\<close>). \<open>sp\<close> is the white space of the type, \<open>str\<close> or \<open>bytes\<close>.
\<close>

definition max_str_digits :: nat where
  "max_str_digits = 4300"

fun digit_part :: "bool \<Rightarrow> string \<Rightarrow> bool" where
  "digit_part prev [] = prev"
| "digit_part prev (c # cs) =
     (if is_digit c then digit_part True cs
      else c = CHR ''_'' \<and> prev \<and> digit_part False cs)"

definition take_sign :: "string \<Rightarrow> bool \<times> string" where
  "take_sign s = (case s of [] \<Rightarrow> (False, []) | c # r \<Rightarrow>
     (if c = CHR ''-'' then (True, r) else if c = CHR ''+'' then (False, r) else (False, s)))"

definition py_int :: "(char \<Rightarrow> bool) \<Rightarrow> string \<Rightarrow> int res" where
  "py_int sp s = (case take_sign (strip_by sp s) of (neg, u) \<Rightarrow>
     (let ds = filter is_digit u in
      if digit_part False u \<and> length ds \<le> max_str_digits
      then Inr (if neg then - int (digits_val ds) else int (digits_val ds))
      else Inl ValueError))"

lemma code_digit_char [simp]: "d < 10 \<Longrightarrow> code (digit_char d) = 48 + d"
  by (simp add: code_def digit_char_def)

lemma is_digit_digit_char [simp]: "d < 10 \<Longrightarrow> is_digit (digit_char d)"
  by (simp add: is_digit_def)

lemma digit_val_digit_char [simp]: "d < 10 \<Longrightarrow> digit_val (digit_char d) = d"
  by (simp add: digit_val_def)

lemma digits_val_snoc: "digits_val (s @ [c]) = 10 * digits_val s + digit_val c"
  by (simp add: digits_val_def)

lemma show_nat_not_Nil [simp]: "show_nat n \<noteq> []"
  by (subst show_nat.simps) simp

lemma digits_show_nat: "c \<in> set (show_nat n) \<Longrightarrow> is_digit c"
proof (induction n arbitrary: c rule: show_nat.induct)
  case (1 n)
  then show ?case
    by (cases "n < 10") (auto simp: show_nat.simps [of n])
qed

lemma digits_val_show_nat [simp]: "digits_val (show_nat n) = n"
proof (induction n rule: show_nat.induct)
  case (1 n)
  show ?case
  proof (cases "n < 10")
    case True
    then show ?thesis by (simp add: show_nat.simps [of n] digits_val_def)
  next
    case False
    with 1 show ?thesis by (simp add: show_nat.simps [of n] digits_val_snoc)
  qed
qed

lemma length_show_nat: "n < 10 ^ Suc k \<Longrightarrow> length (show_nat n) \<le> Suc k"
proof (induction k arbitrary: n)
  case 0
  then show ?case by (simp add: show_nat.simps [of n])
next
  case (Suc k)
  from Suc.prems have "n div 10 < 10 ^ Suc k" by (simp add: less_mult_imp_div_less)
  with Suc.IH have "length (show_nat (n div 10)) \<le> Suc k" by blast
  then show ?case by (simp add: show_nat.simps [of n])
qed

lemma digit_part_digits:
  "(\<And>c. c \<in> set s \<Longrightarrow> is_digit c) \<Longrightarrow> digit_part b s \<longleftrightarrow> b \<or> s \<noteq> []"
  by (induction s arbitrary: b) auto

lemma not_digit_facts:
  "is_digit c \<Longrightarrow> \<not> is_space c" "is_digit c \<Longrightarrow> \<not> is_bspace c"
  by (auto simp: is_digit_def is_space_def is_bspace_def)

lemma is_digit_not_sign: "is_digit c \<Longrightarrow> c \<noteq> CHR ''-'' \<and> c \<noteq> CHR ''+'' \<and> c \<noteq> CHR ''_''"
  by (auto simp: is_digit_def code_def)

definition space_like :: "(char \<Rightarrow> bool) \<Rightarrow> bool" where
  "space_like sp \<longleftrightarrow> (\<forall>c. sp c \<longrightarrow> \<not> is_digit c \<and> c \<noteq> CHR ''-'' \<and> c \<noteq> CHR ''+'')"

lemma space_like_is_space [simp, intro]: "space_like is_space"
  by (auto simp: space_like_def is_space_def is_digit_def code_def)

lemma space_like_is_bspace [simp, intro]: "space_like is_bspace"
  by (auto simp: space_like_def is_bspace_def is_digit_def code_def)

lemma strip_show_int: "space_like sp \<Longrightarrow> strip_by sp (show_int i) = show_int i"
  by (rule strip_by_none)
    (auto simp: show_int_def space_like_def dest: digits_show_nat split: if_splits)

lemma take_sign_digits: "(\<And>c. c \<in> set s \<Longrightarrow> is_digit c) \<Longrightarrow> take_sign s = (False, s)"
  by (cases s) (auto simp: take_sign_def dest: is_digit_not_sign)

theorem py_int_show_int:
  assumes "space_like sp" and len: "length (show_nat (nat \<bar>i\<bar>)) \<le> max_str_digits"
  shows "py_int sp (show_int i) = Inr i"
proof -
  have fl: "filter is_digit (show_nat n) = show_nat n" for n
    by (auto simp: filter_id_conv dest: digits_show_nat)
  have dp: "digit_part False (show_nat n)" for n
    by (subst digit_part_digits) (auto dest: digits_show_nat)
  show ?thesis
  proof (cases "i < 0")
    case True
    then show ?thesis
      using len by (simp add: py_int_def strip_show_int [OF assms(1)])
        (simp add: show_int_def take_sign_def fl dp abs_if)
  next
    case False
    then show ?thesis
      using len by (simp add: py_int_def strip_show_int [OF assms(1)])
        (simp add: show_int_def take_sign_digits [of "show_nat _", OF digits_show_nat] fl dp)
  qed
qed

lemma show_nat_digits_ok: "n < 10 ^ 20 \<Longrightarrow> length (show_nat n) \<le> max_str_digits"
  using length_show_nat [of n 19] by (simp add: max_str_digits_def)

corollary py_int_show_int_small:
  "space_like sp \<Longrightarrow> \<bar>i\<bar> < 10 ^ 20 \<Longrightarrow> py_int sp (show_int i) = Inr i"
  by (rule py_int_show_int) (auto intro: show_nat_digits_ok)

end
