(* ===== verification/Banner.thy ===== *)
theory Banner
  imports PyText
begin

section \<open>Banners (src/keycard/banner.py)\<close>

text \<open>
  The card printed on the operator's terminal and the three messages an SSH client sees. A text
  is its UTF-8 bytes, so the dash of \<open>destroyed\<close> is three of them and \<open>encode()\<close> is the
  identity.
\<close>

definition WIDTH :: nat where
  "WIDTH = 26"

definition ESC :: char where
  "ESC = CHR 0x1B"

definition BOLD_CYAN :: string where
  "BOLD_CYAN = ESC # ''[1;36m''"

definition BOLD_YELLOW :: string where
  "BOLD_YELLOW = ESC # ''[1;33m''"

definition DIM :: string where
  "DIM = ESC # ''[2m''"

definition RESET :: string where
  "RESET = ESC # ''[0m''"

definition EM_DASH :: string where
  "EM_DASH = [CHR 0xE2, CHR 0x80, CHR 0x94]"

definition NL :: string where
  "NL = [LF]"

text \<open>
  \<open>str.center\<close>: the padding is split evenly; an odd column goes to the left when the width is
  odd and to the right when it is even. A text that is already wider is left alone.
\<close>

definition center :: "nat \<Rightarrow> string \<Rightarrow> string" where
  "center w s = (if w \<le> length s then s else
     (let m = w - length s; l = m div 2 + (if odd m \<and> odd w then 1 else 0)
      in replicate l (CHR '' '') @ s @ replicate (m - l) (CHR '' '')))"

definition card :: "string list \<Rightarrow> string" where
  "card ls = (let top = ''+'' @ replicate WIDTH (CHR ''-'') @ ''+'';
                  stripe = ''|'' @ replicate WIDTH (CHR ''#'') @ ''|'';
                  body = join NL (List.map (\<lambda>l. ''|'' @ center WIDTH l @ ''|'') ls)
              in top @ NL @ stripe @ NL @ body @ NL @ top)"

definition LOGO :: string where
  "LOGO = card [[], ''k e y c a r d'', ''disposable ssh sandboxes'', []]"

definition accepted :: "string \<Rightarrow> string \<Rightarrow> string" where
  "accepted room_name img = join CRLF [[], BOLD_CYAN @ ''KEYCARD ACCEPTED'' @ RESET,
     ''your room is '' @ room_name @ '' '' @ DIM @ ''('' @ img @ '')'' @ RESET, []] @ CRLF"

definition resumed :: "string \<Rightarrow> string \<Rightarrow> string" where
  "resumed room_name img = join CRLF [[], BOLD_CYAN @ ''KEYCARD RESUMED'' @ RESET,
     ''welcome back to '' @ room_name @ '' '' @ DIM @ ''('' @ img @ '')'' @ RESET, []] @ CRLF"

definition destroyed :: "string \<Rightarrow> string" where
  "destroyed reason = join CRLF [[],
     BOLD_YELLOW @ ''ROOM DESTROYED'' @ RESET @ '' '' @ DIM @ EM_DASH @ '' '' @ reason @ RESET, []] @ CRLF"

subsection \<open>The card is a rectangle\<close>

lemma length_center: "length s \<le> w \<Longrightarrow> length (center w s) = w"
  by (auto simp: center_def Let_def elim: oddE)

lemma split_char_append:
  "d \<notin> set a \<Longrightarrow> split_char d (a @ d # s) = a # split_char d s"
  by (induction a) auto

lemma split_char_join:
  "ls \<noteq> [] \<Longrightarrow> (\<And>l. l \<in> set ls \<Longrightarrow> d \<notin> set l) \<Longrightarrow> split_char d (join [d] ls) = ls"
  by (induction "[d]" ls rule: join.induct) (auto simp: split_char_append split_char_none)

end
