(* ===== verification/PyFloat.thy ===== *)
theory PyFloat
  imports PyText "HOL-Library.Log_Nat"
begin

section \<open>Python floats\<close>

text \<open>
  A float is an IEEE binary64 value: a rational that has one, an infinity or not-a-number. The
  two zeros are one value here; the source never tells them apart. \<open>rnd\<close> rounds a
  rational to the nearest float, ties to even, with gradual underflow below \<open>2 ^ -1022\<close> and
  overflow to infinity from \<open>2 ^ 1024\<close> on.
\<close>

datatype f64 = Fin rat | Inf bool | NaN

definition pow2 :: "int \<Rightarrow> rat" where
  "pow2 k = (if 0 \<le> k then 2 ^ nat k else 1 / 2 ^ nat (- k))"

definition ilog2 :: "rat \<Rightarrow> int" where
  "ilog2 x = (case quotient_of x of (n, d) \<Rightarrow>
     (let k = bitlen n - bitlen d in if pow2 k \<le> x then k else k - 1))"

definition half_even :: "rat \<Rightarrow> int" where
  "half_even x = (let f = \<lfloor>x\<rfloor>; r = x - of_int f in
     if r < 1 / 2 then f else if 1 / 2 < r then f + 1 else if even f then f else f + 1)"

definition rnd :: "rat \<Rightarrow> f64" where
  "rnd x = (if x = 0 then Fin 0 else
     (let a = \<bar>x\<bar>; e = max (- 1074) (ilog2 a - 52);
          v = of_int (half_even (a / pow2 e)) * pow2 e in
      if 2 ^ 1024 \<le> v then Inf (x < 0) else Fin (if x < 0 then - v else v)))"

subsection \<open>Operations\<close>

text \<open>Product with a positive finite constant, comparison with zero, and \<open>int(x)\<close>.\<close>

fun fscale :: "f64 \<Rightarrow> rat \<Rightarrow> f64" where
  "fscale (Fin x) u = rnd (x * u)"
| "fscale (Inf b) u = Inf b"
| "fscale NaN u = NaN"

fun f_positive :: "f64 \<Rightarrow> bool" where
  "f_positive (Fin x) = (0 < x)"
| "f_positive (Inf b) = (\<not> b)"
| "f_positive NaN = False"

fun f_nonpositive :: "f64 \<Rightarrow> bool" where
  "f_nonpositive (Fin x) = (x \<le> 0)"
| "f_nonpositive (Inf b) = b"
| "f_nonpositive NaN = False"

fun f_to_int :: "f64 \<Rightarrow> int res" where
  "f_to_int (Fin x) = Inr (if 0 \<le> x then \<lfloor>x\<rfloor> else \<lceil>x\<rceil>)"
| "f_to_int (Inf b) = Inl OverflowError"
| "f_to_int NaN = Inl ValueError"

subsection \<open>float(text)\<close>

fun underscores_ok :: "char \<Rightarrow> string \<Rightarrow> bool" where
  "underscores_ok p [] = (p \<noteq> CHR ''_'')"
| "underscores_ok p (c # cs) =
     ((if c = CHR ''_'' then is_digit p else (p = CHR ''_'' \<longrightarrow> is_digit c)) \<and> underscores_ok c cs)"

fun parse_exponent :: "string \<Rightarrow> int option" where
  "parse_exponent [] = Some 0"
| "parse_exponent (c # r) =
     (if c = CHR ''e'' \<or> c = CHR ''E'' then
        (case take_sign r of (neg, ds) \<Rightarrow>
           if ds \<noteq> [] \<and> list_all is_digit ds
           then Some (if neg then - int (digits_val ds) else int (digits_val ds)) else None)
      else None)"

definition pow10 :: "int \<Rightarrow> rat" where
  "pow10 k = (if 0 \<le> k then 10 ^ nat k else 1 / 10 ^ nat (- k))"

definition parse_unsigned :: "bool \<Rightarrow> string \<Rightarrow> f64 option" where
  "parse_unsigned neg u =
    (let ip = takeWhile is_digit u;
         r1 = dropWhile is_digit u;
         fp = (case r1 of [] \<Rightarrow> [] | c # r \<Rightarrow> if c = CHR ''.'' then takeWhile is_digit r else []);
         r2 = (case r1 of [] \<Rightarrow> [] | c # r \<Rightarrow> if c = CHR ''.'' then dropWhile is_digit r else r1)
     in if ip = [] \<and> fp = [] then
          (if lower u = ''inf'' \<or> lower u = ''infinity'' then Some (Inf neg)
           else if lower u = ''nan'' then Some NaN else None)
        else (case parse_exponent r2 of None \<Rightarrow> None
              | Some e \<Rightarrow> Some (let m = of_nat (digits_val (ip @ fp)) * pow10 (e - int (length fp))
                               in rnd (if neg then - m else m))))"

definition py_float :: "string \<Rightarrow> f64 res" where
  "py_float s = (let t = strip_by is_space s in
     if underscores_ok (CHR '' '') t then
       (case take_sign (filter (\<lambda>c. c \<noteq> CHR ''_'') t) of (neg, u) \<Rightarrow>
          (case parse_unsigned neg u of None \<Rightarrow> Inl ValueError | Some f \<Rightarrow> Inr f))
     else Inl ValueError)"

subsection \<open>Rounding is exact on dyadic numbers of 53 bits\<close>

lemma pow2_pos [simp]: "0 < pow2 k"
  by (simp add: pow2_def)

lemma pow2_nonzero [simp]: "pow2 k \<noteq> 0"
  using pow2_pos [of k] by linarith

lemma pow2_powi: "pow2 k = 2 powi k"
  by (simp add: pow2_def power_int_def inverse_eq_divide power_one_over)

lemma pow2_add: "pow2 (a + b) = pow2 a * pow2 b"
  by (simp add: pow2_powi power_int_add)

lemma pow2_less_iff: "pow2 a < pow2 b \<longleftrightarrow> a < b"
proof -
  have mono: "pow2 i < pow2 j" if "i < j" for i j
    using that by (simp add: pow2_powi power_int_strict_increasing)
  show ?thesis
    using mono [of a b] mono [of b a] by (cases a b rule: linorder_cases) auto
qed

lemma pow2_le_iff: "pow2 a \<le> pow2 b \<longleftrightarrow> a \<le> b"
  using pow2_less_iff [of b a] by linarith

lemma abs_pow2 [simp]: "\<bar>pow2 k\<bar> = pow2 k"
  using pow2_pos [of k] by linarith


lemma pow2_0 [simp]: "pow2 0 = 1"
  by (simp add: pow2_def)

lemma pow2_of_nat: "pow2 (int n) = 2 ^ n"
  by (simp add: pow2_def)

lemma pow2_diff_int: "e \<le> f \<Longrightarrow> pow2 f = of_int (2 ^ nat (f - e)) * pow2 e"
  using pow2_add [of "f - e" e] by (simp add: pow2_def [of "f - e"])

lemma half_even_of_int [simp]: "half_even (of_int n) = n"
  by (simp add: half_even_def)

lemma ilog2_le:
  assumes "0 < x" shows "pow2 (ilog2 x) \<le> x"
proof -
  obtain n d where q: "quotient_of x = (n, d)" by (cases "quotient_of x")
  then have d: "0 < d" and x: "x = of_int n / of_int d"
    by (auto simp: quotient_of_denom_pos quotient_of_div)
  with assms have n: "0 < n" by (simp add: zero_less_divide_iff)
  let ?k = "bitlen n - bitlen d"
  have bn: "2 ^ nat (bitlen n - 1) \<le> n" using bitlen_bounds [of n] n by simp
  have bd: "d < 2 ^ nat (bitlen d)" using bitlen_bounds [of d] d by simp
  have pn: "0 < bitlen n" "0 < bitlen d" using n d bitlen_eq_zero_iff bitlen_nonneg by (metis leD order_less_le)+
  have "pow2 (bitlen n - 1) \<le> of_int n"
    using bn pn of_int_le_iff [of "2 ^ nat (bitlen n - 1)" n, where ?'a = rat]
    by (simp add: pow2_def)
  moreover have "of_int d < pow2 (bitlen d)"
    using bd pn of_int_less_iff [of d "2 ^ nat (bitlen d)", where ?'a = rat]
    by (simp add: pow2_def)
  ultimately have "pow2 (bitlen n - 1) * of_int d \<le> of_int n * pow2 (bitlen d)"
    using d n by (intro mult_mono) (auto simp: less_imp_le)
  then have "pow2 (?k - 1) * pow2 (bitlen d) * of_int d \<le> of_int n * pow2 (bitlen d)"
    using pow2_add [of "?k - 1" "bitlen d"] by simp
  then have "pow2 (?k - 1) \<le> x"
    using d by (simp add: x field_simps)
  then show ?thesis by (simp add: ilog2_def q Let_def)
qed

theorem rnd_exact:
  assumes m: "\<bar>m\<bar> < 2 ^ 53" and e: "- 1074 \<le> e" "e \<le> 900"
  shows "rnd (of_int m * pow2 e) = Fin (of_int m * pow2 e)"
proof (cases "m = 0")
  case True
  then show ?thesis by (simp add: rnd_def)
next
  case False
  let ?x = "of_int m * pow2 e"
  let ?a = "\<bar>?x\<bar>"
  obtain f where f: "f = max (- 1074) (ilog2 ?a - 52)" by simp
  have a: "?a = of_int \<bar>m\<bar> * pow2 e" by (simp add: abs_mult)
  have pos: "0 < ?a" using False by simp
  have "of_int \<bar>m\<bar> < pow2 53"
    using m of_int_less_iff [of "\<bar>m\<bar>" "2 ^ 53", where ?'a = rat] by (simp add: pow2_def)
  then have lt: "?a < pow2 (53 + e)"
    unfolding a pow2_add by simp
  then have "ilog2 ?a < 53 + e"
    using ilog2_le [OF pos] pow2_less_iff [of "ilog2 ?a" "53 + e"] by linarith
  then have fe: "f \<le> e" using e f by simp
  let ?n = "\<bar>m\<bar> * 2 ^ nat (e - f)"
  have an: "?a = of_int ?n * pow2 f"
    unfolding a pow2_diff_int [OF fe] by (simp add: abs_mult)
  then have q: "?a / pow2 f = of_int ?n" by simp
  have v: "of_int (half_even (?a / pow2 f)) * pow2 f = ?a"
    by (simp only: q half_even_of_int an [symmetric])
  have "pow2 (53 + e) \<le> pow2 1024" using e by (simp only: pow2_le_iff)
  then have big: "\<not> (2 ^ 1024 \<le> ?a)" using lt by (simp add: pow2_def [of 1024])
  have sgn: "(if ?x < 0 then - ?a else ?a) = ?x" by (simp add: abs_if)
  show ?thesis
    unfolding rnd_def Let_def f [symmetric] v using False big sgn by simp
qed

lemma rnd_of_int: "\<bar>m\<bar> < 2 ^ 53 \<Longrightarrow> rnd (of_int m) = Fin (of_int m)"
  using rnd_exact [of m 0] by simp

lemma rnd_of_nat: "n < 2 ^ 53 \<Longrightarrow> rnd (of_nat n) = Fin (of_nat n)"
  using rnd_of_int [of "int n"] by simp

subsection \<open>Decimal numerals as floats\<close>

lemma underscores_ok_digits:
  "p \<noteq> CHR ''_'' \<Longrightarrow> (\<And>c. c \<in> set s \<Longrightarrow> is_digit c) \<Longrightarrow> underscores_ok p s"
  by (induction s arbitrary: p) (auto dest: is_digit_not_sign)

lemma parse_unsigned_show_nat:
  "n < 2 ^ 53 \<Longrightarrow> parse_unsigned False (show_nat n) = Some (Fin (of_nat n))"
proof -
  assume n: "n < 2 ^ 53"
  have tw: "takeWhile is_digit (show_nat n) = show_nat n"
    by (rule takeWhile_all) (rule digits_show_nat)
  have dw: "dropWhile is_digit (show_nat n) = []"
    by (rule dropWhile_all) (rule digits_show_nat)
  show ?thesis
    using rnd_of_nat [OF n]
    by (simp add: parse_unsigned_def tw dw pow10_def)
qed

theorem py_float_show_nat:
  assumes "n < 2 ^ 53"
  shows "py_float (show_nat n) = Inr (Fin (of_nat n))"
proof -
  have strip: "strip_by is_space (show_nat n) = show_nat n"
    by (rule strip_by_none) (auto dest: digits_show_nat simp: not_digit_facts)
  have fl: "filter (\<lambda>c. c \<noteq> CHR ''_'') (show_nat n) = show_nat n"
    by (rule filter_True) (auto dest: digits_show_nat is_digit_not_sign)
  have us: "underscores_ok (CHR '' '') (show_nat n)"
    by (rule underscores_ok_digits) (auto dest: digits_show_nat)
  show ?thesis
    using parse_unsigned_show_nat [OF assms]
    by (simp add: py_float_def strip us fl take_sign_digits [OF digits_show_nat])
qed

end
