(* ===== verification/PyPath.thy ===== *)
theory PyPath
  imports PyText "HOL-Library.Sublist"
begin

section \<open>Paths\<close>

text \<open>
  The part of \<open>pathlib.PurePosixPath\<close> the source uses. A path is its root (empty, one
  slash, or the two slashes POSIX sets apart) and its parts; empty parts and single dots are
  dropped when a text is read, double dots are kept, as \<open>pathlib\<close> does.
\<close>

record path =
  root :: string
  parts :: "string list"

definition path_root :: "string \<Rightarrow> string" where
  "path_root s =
     (if starts_with ''//'' s \<and> \<not> starts_with ''///'' s then ''//''
      else if starts_with ''/'' s then ''/'' else [])"

definition path_parts :: "string \<Rightarrow> string list" where
  "path_parts s = filter (\<lambda>x. x \<noteq> [] \<and> x \<noteq> ''.'') (split_char (CHR ''/'') s)"

definition mk_path :: "string \<Rightarrow> path" where
  "mk_path s = \<lparr>root = path_root s, parts = path_parts s\<rparr>"

definition str_path :: "path \<Rightarrow> string" where
  "str_path p = (if root p = [] \<and> parts p = [] then ''.'' else root p @ join ''/'' (parts p))"

text \<open>\<open>p / text\<close>: an absolute text replaces the path.\<close>

definition path_join :: "path \<Rightarrow> string \<Rightarrow> path" where
  "path_join p s =
     (if path_root s \<noteq> [] then mk_path s else p\<lparr>parts := parts p @ path_parts s\<rparr>)"

definition path_name :: "path \<Rightarrow> string" where
  "path_name p = (if parts p = [] then [] else last (parts p))"

definition path_parent :: "path \<Rightarrow> path" where
  "path_parent p = p\<lparr>parts := butlast (parts p)\<rparr>"

text \<open>
  \<open>expanduser\<close>: a relative path whose first part starts with a tilde has that part replaced
  by a home directory; an unknown user is a \<open>RuntimeError\<close>. \<open>home\<close> is the
  directory of the running user and \<open>user_home\<close> that of a named one.
\<close>

record env =
  home :: string
  user_home :: "string \<Rightarrow> string option"
  tmpdir :: string

definition home_of :: "env \<Rightarrow> string \<Rightarrow> string option" where
  "home_of ev u = (if u = [] then Some (home ev) else user_home ev u)"

definition expanduser :: "env \<Rightarrow> path \<Rightarrow> path res" where
  "expanduser ev p =
     (case parts p of [] \<Rightarrow> Inr p
      | x # xs \<Rightarrow>
         (if root p = [] \<and> starts_with ''~'' x then
            (case home_of ev (tl x) of None \<Rightarrow> Inl RuntimeError
             | Some h \<Rightarrow> Inr ((mk_path h)\<lparr>parts := path_parts h @ xs\<rparr>))
          else Inr p))"

text \<open>A path lies beneath a directory when the directory is a prefix of it, part by part.\<close>

definition beneath :: "path \<Rightarrow> path \<Rightarrow> bool" where
  "beneath d p \<longleftrightarrow> root p = root d \<and> prefix (parts d) (parts p)"

subsection \<open>Facts\<close>

definition plain_name :: "string \<Rightarrow> bool" where
  "plain_name s \<longleftrightarrow> s \<noteq> [] \<and> s \<noteq> ''.'' \<and> CHR ''/'' \<notin> set s"

lemma path_parts_plain: "plain_name s \<Longrightarrow> path_parts s = [s]"
  by (simp add: plain_name_def path_parts_def split_char_none)

lemma path_root_plain: "plain_name s \<Longrightarrow> path_root s = []"
  by (cases s) (auto simp: plain_name_def path_root_def)

lemma path_join_plain [simp]:
  "plain_name s \<Longrightarrow> path_join p s = p\<lparr>parts := parts p @ [s]\<rparr>"
  by (simp add: path_join_def path_root_plain path_parts_plain)

lemma path_name_join [simp]: "plain_name s \<Longrightarrow> path_name (path_join p s) = s"
  by (simp add: path_name_def)

lemma path_parent_join [simp]: "plain_name s \<Longrightarrow> path_parent (path_join p s) = p"
  by (simp add: path_parent_def)

lemma path_join_inj:
  "plain_name s \<Longrightarrow> plain_name t \<Longrightarrow> path_join p s = path_join p t \<longleftrightarrow> s = t"
  by (metis path_name_join)

lemma beneath_refl [simp]: "beneath d d"
  by (simp add: beneath_def)

lemma beneath_trans: "beneath a b \<Longrightarrow> beneath b c \<Longrightarrow> beneath a c"
  by (auto simp: beneath_def)

lemma beneath_join [simp]: "plain_name s \<Longrightarrow> beneath p (path_join p s)"
  by (simp add: beneath_def)

lemma siblings_not_beneath:
  assumes "plain_name s" "plain_name t" "s \<noteq> t" "beneath (path_join p s) q"
  shows "\<not> beneath (path_join p t) q"
  using assms by (auto simp: beneath_def prefix_def)

end
