(* ===== verification/Config.thy ===== *)
theory Config
  imports PyFloat PyPath
begin

section \<open>Configuration (src/keycard/config.py)\<close>

text \<open>
  The records \<open>RoomConfig\<close>, \<open>FirecrackerConfig\<close> and \<open>Config\<close>, duration parsing,
  the tables of \<open>keycard.toml\<close> and \<open>load\<close>. The file is seen after
  \<open>tomllib.loads\<close>: as the table of values it holds. A value the source only passes to
  \<open>str\<close> and \<open>int\<close> (a float, a date, an array) is \<open>TOther\<close> with the results of both.
  Warnings are part of the result, since some checks do nothing but warn.
\<close>

subsection \<open>Values of a TOML document\<close>

datatype toml =
    TStr string
  | TInt int
  | TBool bool
  | TTable "(string \<times> toml) list" string
  | TOther string "int res"

type_synonym table = "(string, toml) dict"

fun toml_str :: "toml \<Rightarrow> string" where
  "toml_str (TStr s) = s"
| "toml_str (TInt i) = show_int i"
| "toml_str (TBool b) = (if b then ''True'' else ''False'')"
| "toml_str (TTable t s) = s"
| "toml_str (TOther s r) = s"

fun toml_int :: "toml \<Rightarrow> int res" where
  "toml_int (TStr s) = py_int is_space s"
| "toml_int (TInt i) = Inr i"
| "toml_int (TBool b) = Inr (if b then 1 else 0)"
| "toml_int (TTable t s) = Inl TypeError"
| "toml_int (TOther s r) = r"

definition get_str :: "table \<Rightarrow> string \<Rightarrow> string \<Rightarrow> string" where
  "get_str t k d = (case dget t k of None \<Rightarrow> d | Some v \<Rightarrow> toml_str v)"

definition get_int :: "table \<Rightarrow> string \<Rightarrow> int \<Rightarrow> int res" where
  "get_int t k d = (case dget t k of None \<Rightarrow> Inr d | Some v \<Rightarrow> toml_int v)"

text \<open>\<open>raw.get(k, {})\<close>, seen as a table only when it is one.\<close>

definition get_table :: "table \<Rightarrow> string \<Rightarrow> table option" where
  "get_table t k = (case dget t k of None \<Rightarrow> Some [] | Some (TTable u s) \<Rightarrow> Some u | Some v \<Rightarrow> None)"

subsection \<open>Durations\<close>

definition duration_unit :: "char \<Rightarrow> rat option" where
  "duration_unit c =
     (if c = CHR ''s'' then Some 1 else if c = CHR ''m'' then Some 60
      else if c = CHR ''h'' then Some 3600 else None)"

definition parse_duration :: "string \<Rightarrow> f64 res" where
  "parse_duration spec0 = (let spec = strip_by is_space spec0 in
     if spec = [] \<or> spec = ''0'' then Inr (Fin 0)
     else (case duration_unit (last spec) of
             Some u \<Rightarrow> bind_res (py_float (butlast spec)) (\<lambda>x. Inr (fscale x u))
           | None \<Rightarrow> py_float spec))"

subsection \<open>Records\<close>

record room_config =
  rc_name :: string
  rc_image :: string
  rc_memory :: string
  rc_cpus :: int
  rc_pids_limit :: int
  rc_network :: string
  rc_backend :: string
  rc_rootfs :: string

definition mk_room :: "string \<Rightarrow> string \<Rightarrow> room_config" where
  "mk_room n i = \<lparr>rc_name = n, rc_image = i, rc_memory = [], rc_cpus = 0, rc_pids_limit = 512,
     rc_network = [], rc_backend = [], rc_rootfs = []\<rparr>"

record firecracker_config =
  fc_binary :: string
  fc_kernel :: "path option"
  fc_rootfs_dir :: path
  fc_runtime_dir :: path
  fc_boot_args :: string
  fc_boot_timeout :: string
  fc_confinement :: string

definition DEFAULT_BOOT_ARGS :: string where
  "DEFAULT_BOOT_ARGS = ''init=/usr/sbin/keycard-init console=ttyS0 reboot=k panic=1 pci=off''"

definition CONFINEMENT_MODES :: "string list" where
  "CONFINEMENT_MODES = [''required'', ''best-effort'', ''off'']"

definition DEFAULT_CONFINEMENT :: string where
  "DEFAULT_CONFINEMENT = ''best-effort''"

definition default_firecracker :: "env \<Rightarrow> firecracker_config" where
  "default_firecracker ev = \<lparr>fc_binary = ''firecracker'', fc_kernel = None,
     fc_rootfs_dir = mk_path ''/var/lib/keycard/rootfs'',
     fc_runtime_dir = path_join (mk_path (tmpdir ev)) ''keycard'',
     fc_boot_args = DEFAULT_BOOT_ARGS, fc_boot_timeout = ''30s'',
     fc_confinement = DEFAULT_CONFINEMENT\<rparr>"

definition boot_timeout_seconds :: "firecracker_config \<Rightarrow> f64 res" where
  "boot_timeout_seconds fc = parse_duration (fc_boot_timeout fc)"

record config =
  cf_listen :: string
  cf_authorized_keys :: path
  cf_host_key :: path
  cf_idle_timeout :: string
  cf_shutdown_grace :: string
  cf_keep_window :: string
  cf_default_room :: string
  cf_backend :: string
  cf_rooms :: "(string, room_config) dict"
  cf_firecracker :: firecracker_config

definition KNOWN_BACKENDS :: "string list" where
  "KNOWN_BACKENDS = [''docker'', ''firecracker'']"

definition DEFAULT_BACKEND :: string where
  "DEFAULT_BACKEND = ''docker''"

definition BUILTIN_ROOMS :: "(string \<times> string) list" where
  "BUILTIN_ROOMS = [(''ubuntu'', ''ubuntu:24.04''), (''python'', ''python:3.12-slim''),
     (''node'', ''node:22-slim'')]"

definition DEFAULT_ROOM :: string where
  "DEFAULT_ROOM = ''ubuntu''"

definition config_dir :: "env \<Rightarrow> path" where
  "config_dir ev = path_join (path_join (mk_path (home ev)) ''.config'') ''keycard''"

definition default_config_path :: "env \<Rightarrow> path" where
  "default_config_path ev = path_join (config_dir ev) ''keycard.toml''"

definition default_config :: "env \<Rightarrow> config" where
  "default_config ev = \<lparr>cf_listen = '':2222'',
     cf_authorized_keys = path_join (config_dir ev) ''authorized_keys'',
     cf_host_key = path_join (config_dir ev) ''host_key'',
     cf_idle_timeout = ''15m'', cf_shutdown_grace = ''30s'', cf_keep_window = ''0'',
     cf_default_room = DEFAULT_ROOM, cf_backend = DEFAULT_BACKEND, cf_rooms = [],
     cf_firecracker = default_firecracker ev\<rparr>"

text \<open>The properties of \<open>Config\<close>. \<open>host\<close> is the whole text when there is no colon.\<close>

definition cfg_port :: "config \<Rightarrow> int res" where
  "cfg_port cfg = py_int is_space (snd (rcut (CHR '':'') (cf_listen cfg)))"

definition cfg_host :: "config \<Rightarrow> string" where
  "cfg_host cfg = (case rcut (CHR '':'') (cf_listen cfg) of (None, r) \<Rightarrow> r | (Some h, r) \<Rightarrow> h)"

definition idle_timeout_seconds :: "config \<Rightarrow> f64 res" where
  "idle_timeout_seconds cfg = parse_duration (cf_idle_timeout cfg)"

definition shutdown_grace_seconds :: "config \<Rightarrow> f64 res" where
  "shutdown_grace_seconds cfg = parse_duration (cf_shutdown_grace cfg)"

definition keep_window_seconds :: "config \<Rightarrow> f64 res" where
  "keep_window_seconds cfg = parse_duration (cf_keep_window cfg)"

definition resolve :: "config \<Rightarrow> string \<Rightarrow> room_config option" where
  "resolve cfg username =
     (case dget (cf_rooms cfg) username of
        Some r \<Rightarrow> Some r
      | None \<Rightarrow> dget (cf_rooms cfg) (cf_default_room cfg))"

subsection \<open>Validation and the tables\<close>

datatype warning =
    UnknownBackend string string
  | NoImage string
  | IgnoredPidsLimit string
  | UnknownConfinement string

definition valid_backend :: "string \<Rightarrow> string \<Rightarrow> string \<times> warning list" where
  "valid_backend nm place =
     (if nm = [] \<or> nm \<in> set KNOWN_BACKENDS then (nm, [])
      else (DEFAULT_BACKEND, [UnknownBackend nm place]))"

definition confinement_mode :: "string \<Rightarrow> string \<times> warning list" where
  "confinement_mode mode =
     (if mode \<in> set CONFINEMENT_MODES then (mode, [])
      else (DEFAULT_CONFINEMENT, [UnknownConfinement mode]))"

text \<open>One entry of \<open>[rooms.*]\<close> whose image is a string.\<close>

definition parse_room :: "string \<Rightarrow> string \<Rightarrow> table \<Rightarrow> (room_config \<times> warning list) res" where
  "parse_room nm img t =
     bind_res (get_int t ''cpus'' 0) (\<lambda>cpus.
     bind_res (get_int t ''pids_limit'' 512) (\<lambda>pids.
     (case valid_backend (get_str t ''backend'' []) (''room '' @ nm) of (b, w) \<Rightarrow>
        Inr (\<lparr>rc_name = nm, rc_image = img, rc_memory = get_str t ''memory'' [],
              rc_cpus = cpus, rc_pids_limit = pids, rc_network = get_str t ''network'' [],
              rc_backend = b, rc_rootfs = get_str t ''rootfs'' []\<rparr>, w))))"

type_synonym rooms = "(string, room_config) dict"

fun parse_rooms_loop :: "table \<Rightarrow> rooms \<Rightarrow> warning list \<Rightarrow> (rooms \<times> warning list) res" where
  "parse_rooms_loop [] rs w = Inr (rs, w)"
| "parse_rooms_loop ((nm, TTable t tx) # rest) rs w =
     (case dget t ''image'' of
        Some (TStr img) \<Rightarrow>
          bind_res (parse_room nm img t) (\<lambda>(r, w').
            parse_rooms_loop rest (dset nm r rs) (w @ w'))
      | _ \<Rightarrow> parse_rooms_loop rest rs (w @ [NoImage nm]))"
| "parse_rooms_loop ((nm, v) # rest) rs w = parse_rooms_loop rest rs w"

definition parse_rooms :: "table \<Rightarrow> (rooms \<times> warning list) res" where
  "parse_rooms raw = (case get_table raw ''rooms'' of None \<Rightarrow> Inr ([], [])
     | Some t \<Rightarrow> parse_rooms_loop t [] [])"

definition sets_pids_limit :: "toml \<Rightarrow> bool" where
  "sets_pids_limit v = (case v of TTable t tx \<Rightarrow> dhas t ''pids_limit'' | _ \<Rightarrow> False)"

definition effective_backend :: "config \<Rightarrow> room_config \<Rightarrow> string" where
  "effective_backend cfg r = (if rc_backend r \<noteq> [] then rc_backend r else cf_backend cfg)"

definition warn_ignored_room_keys :: "config \<Rightarrow> table \<Rightarrow> warning list" where
  "warn_ignored_room_keys cfg raw = (case get_table raw ''rooms'' of None \<Rightarrow> []
     | Some t \<Rightarrow> concat (List.map (\<lambda>(nm, v).
         if \<not> sets_pids_limit v then []
         else (case dget (cf_rooms cfg) nm of None \<Rightarrow> []
               | Some r \<Rightarrow> if effective_backend cfg r = ''firecracker''
                          then [IgnoredPidsLimit nm] else [])) t))"

subsection \<open>Overrides\<close>

text \<open>\<open>if k in table: cfg.k = str(table[k])\<close>, and the same for a path.\<close>

definition set_str :: "table \<Rightarrow> string \<Rightarrow> (string \<Rightarrow> 'c \<Rightarrow> 'c) \<Rightarrow> 'c \<Rightarrow> 'c" where
  "set_str t k f c = (case dget t k of None \<Rightarrow> c | Some v \<Rightarrow> f (toml_str v) c)"

definition set_path :: "env \<Rightarrow> table \<Rightarrow> string \<Rightarrow> (path \<Rightarrow> 'c \<Rightarrow> 'c) \<Rightarrow> 'c \<Rightarrow> 'c res" where
  "set_path ev t k f c = (case dget t k of None \<Rightarrow> Inr c
     | Some v \<Rightarrow> bind_res (expanduser ev (mk_path (toml_str v))) (\<lambda>p. Inr (f p c)))"

definition parse_firecracker :: "env \<Rightarrow> table \<Rightarrow> (firecracker_config \<times> warning list) res" where
  "parse_firecracker ev raw = (let fc = default_firecracker ev in
     (case get_table raw ''firecracker'' of None \<Rightarrow> Inr (fc, [])
      | Some t \<Rightarrow>
          bind_res (set_path ev t ''kernel'' (\<lambda>p. fc_kernel_update (\<lambda>_. Some p))
            (set_str t ''binary'' (\<lambda>s. fc_binary_update (\<lambda>_. s)) fc)) (\<lambda>fc1.
          bind_res (set_path ev t ''rootfs_dir'' (\<lambda>p. fc_rootfs_dir_update (\<lambda>_. p)) fc1) (\<lambda>fc2.
          bind_res (set_path ev t ''runtime_dir'' (\<lambda>p. fc_runtime_dir_update (\<lambda>_. p)) fc2) (\<lambda>fc3.
            let fc4 = set_str t ''boot_args'' (\<lambda>s. fc_boot_args_update (\<lambda>_. s)) fc3;
                fc5 = set_str t ''boot_timeout'' (\<lambda>s. fc_boot_timeout_update (\<lambda>_. s)) fc4
            in (case dget t ''confinement'' of None \<Rightarrow> Inr (fc5, [])
                | Some v \<Rightarrow> (case confinement_mode (toml_str v) of (m, w) \<Rightarrow>
                    Inr (fc5\<lparr>fc_confinement := m\<rparr>, w))))))))"

definition builtin_rooms :: rooms where
  "builtin_rooms = List.map (\<lambda>(n, i). (n, mk_room n i)) BUILTIN_ROOMS"

definition builtin_config :: "env \<Rightarrow> config" where
  "builtin_config ev = (default_config ev)\<lparr>cf_rooms := builtin_rooms, cf_default_room := DEFAULT_ROOM\<rparr>"

subsection \<open>load\<close>

definition set_backend :: "table \<Rightarrow> config \<Rightarrow> config \<times> warning list" where
  "set_backend raw cfg = (case dget raw ''backend'' of None \<Rightarrow> (cfg, [])
     | Some v \<Rightarrow> (case valid_backend (toml_str v) ''the top level'' of (b, w) \<Rightarrow>
         (cfg\<lparr>cf_backend := (if b = [] then DEFAULT_BACKEND else b)\<rparr>, w)))"

text \<open>The top-level scalar keys, in the order of the source.\<close>

definition load_scalars :: "env \<Rightarrow> table \<Rightarrow> (config \<times> warning list) res" where
  "load_scalars ev raw =
     bind_res (set_path ev raw ''authorized_keys'' (\<lambda>p. cf_authorized_keys_update (\<lambda>_. p))
       (set_str raw ''listen'' (\<lambda>s. cf_listen_update (\<lambda>_. s)) (default_config ev))) (\<lambda>c1.
     bind_res (set_path ev raw ''host_key'' (\<lambda>p. cf_host_key_update (\<lambda>_. p)) c1) (\<lambda>c2.
       let c3 = set_str raw ''idle_timeout'' (\<lambda>s. cf_idle_timeout_update (\<lambda>_. s)) c2;
           c4 = set_str raw ''shutdown_grace'' (\<lambda>s. cf_shutdown_grace_update (\<lambda>_. s)) c3;
           c5 = set_str raw ''keep_window'' (\<lambda>s. cf_keep_window_update (\<lambda>_. s)) c4;
           c6 = set_str raw ''default_room'' (\<lambda>s. cf_default_room_update (\<lambda>_. s)) c5
       in Inr (set_backend raw c6)))"

definition settle_rooms :: "config \<Rightarrow> config" where
  "settle_rooms cfg =
     (let c1 = (if cf_rooms cfg = [] then cfg\<lparr>cf_rooms := builtin_rooms\<rparr> else cfg) in
      if \<not> dhas (cf_rooms c1) (cf_default_room c1) \<and> cf_rooms c1 \<noteq> []
      then c1\<lparr>cf_default_room := fst (hd (cf_rooms c1))\<rparr> else c1)"

definition load_table :: "env \<Rightarrow> table \<Rightarrow> (config \<times> warning list) res" where
  "load_table ev raw =
     bind_res (load_scalars ev raw) (\<lambda>(c1, w1).
     bind_res (parse_firecracker ev raw) (\<lambda>(fc, w2).
     bind_res (parse_rooms raw) (\<lambda>(rs, w3).
       let cfg = settle_rooms (c1\<lparr>cf_firecracker := fc, cf_rooms := rs\<rparr>)
       in Inr (cfg, w1 @ w2 @ w3 @ warn_ignored_room_keys cfg raw))))"

text \<open>
  \<open>docs\<close> is the file system as \<open>load\<close> sees it: no file, a file that cannot be read or
  parsed (an exception), or a document.
\<close>

definition load :: "env \<Rightarrow> (path \<Rightarrow> table res option) \<Rightarrow> path option \<Rightarrow> (config \<times> warning list) res" where
  "load ev docs path0 = (let p = (case path0 of None \<Rightarrow> default_config_path ev | Some q \<Rightarrow> q) in
     (case docs p of None \<Rightarrow> Inr (builtin_config ev, [])
      | Some doc \<Rightarrow> bind_res doc (load_table ev)))"

subsection \<open>Well-formed configurations\<close>

definition wf_room :: "string \<Rightarrow> room_config \<Rightarrow> bool" where
  "wf_room nm r \<longleftrightarrow> rc_name r = nm \<and> (rc_backend r = [] \<or> rc_backend r \<in> set KNOWN_BACKENDS)"

definition wf_rooms :: "rooms \<Rightarrow> bool" where
  "wf_rooms rs \<longleftrightarrow> distinct (dkeys rs) \<and> (\<forall>(nm, r) \<in> set rs. wf_room nm r)"

definition wf_config :: "config \<Rightarrow> bool" where
  "wf_config cfg \<longleftrightarrow> cf_backend cfg \<in> set KNOWN_BACKENDS \<and> wf_rooms (cf_rooms cfg)
     \<and> dhas (cf_rooms cfg) (cf_default_room cfg)
     \<and> fc_confinement (cf_firecracker cfg) \<in> set CONFINEMENT_MODES"

lemma valid_backend_known:
  "fst (valid_backend nm pl) = [] \<or> fst (valid_backend nm pl) \<in> set KNOWN_BACKENDS"
  by (auto simp: valid_backend_def KNOWN_BACKENDS_def DEFAULT_BACKEND_def)

lemma confinement_mode_known: "fst (confinement_mode m) \<in> set CONFINEMENT_MODES"
  by (auto simp: confinement_mode_def CONFINEMENT_MODES_def DEFAULT_CONFINEMENT_def)

lemma wf_rooms_dset: "wf_rooms rs \<Longrightarrow> wf_room nm r \<Longrightarrow> wf_rooms (dset nm r rs)"
  by (auto simp: wf_rooms_def distinct_dset set_dset_distinct)

lemma parse_room_wf: "parse_room nm img t = Inr (r, w) \<Longrightarrow> wf_room nm r"
  using valid_backend_known [of "get_str t ''backend'' []" "''room '' @ nm"]
  by (auto simp: parse_room_def wf_room_def bind_res_Inr_iff case_prod_beta)

lemma parse_rooms_loop_wf:
  "parse_rooms_loop t rs w = Inr (rs', w') \<Longrightarrow> wf_rooms rs \<Longrightarrow> wf_rooms rs'"
proof (induction t rs w rule: parse_rooms_loop.induct)
  case (2 nm t tx rest rs w)
  have "wf_rooms (dset nm r rs)" if "parse_room nm img t = Inr (r, wr)" for img r wr
    using "2.prems"(2) parse_room_wf [OF that] by (rule wf_rooms_dset)
  with 2 show ?case
    by (auto simp: bind_res_Inr_iff split: option.splits toml.splits)
qed auto

lemma parse_rooms_wf: "parse_rooms raw = Inr (rs, w) \<Longrightarrow> wf_rooms rs"
  by (auto simp: parse_rooms_def wf_rooms_def [of "[]"] split: option.splits
      intro: parse_rooms_loop_wf)

lemma builtin_rooms_wf: "wf_rooms builtin_rooms"
  by (simp add: wf_rooms_def wf_room_def builtin_rooms_def BUILTIN_ROOMS_def mk_room_def)

lemma settle_rooms_simps [simp]:
  "cf_backend (settle_rooms cfg) = cf_backend cfg"
  "cf_firecracker (settle_rooms cfg) = cf_firecracker cfg"
  "cf_rooms (settle_rooms cfg) = (if cf_rooms cfg = [] then builtin_rooms else cf_rooms cfg)"
  "cf_listen (settle_rooms cfg) = cf_listen cfg"
  "cf_idle_timeout (settle_rooms cfg) = cf_idle_timeout cfg"
  "cf_shutdown_grace (settle_rooms cfg) = cf_shutdown_grace cfg"
  "cf_keep_window (settle_rooms cfg) = cf_keep_window cfg"
  by (auto simp: settle_rooms_def Let_def)

lemma builtin_rooms_not_Nil: "builtin_rooms \<noteq> []"
  by (simp add: builtin_rooms_def BUILTIN_ROOMS_def)

lemma dhas_hd: "rs \<noteq> [] \<Longrightarrow> dhas rs (fst (hd rs))"
  by (cases rs) (auto simp: dhas_def)

lemma settle_rooms_default: "dhas (cf_rooms (settle_rooms cfg)) (cf_default_room (settle_rooms cfg))"
  using builtin_rooms_not_Nil by (auto simp: settle_rooms_def Let_def dhas_hd)

lemma set_str_frame:
  "(\<And>s c. g (f s c) = g c) \<Longrightarrow> g (set_str t k f c) = g c"
  by (simp add: set_str_def split: option.splits)

lemma set_path_frame:
  "set_path ev t k f c = Inr c' \<Longrightarrow> (\<And>s c. g (f s c) = g c) \<Longrightarrow> g c' = g c"
  by (auto simp: set_path_def bind_res_Inr_iff split: option.splits)

lemma default_firecracker_wf: "fc_confinement (default_firecracker ev) \<in> set CONFINEMENT_MODES"
  by (simp add: default_firecracker_def CONFINEMENT_MODES_def DEFAULT_CONFINEMENT_def)

lemma parse_firecracker_wf:
  "parse_firecracker ev raw = Inr (fc, w) \<Longrightarrow> fc_confinement fc \<in> set CONFINEMENT_MODES"
  using default_firecracker_wf [of ev] confinement_mode_known
  by (auto simp: parse_firecracker_def Let_def bind_res_Inr_iff case_prod_beta
      set_str_frame [where g = fc_confinement] dest!: set_path_frame [where g = fc_confinement]
      split: option.splits)

lemma set_backend_known:
  "cf_backend cfg \<in> set KNOWN_BACKENDS \<Longrightarrow>
    cf_backend (fst (set_backend raw cfg)) \<in> set KNOWN_BACKENDS"
  using valid_backend_known
  by (auto simp: set_backend_def DEFAULT_BACKEND_def KNOWN_BACKENDS_def case_prod_beta
      split: option.splits)

lemma default_config_backend: "cf_backend (default_config ev) \<in> set KNOWN_BACKENDS"
  by (simp add: default_config_def DEFAULT_BACKEND_def KNOWN_BACKENDS_def)

text \<open>The settled scalars of a document: its own value, or the default.\<close>

lemma load_scalars_cases:
  assumes "load_scalars ev raw = Inr (cfg, w)"
  obtains c where "set_backend raw c = (cfg, w)"
    and "cf_backend c = cf_backend (default_config ev)"
    and "cf_listen c = get_str raw ''listen'' '':2222''"
    and "cf_idle_timeout c = get_str raw ''idle_timeout'' ''15m''"
    and "cf_shutdown_grace c = get_str raw ''shutdown_grace'' ''30s''"
    and "cf_keep_window c = get_str raw ''keep_window'' ''0''"
    and "cf_default_room c = get_str raw ''default_room'' DEFAULT_ROOM"
proof -
  from assms obtain c1 c2 where
    s1: "set_path ev raw ''authorized_keys'' (\<lambda>p. cf_authorized_keys_update (\<lambda>_. p))
       (set_str raw ''listen'' (\<lambda>s. cf_listen_update (\<lambda>_. s)) (default_config ev)) = Inr c1"
    and s2: "set_path ev raw ''host_key'' (\<lambda>p. cf_host_key_update (\<lambda>_. p)) c1 = Inr c2"
    and s3: "set_backend raw (set_str raw ''default_room'' (\<lambda>s. cf_default_room_update (\<lambda>_. s))
       (set_str raw ''keep_window'' (\<lambda>s. cf_keep_window_update (\<lambda>_. s))
       (set_str raw ''shutdown_grace'' (\<lambda>s. cf_shutdown_grace_update (\<lambda>_. s))
       (set_str raw ''idle_timeout'' (\<lambda>s. cf_idle_timeout_update (\<lambda>_. s)) c2)))) = (cfg, w)"
    by (auto simp: load_scalars_def Let_def bind_res_Inr_iff)
  have backend: "cf_backend c2 = cf_backend (set_str raw ''listen'' (\<lambda>s. cf_listen_update (\<lambda>_. s)) (default_config ev))"
    using set_path_frame [OF s1, of cf_backend] set_path_frame [OF s2, of cf_backend] by simp
  have listen: "cf_listen c2 = cf_listen (set_str raw ''listen'' (\<lambda>s. cf_listen_update (\<lambda>_. s)) (default_config ev))"
    using set_path_frame [OF s1, of cf_listen] set_path_frame [OF s2, of cf_listen] by simp
  have idle_timeout: "cf_idle_timeout c2 = cf_idle_timeout (set_str raw ''listen'' (\<lambda>s. cf_listen_update (\<lambda>_. s)) (default_config ev))"
    using set_path_frame [OF s1, of cf_idle_timeout] set_path_frame [OF s2, of cf_idle_timeout] by simp
  have shutdown_grace: "cf_shutdown_grace c2 = cf_shutdown_grace (set_str raw ''listen'' (\<lambda>s. cf_listen_update (\<lambda>_. s)) (default_config ev))"
    using set_path_frame [OF s1, of cf_shutdown_grace] set_path_frame [OF s2, of cf_shutdown_grace] by simp
  have keep_window: "cf_keep_window c2 = cf_keep_window (set_str raw ''listen'' (\<lambda>s. cf_listen_update (\<lambda>_. s)) (default_config ev))"
    using set_path_frame [OF s1, of cf_keep_window] set_path_frame [OF s2, of cf_keep_window] by simp
  have default_room: "cf_default_room c2 = cf_default_room (set_str raw ''listen'' (\<lambda>s. cf_listen_update (\<lambda>_. s)) (default_config ev))"
    using set_path_frame [OF s1, of cf_default_room] set_path_frame [OF s2, of cf_default_room] by simp
  show thesis
    by (rule that [OF s3])
      (simp_all add: set_str_def get_str_def default_config_def backend listen idle_timeout shutdown_grace keep_window default_room
        split: option.splits)
qed

lemma load_scalars_backend:
  "load_scalars ev raw = Inr (cfg, w) \<Longrightarrow> cf_backend cfg \<in> set KNOWN_BACKENDS"
  using set_backend_known default_config_backend
  by (elim load_scalars_cases) (metis fst_conv)

lemma load_table_wf: "load_table ev raw = Inr (cfg, w) \<Longrightarrow> wf_config cfg"
proof -
  assume "load_table ev raw = Inr (cfg, w)"
  then obtain c1 w1 fc w2 rs w3 where
    c1: "load_scalars ev raw = Inr (c1, w1)" and fc: "parse_firecracker ev raw = Inr (fc, w2)"
    and rs: "parse_rooms raw = Inr (rs, w3)"
    and cfg: "cfg = settle_rooms (c1\<lparr>cf_firecracker := fc, cf_rooms := rs\<rparr>)"
    by (auto simp: load_table_def bind_res_Inr_iff Let_def)
  show ?thesis
    unfolding wf_config_def
    using load_scalars_backend [OF c1] parse_firecracker_wf [OF fc] parse_rooms_wf [OF rs]
      builtin_rooms_wf settle_rooms_default [of "c1\<lparr>cf_firecracker := fc, cf_rooms := rs\<rparr>"]
    by (simp add: cfg)
qed

lemma builtin_config_wf: "wf_config (builtin_config ev)"
  using builtin_rooms_wf
  by (simp add: wf_config_def builtin_config_def default_config_def KNOWN_BACKENDS_def
      DEFAULT_BACKEND_def default_firecracker_def CONFINEMENT_MODES_def DEFAULT_CONFINEMENT_def
      dhas_def builtin_rooms_def BUILTIN_ROOMS_def DEFAULT_ROOM_def)

lemma load_wf: "load ev docs p = Inr (cfg, w) \<Longrightarrow> wf_config cfg"
  by (auto simp: load_def Let_def bind_res_Inr_iff builtin_config_wf
      split: option.splits dest: load_table_wf)

lemma wf_config_resolve:
  assumes "wf_config cfg"
  shows "\<exists>r. resolve cfg u = Some r
    \<and> rc_name r = (if dhas (cf_rooms cfg) u then u else cf_default_room cfg)"
proof -
  have nm: "rc_name r = k" if "dget (cf_rooms cfg) k = Some r" for k r
    using that assms map_of_SomeD [OF that] by (auto simp: wf_config_def wf_rooms_def wf_room_def)
  obtain d where "dget (cf_rooms cfg) (cf_default_room cfg) = Some d"
    using assms by (auto simp: wf_config_def dhas_iff)
  with nm show ?thesis
    by (auto simp: resolve_def dhas_iff split: option.splits)
qed

subsection \<open>Durations\<close>

lemma duration_unit_cases:
  "duration_unit c = Some u \<Longrightarrow> \<not> is_space c \<and> (\<exists>k. u = of_nat k \<and> k \<le> 3600)"
  by (auto simp: duration_unit_def is_space_def code_def split: if_splits
      intro: exI [of _ 1] exI [of _ 60] exI [of _ 3600])

lemma duration_unit_digit: "is_digit c \<Longrightarrow> duration_unit c = None"
  by (auto simp: duration_unit_def is_digit_def code_def)

lemma hd_show_nat: "is_digit (hd (show_nat n))" and last_show_nat: "is_digit (last (show_nat n))"
  by (auto intro: digits_show_nat [of _ n])

lemma parse_duration_unit:
  assumes u: "duration_unit c = Some u" and n: "n * 3600 < 2 ^ 53"
  shows "parse_duration (show_nat n @ [c]) = Inr (Fin (of_nat n * u))"
proof -
  from duration_unit_cases [OF u] obtain k where c: "\<not> is_space c" and k: "u = of_nat k" "k \<le> 3600"
    by blast
  have strip: "strip_by is_space (show_nat n @ [c]) = show_nat n @ [c]"
    using c hd_show_nat [of n] by (intro strip_by_id) (auto simp: not_digit_facts)
  have "n * k < 2 ^ 53" using n k(2) by (meson le_less_trans mult_le_mono2)
  then have "rnd (of_nat n * u) = Fin (of_nat n * u)"
    using rnd_of_nat [of "n * k"] by (simp add: k(1))
  moreover have "py_float (show_nat n) = Inr (Fin (of_nat n))"
    using n by (intro py_float_show_nat) simp
  ultimately show ?thesis
    by (simp add: parse_duration_def strip u)
qed

lemma parse_duration_bare:
  assumes "n < 2 ^ 53"
  shows "parse_duration (show_nat n) = Inr (Fin (of_nat n))"
proof -
  have strip: "strip_by is_space (show_nat n) = show_nat n"
    by (rule strip_by_none) (auto dest: digits_show_nat simp: not_digit_facts)
  have "n = 0" if "show_nat n = ''0''"
    using that digits_val_show_nat [of n] by (simp add: digits_val_def digit_val_def code_def)
  then show ?thesis
    using py_float_show_nat [OF assms]
    by (auto simp: parse_duration_def Let_def strip duration_unit_digit [OF last_show_nat])
qed

text \<open>
  Property C30. A duration written as a whole number and one of the units s, m and h means that
  number of seconds, minutes or hours, exactly, and a bare number means seconds, as long as the
  result fits the 53 bits of a float.
\<close>

theorem parse_duration_exact:
  assumes "n * 3600 < 2 ^ 53"
  shows "parse_duration (show_nat n @ ''s'') = Inr (Fin (of_nat n))
    \<and> parse_duration (show_nat n @ ''m'') = Inr (Fin (of_nat (60 * n)))
    \<and> parse_duration (show_nat n @ ''h'') = Inr (Fin (of_nat (3600 * n)))
    \<and> parse_duration (show_nat n) = Inr (Fin (of_nat n))"
  using parse_duration_unit [OF _ assms] parse_duration_bare [of n] assms
  by (simp add: duration_unit_def mult.commute)

theorem parse_duration_exact_witness:
  "parse_duration (show_nat 15 @ ''m'') = Inr (Fin 900)"
  using parse_duration_exact [of 15] by simp

text \<open>
  A duration that is refused is refused with a \<open>ValueError\<close>, the one
  exception the command line turns into a message; a blank text and \<open>0\<close> never fail and
  mean zero, the value that disables what they configure.
\<close>

theorem parse_duration_error:
  "(\<forall>e. parse_duration spec = Inl e \<longrightarrow> e = ValueError)
   \<and> (strip_by is_space spec \<in> {[], ''0''} \<longrightarrow> parse_duration spec = Inr (Fin 0))"
  by (auto simp: parse_duration_def Let_def bind_res_Inl_iff py_float_def
      split: option.splits prod.splits if_splits)

theorem parse_duration_error_witness:
  "parse_duration '' '' = Inr (Fin 0) \<and> parse_duration ''soon'' = Inl ValueError"
proof -
  have "\<not> is_ok (parse_duration ''soon'')" by code_simp
  then obtain e where "parse_duration ''soon'' = Inl e" by (cases "parse_duration ''soon''") auto
  then show ?thesis
    using parse_duration_error [of "'' ''"] parse_duration_error [of "''soon''"]
    by (simp add: strip_by_def is_space_def code_def)
qed

subsection \<open>What load promises\<close>

text \<open>
  Property C28. Whatever document it reads, a configuration that loads is well formed: its backend
  and those of its rooms are backends that exist, every room sits under its own name, no name
  appears twice, the default room is one of the rooms and the confinement mode is known.
\<close>

theorem load_well_formed:
  assumes "load ev docs p = Inr (cfg, w)"
  shows "wf_config cfg"
  using assms by (rule load_wf)

definition sample_env :: env where
  "sample_env = \<lparr>home = ''/home/k'', user_home = (\<lambda>_. None), tmpdir = ''/tmp''\<rparr>"

definition sample_table :: table where
  "sample_table = [(''backend'', TStr ''firecraker''), (''listen'', TStr '':4444''),
     (''rooms'', TTable [(''alpine'', TTable [(''image'', TStr ''alpine:3''), (''pids_limit'', TInt 64),
        (''backend'', TStr ''firecracker'')] []), (''broken'', TTable [] [])] [])]"

lemma sample_loads:
  "\<exists>cfg w. load sample_env (\<lambda>_. Some (Inr sample_table)) None = Inr (cfg, w)
     \<and> dkeys (cf_rooms cfg) = [''alpine''] \<and> cf_backend cfg = ''docker''"
  by (simp add: load_def load_table_def load_scalars_def sample_table_def set_path_def set_str_def
      set_backend_def valid_backend_def KNOWN_BACKENDS_def DEFAULT_BACKEND_def parse_firecracker_def
      get_table_def parse_rooms_def parse_room_def get_int_def get_str_def Let_def)

theorem load_well_formed_witness:
  "\<exists>cfg w. load sample_env (\<lambda>_. Some (Inr sample_table)) None = Inr (cfg, w) \<and> wf_config cfg"
  using sample_loads load_well_formed by blast

text \<open>
  After a successful load every SSH username gets a room: the one of that name if it
  exists, the default room otherwise. \<open>resolve\<close> never returns None.
\<close>

theorem load_resolves_every_user:
  assumes "load ev docs p = Inr (cfg, w)"
  shows "\<exists>r. resolve cfg u = Some r
    \<and> rc_name r = (if dhas (cf_rooms cfg) u then u else cf_default_room cfg)"
  using load_wf [OF assms] by (rule wf_config_resolve)

theorem load_resolves_every_user_witness:
  "\<exists>cfg w r. load sample_env (\<lambda>_. Some (Inr sample_table)) None = Inr (cfg, w)
     \<and> resolve cfg ''nobody'' = Some r"
  using sample_loads load_resolves_every_user by blast

text \<open>What a document must satisfy for \<open>load\<close> not to raise.\<close>

definition path_ok :: "env \<Rightarrow> table \<Rightarrow> string \<Rightarrow> bool" where
  "path_ok ev t k \<longleftrightarrow>
     (\<forall>v. dget t k = Some v \<longrightarrow> is_ok (expanduser ev (mk_path (toml_str v))))"

definition room_ints_ok :: "toml \<Rightarrow> bool" where
  "room_ints_ok v \<longleftrightarrow> (case v of
     TTable t tx \<Rightarrow> (case dget t ''image'' of
        Some (TStr img) \<Rightarrow> is_ok (get_int t ''cpus'' 0) \<and> is_ok (get_int t ''pids_limit'' 512)
      | _ \<Rightarrow> True)
   | _ \<Rightarrow> True)"

definition subtable :: "table \<Rightarrow> string \<Rightarrow> table" where
  "subtable raw k = (case get_table raw k of None \<Rightarrow> [] | Some t \<Rightarrow> t)"

definition loadable :: "env \<Rightarrow> table \<Rightarrow> bool" where
  "loadable ev raw \<longleftrightarrow>
     path_ok ev raw ''authorized_keys'' \<and> path_ok ev raw ''host_key''
     \<and> path_ok ev (subtable raw ''firecracker'') ''kernel''
     \<and> path_ok ev (subtable raw ''firecracker'') ''rootfs_dir''
     \<and> path_ok ev (subtable raw ''firecracker'') ''runtime_dir''
     \<and> (\<forall>(nm, v) \<in> set (subtable raw ''rooms''). room_ints_ok v)"

lemma is_ok_bind: "is_ok (bind_res m f) \<longleftrightarrow> (\<exists>x. m = Inr x \<and> is_ok (f x))"
  by (cases m) auto

lemma is_ok_set_path: "is_ok (set_path ev t k f c) \<longleftrightarrow> path_ok ev t k"
  by (auto simp: set_path_def path_ok_def is_ok_bind is_ok_iff bind_res_Inr_iff split: option.splits)

lemma is_ok_bind_set_path:
  "(\<And>c'. is_ok (g c') = P) \<Longrightarrow> is_ok (bind_res (set_path ev t k f c) g) \<longleftrightarrow> path_ok ev t k \<and> P"
  unfolding is_ok_bind is_ok_set_path [symmetric, of ev t k f c] by (auto simp: is_ok_iff)

lemma is_ok_load_scalars:
  "is_ok (load_scalars ev raw) \<longleftrightarrow>
    path_ok ev raw ''authorized_keys'' \<and> path_ok ev raw ''host_key''"
  unfolding load_scalars_def Let_def
  by (subst is_ok_bind_set_path, subst is_ok_bind_set_path) auto

lemma is_ok_parse_firecracker:
  "is_ok (parse_firecracker ev raw) \<longleftrightarrow>
    path_ok ev (subtable raw ''firecracker'') ''kernel''
     \<and> path_ok ev (subtable raw ''firecracker'') ''rootfs_dir''
     \<and> path_ok ev (subtable raw ''firecracker'') ''runtime_dir''"
proof (cases "get_table raw ''firecracker''")
  case None
  then show ?thesis by (simp add: parse_firecracker_def subtable_def path_ok_def Let_def)
next
  case (Some t)
  then show ?thesis
    unfolding parse_firecracker_def Let_def subtable_def
    by simp (subst is_ok_bind_set_path, subst is_ok_bind_set_path, subst is_ok_bind_set_path,
        auto split: option.splits prod.splits)
qed

lemma is_ok_parse_room:
  "is_ok (parse_room nm img t) \<longleftrightarrow>
    is_ok (get_int t ''cpus'' 0) \<and> is_ok (get_int t ''pids_limit'' 512)"
  by (cases "get_int t ''cpus'' 0"; cases "get_int t ''pids_limit'' 512")
    (auto simp: parse_room_def case_prod_beta)

lemma is_ok_parse_rooms_loop:
  "is_ok (parse_rooms_loop t rs w) \<longleftrightarrow> (\<forall>(nm, v) \<in> set t. room_ints_ok v)"
proof (induction t rs w rule: parse_rooms_loop.induct)
  case (2 nm t tx rest rs w)
  have ok: "is_ok (bind_res (parse_room nm img t) (\<lambda>(r, w').
      parse_rooms_loop rest (dset nm r rs) (w @ w'))) \<longleftrightarrow>
    is_ok (get_int t ''cpus'' 0) \<and> is_ok (get_int t ''pids_limit'' 512)
      \<and> (\<forall>(nm, v) \<in> set rest. room_ints_ok v)"
    if "dget t ''image'' = Some (TStr img)" for img
    using is_ok_parse_room [of nm img t] "2.IH" that
    by (auto simp: is_ok_bind is_ok_iff [of "parse_room nm img t"] split: prod.splits)
  from 2 ok show ?case
    by (auto simp: room_ints_ok_def split: option.splits toml.splits)
qed (auto simp: room_ints_ok_def)

lemma is_ok_parse_rooms:
  "is_ok (parse_rooms raw) \<longleftrightarrow> (\<forall>(nm, v) \<in> set (subtable raw ''rooms''). room_ints_ok v)"
  by (auto simp: parse_rooms_def subtable_def is_ok_parse_rooms_loop split: option.splits)

text \<open>
  Property C29. Loading a document fails exactly when one of its paths names an unknown home
  directory or a room with an image has a \<open>cpus\<close> or \<open>pids_limit\<close> that is not an integer.
  Nothing else stops the server from starting: unknown backends, unknown confinement modes,
  rooms without an image and a default room that does not exist are all settled.
\<close>

theorem load_fails_exactly_when:
  assumes "docs p = Some (Inr raw)"
  shows "is_ok (load ev docs (Some p)) \<longleftrightarrow> loadable ev raw"
proof -
  have "is_ok (load_table ev raw) \<longleftrightarrow>
      is_ok (load_scalars ev raw) \<and> is_ok (parse_firecracker ev raw) \<and> is_ok (parse_rooms raw)"
    by (cases "load_scalars ev raw"; cases "parse_firecracker ev raw"; cases "parse_rooms raw")
      (auto simp: load_table_def Let_def split: prod.splits)
  then show ?thesis
    using assms is_ok_load_scalars is_ok_parse_firecracker is_ok_parse_rooms
    by (simp add: load_def loadable_def)
qed

theorem load_fails_exactly_when_witness:
  "is_ok (load sample_env (\<lambda>_. Some (Inr sample_table)) (Some (mk_path ''k.toml'')))"
proof -
  have "loadable sample_env sample_table"
    by (simp add: loadable_def path_ok_def sample_table_def subtable_def get_table_def
        room_ints_ok_def get_int_def)
  then show ?thesis
    using load_fails_exactly_when [of "\<lambda>_. Some (Inr sample_table)"] by blast
qed

lemma parse_rooms_loop_warnings:
  "parse_rooms_loop t rs w = Inr (rs', w') \<Longrightarrow> IgnoredPidsLimit nm \<notin> set w \<Longrightarrow>
    IgnoredPidsLimit nm \<notin> set w'"
proof (induction t rs w rule: parse_rooms_loop.induct)
  case (2 n t tx rest rs w)
  have "IgnoredPidsLimit nm \<notin> set wr" if "parse_room n img t = Inr (r, wr)" for img r wr
    using that by (auto simp: parse_room_def bind_res_Inr_iff valid_backend_def split: if_splits)
  with 2 show ?case
    by (fastforce simp: bind_res_Inr_iff split: option.splits toml.splits)
qed auto

lemma load_table_warnings:
  assumes "load_table ev raw = Inr (cfg, w)"
  shows "IgnoredPidsLimit nm \<in> set w \<longleftrightarrow> IgnoredPidsLimit nm \<in> set (warn_ignored_room_keys cfg raw)"
proof -
  from assms obtain c1 w1 fc w2 rs w3 where
    c1: "load_scalars ev raw = Inr (c1, w1)" and fc: "parse_firecracker ev raw = Inr (fc, w2)"
    and rs: "parse_rooms raw = Inr (rs, w3)" and w: "w = w1 @ w2 @ w3 @ warn_ignored_room_keys cfg raw"
    by (auto simp: load_table_def bind_res_Inr_iff Let_def)
  have "IgnoredPidsLimit nm \<notin> set w1"
    using c1 by (auto simp: set_backend_def valid_backend_def elim!: load_scalars_cases
        split: option.splits if_splits)
  moreover have "IgnoredPidsLimit nm \<notin> set w2"
    using fc by (auto simp: parse_firecracker_def Let_def bind_res_Inr_iff confinement_mode_def
        split: option.splits if_splits)
  moreover have "IgnoredPidsLimit nm \<notin> set w3"
    using rs by (auto simp: parse_rooms_def dest: parse_rooms_loop_warnings split: option.splits)
  ultimately show ?thesis by (simp add: w)
qed

lemma ignored_pids_iff:
  "IgnoredPidsLimit nm \<in> set (warn_ignored_room_keys cfg raw) \<longleftrightarrow>
    (\<exists>v r. (nm, v) \<in> set (subtable raw ''rooms'') \<and> sets_pids_limit v
       \<and> dget (cf_rooms cfg) nm = Some r \<and> effective_backend cfg r = ''firecracker'')"
proof (cases "get_table raw ''rooms''")
  case None
  then show ?thesis by (simp add: warn_ignored_room_keys_def subtable_def)
next
  case (Some t)
  define f where "f = (\<lambda>(n, v). if \<not> sets_pids_limit v then []
         else (case dget (cf_rooms cfg) n of None \<Rightarrow> []
               | Some r \<Rightarrow> if effective_backend cfg r = ''firecracker''
                          then [IgnoredPidsLimit n] else []))"
  have one: "IgnoredPidsLimit nm \<in> set (f (n, v)) \<longleftrightarrow> n = nm \<and> sets_pids_limit v \<and>
      (\<exists>r. dget (cf_rooms cfg) n = Some r \<and> effective_backend cfg r = ''firecracker'')" for n v
    by (cases "dget (cf_rooms cfg) n") (auto simp: f_def)
  have "warn_ignored_room_keys cfg raw = concat (List.map f t)"
    by (simp add: warn_ignored_room_keys_def Some f_def)
  then have "IgnoredPidsLimit nm \<in> set (warn_ignored_room_keys cfg raw) \<longleftrightarrow>
      (\<exists>(n, v) \<in> set t. IgnoredPidsLimit nm \<in> set (f (n, v)))"
    by auto
  then show ?thesis using Some one by (auto simp: subtable_def)
qed

text \<open>
  The warning that \<open>pids_limit\<close> is ignored is given for exactly the rooms that
  set the key themselves, exist after loading, and end up on firecracker by their own key or by
  the top-level one.
\<close>

theorem pids_limit_warning_exact:
  assumes "load ev docs (Some p) = Inr (cfg, w)" "docs p = Some (Inr raw)"
  shows "IgnoredPidsLimit nm \<in> set w \<longleftrightarrow>
    (\<exists>v r. (nm, v) \<in> set (subtable raw ''rooms'') \<and> sets_pids_limit v
       \<and> dget (cf_rooms cfg) nm = Some r \<and> effective_backend cfg r = ''firecracker'')"
proof -
  have "load_table ev raw = Inr (cfg, w)" using assms by (simp add: load_def)
  from load_table_warnings [OF this] show ?thesis by (simp only: ignored_pids_iff)
qed

theorem pids_limit_warning_exact_witness:
  "\<exists>cfg w. load sample_env (\<lambda>_. Some (Inr sample_table)) (Some (mk_path ''k.toml'')) = Inr (cfg, w)
     \<and> IgnoredPidsLimit ''alpine'' \<in> set w"
proof -
  let ?docs = "\<lambda>_. Some (Inr sample_table)"
  obtain cfg w where l: "load sample_env ?docs (Some (mk_path ''k.toml'')) = Inr (cfg, w)"
    and r: "dget (cf_rooms cfg) ''alpine'' \<noteq> None \<and>
      (\<forall>r. dget (cf_rooms cfg) ''alpine'' = Some r \<longrightarrow> rc_backend r = ''firecracker'')"
    by (simp add: load_def load_table_def load_scalars_def sample_table_def set_path_def set_str_def
      set_backend_def valid_backend_def KNOWN_BACKENDS_def DEFAULT_BACKEND_def parse_firecracker_def
      get_table_def parse_rooms_def parse_room_def get_int_def get_str_def Let_def)
  have "IgnoredPidsLimit ''alpine'' \<in> set w"
    unfolding pids_limit_warning_exact [where docs = ?docs, OF l refl]
    using r by (auto simp: sample_table_def subtable_def get_table_def sets_pids_limit_def dhas_def
        effective_backend_def)
  with l show ?thesis by blast
qed

text \<open>
  What a document sets survives the fallback to the built-in rooms: each scalar key
  has the document's value or its default, and the rooms are those of the document, or the
  built-in ones when it has none that is usable.
\<close>

theorem load_keeps_overrides:
  assumes "load ev docs (Some p) = Inr (cfg, w)" "docs p = Some (Inr raw)"
  shows "cf_listen cfg = get_str raw ''listen'' '':2222''
    \<and> cf_idle_timeout cfg = get_str raw ''idle_timeout'' ''15m''
    \<and> cf_shutdown_grace cfg = get_str raw ''shutdown_grace'' ''30s''
    \<and> cf_keep_window cfg = get_str raw ''keep_window'' ''0''
    \<and> (dhas (cf_rooms cfg) (get_str raw ''default_room'' DEFAULT_ROOM) \<longrightarrow>
         cf_default_room cfg = get_str raw ''default_room'' DEFAULT_ROOM)
    \<and> (\<exists>rs w'. parse_rooms raw = Inr (rs, w') \<and> cf_rooms cfg = (if rs = [] then builtin_rooms else rs))"
proof -
  have "load_table ev raw = Inr (cfg, w)" using assms by (simp add: load_def)
  then obtain c1 w1 fc rs w3 where c1: "load_scalars ev raw = Inr (c1, w1)"
    and rs: "parse_rooms raw = Inr (rs, w3)"
    and cfg: "cfg = settle_rooms (c1\<lparr>cf_firecracker := fc, cf_rooms := rs\<rparr>)"
    by (auto simp: load_table_def bind_res_Inr_iff Let_def)
  have dr: "cf_default_room cfg = cf_default_room c1" if "dhas (cf_rooms cfg) (cf_default_room c1)"
    using that by (auto simp: cfg settle_rooms_def Let_def split: if_splits)
  from c1 show ?thesis
    by (rule load_scalars_cases)
      (use rs dr in \<open>auto simp: cfg set_backend_def split: option.splits prod.splits\<close>)
qed

theorem load_keeps_overrides_witness:
  "\<exists>cfg w. load sample_env (\<lambda>_. Some (Inr sample_table)) (Some (mk_path ''k.toml'')) = Inr (cfg, w)
     \<and> cf_listen cfg = '':4444''"
proof -
  let ?docs = "\<lambda>_. Some (Inr sample_table)"
  have "is_ok (load sample_env ?docs (Some (mk_path ''k.toml'')))"
    using sample_loads by (auto simp: load_def)
  then obtain cfg w where l: "load sample_env ?docs (Some (mk_path ''k.toml'')) = Inr (cfg, w)"
    by (auto simp: is_ok_iff)
  have "cf_listen cfg = get_str sample_table ''listen'' '':2222''"
    using load_keeps_overrides [where docs = ?docs, OF l refl] by blast
  with l show ?thesis by (auto simp: get_str_def sample_table_def)
qed

end
