(* ===== verification/Session.thy ===== *)
theory Session
  imports Banner Config
begin

section \<open>Sessions and their registries (src/keycard/session.py)\<close>

text \<open>
  The program runs on one asyncio event loop: code between two \<open>await\<close>s is atomic, and at an
  \<open>await\<close> any other task or callback may run. So a coroutine is a program counter that
  names the \<open>await\<close> it stands at, each stretch of code between two \<open>await\<close>s is one function on
  the state, and the theory \<open>Session_Steps\<close> interleaves them. The state holds all sessions of
  the server, the two registries \<open>ActiveSessions\<close> and \<open>KeptRooms\<close>, the expiry tasks of kept
  rooms, and what the backend knows of every room and every kept handle. What a backend call
  returns is the argument \<open>result\<close> of the function that resumes the coroutine.
\<close>

subsection \<open>Rooms, kept handles and sessions\<close>

type_synonym rid = nat
type_synonym kid = nat
type_synonym sid = nat
type_synonym bytes = string

text \<open>\<open>RFailed\<close>: \<open>destroy\<close> raised. \<open>RAborted\<close>: a cancellation ended the call that was dealing with it.\<close>

datatype room_state = RFresh | RLive | RPaused kid | RDestroyed | RFailed | RAborted

datatype kept_state = KFresh | KPaused | KResumed | KDestroyed

datatype chan_state = NoChan | ChanOpen | ChanClosing

datatype out_msg = OWrite bytes | OExit int | OClose

text \<open>Where each coroutine stands. \<open>PWait ours\<close> is the \<open>await\<close> of the teardown task in \<open>_run\<close>.\<close>

datatype pump_pc =
    PNone | PReady | POpening | PResuming kid | PCleanup kid | PLate rid
  | PReading rid | PWait bool | PDone

datatype feeder_pc = FNone | FReady rid | FGet rid | FWrite rid bytes

datatype watchdog_pc = WNone | WReady | WSleep | WWait | WDone

datatype teardown_pc = TNone | TReady bool | TPausing rid | TDestroying rid | TDone | TCancelled

datatype close_pc = CNone | CWait | CDone

record session =
  has_active :: bool
  has_kept :: bool
  room_cfg :: room_config
  idle_seconds :: f64
  username :: string
  chan :: chan_state
  room :: "rid option"
  pump :: pump_pc
  pcancel :: bool
  feeder :: feeder_pc
  watchdog :: watchdog_pc
  wcancel :: bool
  teardown :: teardown_pc
  tcancel :: bool
  closer :: close_pc
  status :: "int option"
  input :: "bytes list"
  size :: "int \<times> int"
  last_activity :: rat
  hung_up :: bool
  out :: "out_msg list"
  resizes :: "(rid \<times> int \<times> int) list"
  accepted_input :: "bytes list"
  delivered :: "bytes list"

text \<open>
  The last four fields, and \<open>hung_up\<close> (the connection was lost), record what was said to the
  channel and to the room; no code reads them.
\<close>

definition INPUT_BACKLOG :: nat where
  "INPUT_BACKLOG = 512"

definition IDLE_EXIT_STATUS :: int where
  "IDLE_EXIT_STATUS = 124"

definition SHUTDOWN_EXIT_STATUS :: int where
  "SHUTDOWN_EXIT_STATUS = 143"

definition new_session :: "room_config \<Rightarrow> f64 \<Rightarrow> bool \<Rightarrow> string \<Rightarrow> bool \<Rightarrow> session" where
  "new_session rc idle act user kept = \<lparr>has_active = act, has_kept = kept, room_cfg = rc,
     idle_seconds = idle, username = user, chan = NoChan, room = None, pump = PNone,
     pcancel = False, feeder = FNone, watchdog = WNone, wcancel = False, teardown = TNone,
     tcancel = False, closer = CNone, status = None, input = [], size = (80, 24),
     last_activity = 0, hung_up = False, out = [], resizes = [], accepted_input = [],
     delivered = []\<rparr>"

subsection \<open>The state of the server\<close>

datatype expire_pc = ENone | ESleep string | EDestroying | EDone

record sys =
  sess :: "sid \<Rightarrow> session"
  active :: "sid set"
  empty_event :: bool
  by_username :: "(string, kid) dict"
  expiry :: "kid \<Rightarrow> expire_pc"
  sweeping :: "kid set"
  window :: f64
  rooms :: "rid \<Rightarrow> room_state"
  can_pause :: "rid \<Rightarrow> bool"
  destroys :: "rid \<Rightarrow> nat"
  kepts :: "kid \<Rightarrow> kept_state"
  lost_kept :: "kid set"
  clock :: rat

text \<open>
  \<open>destroys\<close> counts the calls of \<open>Room.destroy\<close>; \<open>lost_kept\<close> collects the kept rooms that are
  still paused while nothing in the program refers to them any more. Both only record.
\<close>

definition init_sys :: "f64 \<Rightarrow> (sid \<Rightarrow> session) \<Rightarrow> sys" where
  "init_sys w ss = \<lparr>sess = ss, active = {}, empty_event = True, by_username = [],
     expiry = (\<lambda>_. ENone), sweeping = {}, window = w, rooms = (\<lambda>_. RFresh),
     can_pause = (\<lambda>_. False), destroys = (\<lambda>_. 0), kepts = (\<lambda>_. KFresh), lost_kept = {},
     clock = 0\<rparr>"

definition put :: "sid \<Rightarrow> session \<Rightarrow> sys \<Rightarrow> sys" where
  "put i s y = y\<lparr>sess := (sess y)(i := s)\<rparr>"

definition set_room :: "rid \<Rightarrow> room_state \<Rightarrow> sys \<Rightarrow> sys" where
  "set_room r v y = y\<lparr>rooms := (rooms y)(r := v)\<rparr>"

definition set_kept :: "kid \<Rightarrow> kept_state \<Rightarrow> sys \<Rightarrow> sys" where
  "set_kept k v y = y\<lparr>kepts := (kepts y)(k := v)\<rparr>"

definition set_expiry :: "kid \<Rightarrow> expire_pc \<Rightarrow> sys \<Rightarrow> sys" where
  "set_expiry k v y = y\<lparr>expiry := (expiry y)(k := v)\<rparr>"

definition count_destroy :: "rid \<Rightarrow> sys \<Rightarrow> sys" where
  "count_destroy r y = y\<lparr>destroys := (destroys y)(r := Suc (destroys y r))\<rparr>"

definition lose_kept :: "kid \<Rightarrow> sys \<Rightarrow> sys" where
  "lose_kept k y = y\<lparr>lost_kept := insert k (lost_kept y)\<rparr>"

definition emit :: "out_msg list \<Rightarrow> session \<Rightarrow> session" where
  "emit ms s = s\<lparr>out := out s @ ms\<rparr>"

definition open_chan :: "session \<Rightarrow> bool" where
  "open_chan s \<longleftrightarrow> chan s = ChanOpen"

subsection \<open>ActiveSessions\<close>

definition active_add :: "sid \<Rightarrow> sys \<Rightarrow> sys" where
  "active_add i y = y\<lparr>active := insert i (active y), empty_event := False\<rparr>"

definition active_discard :: "sid \<Rightarrow> sys \<Rightarrow> sys" where
  "active_discard i y = (let a = active y - {i} in
     y\<lparr>active := a, empty_event := (if a = {} then True else empty_event y)\<rparr>)"

subsection \<open>KeptRooms\<close>

definition kept_enabled :: "sys \<Rightarrow> bool" where
  "kept_enabled y \<longleftrightarrow> f_positive (window y)"

definition kept_take :: "string \<Rightarrow> sys \<Rightarrow> kid option \<times> sys" where
  "kept_take u y = (dget (by_username y) u, y\<lparr>by_username := ddel u (by_username y)\<rparr>)"

text \<open>
  The part of \<open>keep\<close> after \<open>room.pause()\<close> has returned \<open>k\<close>: store it and start its expiry. A
  handle that was already stored for this user is displaced.
\<close>

definition displaced :: "string \<Rightarrow> sys \<Rightarrow> sys" where
  "displaced u y = (case dget (by_username y) u of None \<Rightarrow> y | Some old \<Rightarrow> lose_kept old y)"

definition kept_store :: "string \<Rightarrow> kid \<Rightarrow> sys \<Rightarrow> sys" where
  "kept_store u k y0 = (let y = displaced u y0 in
     set_expiry k (ESleep u) (y\<lparr>by_username := dset u k (by_username y)\<rparr>))"

text \<open>\<open>_expire\<close> after its sleep: only the handle that is still stored is destroyed.\<close>

definition expire_wake :: "kid \<Rightarrow> sys \<Rightarrow> sys option" where
  "expire_wake k y = (case expiry y k of
     ESleep u \<Rightarrow> (if dget (by_username y) u = Some k
       then Some (set_expiry k EDestroying (y\<lparr>by_username := ddel u (by_username y)\<rparr>))
       else Some (set_expiry k EDone y))
   | _ \<Rightarrow> None)"

text \<open>What \<open>destroy_kept\<close> leaves behind: nothing, or a paused room that it failed to destroy.\<close>

definition destroy_kept_result :: "kid \<Rightarrow> bool \<Rightarrow> sys \<Rightarrow> sys" where
  "destroy_kept_result k good y = (if good then set_kept k KDestroyed y else lose_kept k y)"

definition expire_end :: "kid \<Rightarrow> bool \<Rightarrow> sys \<Rightarrow> sys option" where
  "expire_end k good y = (if expiry y k = EDestroying
     then Some (set_expiry k EDone (destroy_kept_result k good y)) else None)"

text \<open>One round of the loop of \<open>destroy_all\<close>, up to its \<open>await\<close> and after it.\<close>

definition sweep_start :: "string \<Rightarrow> kid \<Rightarrow> sys \<Rightarrow> sys option" where
  "sweep_start u k y = (if dget (by_username y) u = Some k
     then Some (y\<lparr>by_username := ddel u (by_username y), sweeping := insert k (sweeping y)\<rparr>)
     else None)"

definition sweep_end :: "kid \<Rightarrow> bool \<Rightarrow> sys \<Rightarrow> sys option" where
  "sweep_end k good y = (if k \<in> sweeping y
     then Some (destroy_kept_result k good (y\<lparr>sweeping := sweeping y - {k}\<rparr>)) else None)"

subsection \<open>Teardown and cancellation\<close>

text \<open>\<open>_begin_teardown\<close>: start the one teardown task, or keep the one there is.\<close>

definition begin_teardown :: "bool \<Rightarrow> session \<Rightarrow> session" where
  "begin_teardown allow_keep s =
     (if teardown s = TNone then s\<lparr>teardown := TReady allow_keep\<rparr> else s)"

definition teardown_over :: "session \<Rightarrow> bool" where
  "teardown_over s \<longleftrightarrow> teardown s = TDone \<or> teardown s = TCancelled"

text \<open>
  \<open>Task.cancel()\<close>. A task that stands at an \<open>await\<close> of another task passes the cancellation on
  to that task; any other task gets \<open>CancelledError\<close> at its next step, before its first step
  too. The teardown task is such an awaited task: nothing shields it.
\<close>

definition cancel_teardown :: "session \<Rightarrow> session" where
  "cancel_teardown s = (case teardown s of
     TReady b \<Rightarrow> s\<lparr>tcancel := True\<rparr>
   | TPausing r \<Rightarrow> s\<lparr>tcancel := True\<rparr>
   | TDestroying r \<Rightarrow> s\<lparr>tcancel := True\<rparr>
   | _ \<Rightarrow> s)"

definition cancel_pump :: "session \<Rightarrow> session" where
  "cancel_pump s = (case pump s of
     PNone \<Rightarrow> s
   | PDone \<Rightarrow> s
   | PWait ours \<Rightarrow> (if teardown_over s then s\<lparr>pcancel := True\<rparr> else cancel_teardown s)
   | _ \<Rightarrow> s\<lparr>pcancel := True\<rparr>)"

definition cancel_watchdog :: "session \<Rightarrow> session" where
  "cancel_watchdog s = (case watchdog s of
     WNone \<Rightarrow> s
   | WDone \<Rightarrow> s
   | WWait \<Rightarrow> (if teardown_over s then s\<lparr>wcancel := True\<rparr> else cancel_teardown s)
   | _ \<Rightarrow> s\<lparr>wcancel := True\<rparr>)"

text \<open>A cancelled feeder does nothing more: a chunk it was writing may be lost, queued ones stay.\<close>

definition stop_feeder :: "session \<Rightarrow> session" where
  "stop_feeder s = s\<lparr>feeder := FNone\<rparr>"

definition release :: "sid \<Rightarrow> sys \<Rightarrow> sys" where
  "release i y = (if has_active (sess y i) then active_discard i y else y)"

subsection \<open>Callbacks of the SSH channel\<close>

definition connection_made :: "sid \<Rightarrow> sys \<Rightarrow> sys" where
  "connection_made i y = (let s = (sess y i)\<lparr>chan := ChanOpen\<rparr>; y1 = put i s y in
     if has_active s then active_add i y1 else y1)"

definition pty_requested :: "int \<Rightarrow> int \<Rightarrow> session \<Rightarrow> session" where
  "pty_requested w h s = s\<lparr>size := (if w = 0 then 80 else w, if h = 0 then 24 else h)\<rparr>"

definition session_started :: "session \<Rightarrow> session" where
  "session_started s = s\<lparr>pump := PReady, watchdog := WReady\<rparr>"

definition terminal_size_changed :: "int \<Rightarrow> int \<Rightarrow> session \<Rightarrow> session" where
  "terminal_size_changed w h s =
     (let s1 = s\<lparr>size := (if w = 0 then fst (size s) else w, if h = 0 then snd (size s) else h)\<rparr>
      in case room s of None \<Rightarrow> s1 | Some r \<Rightarrow> s1\<lparr>resizes := resizes s @ [(r, w, h)]\<rparr>)"

definition data_received :: "rat \<Rightarrow> bytes \<Rightarrow> session \<Rightarrow> session" where
  "data_received now data s = (let s1 = s\<lparr>last_activity := now\<rparr> in
     if length (input s) < INPUT_BACKLOG
     then s1\<lparr>input := input s @ [data], accepted_input := accepted_input s @ [data]\<rparr> else s1)"

definition connection_lost :: "session \<Rightarrow> session" where
  "connection_lost s =
     begin_teardown True (cancel_watchdog (stop_feeder (cancel_pump
       (s\<lparr>chan := ChanClosing, hung_up := True\<rparr>))))"

definition notify_shutdown :: "bytes \<Rightarrow> session \<Rightarrow> session" where
  "notify_shutdown message s = (if open_chan s then emit [OWrite message] s else s)"

subsection \<open>The pump: _run\<close>

text \<open>\<open>_run\<close> from its start to the \<open>await\<close> of \<open>resume\<close> or \<open>open\<close>.\<close>

definition pump_start :: "sid \<Rightarrow> sys \<Rightarrow> sys option" where
  "pump_start i y = (let s = sess y i in
     if pump s \<noteq> PReady then None
     else if pcancel s then Some (put i (s\<lparr>pump := PDone\<rparr>) y)
     else if has_kept s then
       (case kept_take (username s) y of
          (None, y1) \<Rightarrow> Some (put i (s\<lparr>pump := POpening\<rparr>) y1)
        | (Some k, y1) \<Rightarrow> Some (put i (s\<lparr>pump := PResuming k\<rparr>) y1))
     else Some (put i (s\<lparr>pump := POpening\<rparr>) y))"

text \<open>
  What \<open>open\<close> or \<open>resume\<close> gives: a new room and whether it can be paused, an exception, or, once
  the pump is cancelled, \<open>CancelledError\<close>. \<open>writes\<close> says whether the channel still takes writes.
\<close>

datatype open_result = Opened rid bool | OpenFailed | OpenCancelled "rid option"

definition pump_attached :: "sid \<Rightarrow> rid \<Rightarrow> bytes \<Rightarrow> bool \<Rightarrow> sys \<Rightarrow> sys" where
  "pump_attached i r greeting writes y = (let s = (sess y i)\<lparr>room := Some r\<rparr> in
     if teardown s \<noteq> TNone then
       count_destroy r (put i (s\<lparr>room := None, pump := PLate r\<rparr>) y)
     else if writes then
       put i (emit [OWrite greeting] (s\<lparr>feeder := FReady r, pump := PReading r\<rparr>)) y
     else put i (s\<lparr>pump := PDone\<rparr>) y)"

definition no_room :: "bool \<Rightarrow> session \<Rightarrow> session" where
  "no_room writes s = (let s1 = s\<lparr>pump := PDone\<rparr> in
     if writes then emit [OWrite (''keycard: no room available'' @ CRLF), OExit 1] s1 else s1)"

definition new_room :: "rid \<Rightarrow> bool \<Rightarrow> sys \<Rightarrow> sys" where
  "new_room r cp y = set_room r RLive (y\<lparr>can_pause := (can_pause y)(r := cp)\<rparr>)"

text \<open>
  A cancelled \<open>open\<close> may leave a room behind that nobody was told about (the Docker backend's
  container, made by a thread that cannot be cancelled).
\<close>

fun pump_opened :: "sid \<Rightarrow> open_result \<Rightarrow> bool \<Rightarrow> sys \<Rightarrow> sys option" where
  "pump_opened i (Opened r cp) writes y = (let s = sess y i in
     if pump s = POpening \<and> \<not> pcancel s \<and> rooms y r = RFresh then
       Some (pump_attached i r (accepted (rc_name (room_cfg s)) (rc_image (room_cfg s))) writes
               (new_room r cp y))
     else None)"
| "pump_opened i OpenFailed writes y = (let s = sess y i in
     if pump s = POpening \<and> \<not> pcancel s then Some (put i (no_room writes s) y) else None)"
| "pump_opened i (OpenCancelled None) writes y = (let s = sess y i in
     if pump s = POpening \<and> pcancel s then Some (put i (s\<lparr>pump := PDone\<rparr>) y) else None)"
| "pump_opened i (OpenCancelled (Some r)) writes y = (let s = sess y i in
     if pump s = POpening \<and> pcancel s \<and> rooms y r = RFresh
     then Some (set_room r RAborted (put i (s\<lparr>pump := PDone\<rparr>) y)) else None)"

fun pump_resumed :: "sid \<Rightarrow> open_result \<Rightarrow> bool \<Rightarrow> sys \<Rightarrow> sys option" where
  "pump_resumed i (Opened r cp) writes y = (let s = sess y i in
     (case pump s of
        PResuming k \<Rightarrow> (if \<not> pcancel s \<and> rooms y r = RFresh then
          Some (pump_attached i r (resumed (rc_name (room_cfg s)) (rc_image (room_cfg s))) writes
                  (set_kept k KResumed (new_room r cp y))) else None)
      | _ \<Rightarrow> None))"
| "pump_resumed i OpenFailed writes y = (let s = sess y i in
     (case pump s of
        PResuming k \<Rightarrow> (if \<not> pcancel s then Some (put i (s\<lparr>pump := PCleanup k\<rparr>) y) else None)
      | _ \<Rightarrow> None))"
| "pump_resumed i (OpenCancelled ro) writes y = (let s = sess y i in
     (case pump s of
        PResuming k \<Rightarrow> (if pcancel s then Some (lose_kept k (put i (s\<lparr>pump := PDone\<rparr>) y)) else None)
      | _ \<Rightarrow> None))"

text \<open>\<open>destroy_kept\<close> of a handle that could not be resumed; its own failure is only logged.\<close>

definition pump_cleaned :: "sid \<Rightarrow> bool \<Rightarrow> bool \<Rightarrow> sys \<Rightarrow> sys option" where
  "pump_cleaned i good writes y = (let s = sess y i in
     (case pump s of
        PCleanup k \<Rightarrow>
          (if pcancel s then Some (destroy_kept_result k good (put i (s\<lparr>pump := PDone\<rparr>) y))
           else Some (destroy_kept_result k good (put i (no_room writes s) y)))
      | _ \<Rightarrow> None))"

text \<open>
  How a call of \<open>Room.destroy\<close> or \<open>Room.pause\<close> comes back: with a value, with an exception, with
  \<open>CancelledError\<close>, or not yet, the room having absorbed the cancellation.
\<close>

datatype 'a room_result = Returned 'a | Raised | Cancelled | Absorbed

text \<open>\<open>_checkout\<close>: the status to report and what became of the room.\<close>

fun checkout_status :: "int room_result \<Rightarrow> int" where
  "checkout_status (Returned n) = n"
| "checkout_status other = 1"

fun checkout_room :: "int room_result \<Rightarrow> room_state" where
  "checkout_room (Returned n) = RDestroyed"
| "checkout_room Raised = RFailed"
| "checkout_room other = RAborted"

text \<open>The checkout of a room that opened after the session had ended.\<close>

definition pump_late :: "sid \<Rightarrow> int room_result \<Rightarrow> sys \<Rightarrow> sys option" where
  "pump_late i res y = (let s = sess y i in
     (case pump s of
        PLate r \<Rightarrow>
          (case res of
             Absorbed \<Rightarrow> (if pcancel s then Some (put i (s\<lparr>pcancel := False\<rparr>) y) else None)
           | Cancelled \<Rightarrow> (if pcancel s then Some (set_room r RAborted (put i (s\<lparr>pump := PDone\<rparr>) y)) else None)
           | _ \<Rightarrow> (if pcancel s then None
                  else Some (set_room r (checkout_room res) (put i (s\<lparr>pump := PDone\<rparr>) y))))
      | _ \<Rightarrow> None))"

text \<open>
  The read loop. \<open>Data d\<close>: a chunk that the channel took; \<open>Ended\<close>: an empty read, which is also
  how the backends answer a cancellation; \<open>StreamError\<close>: the read or the write to the channel
  raised, or \<open>CancelledError\<close> came through.
\<close>

datatype read_result = Data bytes | Ended | StreamError

definition pump_finally :: "session \<Rightarrow> session" where
  "pump_finally s0 = (let s = stop_feeder s0 in
     begin_teardown False (s\<lparr>pump := PWait (teardown s = TNone)\<rparr>))"

definition pump_read :: "sid \<Rightarrow> read_result \<Rightarrow> sys \<Rightarrow> sys option" where
  "pump_read i res y = (let s = sess y i in
     (case pump s of
        PReading r \<Rightarrow>
          (case res of
             Data d \<Rightarrow>
               (if pcancel s \<or> d = [] then None
                else Some (put i (emit [OWrite d] (s\<lparr>last_activity := clock y\<rparr>)) y))
           | _ \<Rightarrow> Some (put i (pump_finally (s\<lparr>pcancel := False\<rparr>)) y))
      | _ \<Rightarrow> None))"

text \<open>After the teardown task is over: the goodbye, if the shell's exit is what ended the session.\<close>

definition goodbye :: "bool \<Rightarrow> bool \<Rightarrow> session \<Rightarrow> session" where
  "goodbye ours writes s = (case status s of
     None \<Rightarrow> s
   | Some st \<Rightarrow> (if ours \<and> open_chan s \<and> writes
       then emit [OWrite (destroyed ''checked out''), OExit st] s else s))"

definition pump_finish :: "sid \<Rightarrow> bool \<Rightarrow> sys \<Rightarrow> sys option" where
  "pump_finish i writes y = (let s = sess y i in
     (case pump s of
        PWait ours \<Rightarrow>
          (if teardown s = TCancelled \<or> (teardown s = TDone \<and> pcancel s)
           then Some (put i (s\<lparr>pump := PDone\<rparr>) y)
           else if teardown s = TDone
           then Some (put i (goodbye ours writes (s\<lparr>pump := PDone\<rparr>)) y)
           else None)
      | _ \<Rightarrow> None))"

subsection \<open>The teardown task: _run_teardown\<close>

definition teardown_start :: "sid \<Rightarrow> sys \<Rightarrow> sys option" where
  "teardown_start i y = (let s = sess y i in
     (case teardown s of
        TReady allow_keep \<Rightarrow>
          (if tcancel s then Some (put i (s\<lparr>teardown := TCancelled\<rparr>) y)
           else (case room s of
             None \<Rightarrow> Some (release i (put i (s\<lparr>teardown := TDone\<rparr>) y))
           | Some r \<Rightarrow> (let s1 = s\<lparr>room := None\<rparr> in
               if allow_keep \<and> has_kept s \<and> kept_enabled y \<and> can_pause y r
               then Some (put i (s1\<lparr>teardown := TPausing r\<rparr>) y)
               else Some (count_destroy r (put i (s1\<lparr>teardown := TDestroying r\<rparr>) y)))))
      | _ \<Rightarrow> None))"

definition teardown_paused :: "sid \<Rightarrow> kid room_result \<Rightarrow> sys \<Rightarrow> sys option" where
  "teardown_paused i res y = (let s = sess y i in
     (case teardown s of
        TPausing r \<Rightarrow>
          (case res of
             Returned k \<Rightarrow>
               (if tcancel s \<or> kepts y k \<noteq> KFresh then None
                else Some (release i (put i (s\<lparr>teardown := TDone\<rparr>)
                  (kept_store (username s) k (set_kept k KPaused (set_room r (RPaused k) y))))))
           | Raised \<Rightarrow>
               (if tcancel s then None
                else Some (count_destroy r (put i (s\<lparr>teardown := TDestroying r\<rparr>) y)))
           | Cancelled \<Rightarrow>
               (if tcancel s
                then Some (release i (set_room r RAborted (put i (s\<lparr>teardown := TCancelled\<rparr>) y)))
                else None)
           | Absorbed \<Rightarrow>
               (if tcancel s then Some (put i (s\<lparr>tcancel := False\<rparr>) y) else None))
      | _ \<Rightarrow> None))"

definition teardown_destroyed :: "sid \<Rightarrow> int room_result \<Rightarrow> sys \<Rightarrow> sys option" where
  "teardown_destroyed i res y = (let s = sess y i in
     (case teardown s of
        TDestroying r \<Rightarrow>
          (case res of
             Absorbed \<Rightarrow> (if tcancel s then Some (put i (s\<lparr>tcancel := False\<rparr>) y) else None)
           | Cancelled \<Rightarrow>
               (if tcancel s
                then Some (release i (set_room r RAborted (put i (s\<lparr>teardown := TCancelled\<rparr>) y)))
                else None)
           | _ \<Rightarrow>
               (if tcancel s then None
                else Some (release i (set_room r (checkout_room res)
                  (put i (s\<lparr>teardown := TDone, status := Some (checkout_status res)\<rparr>) y)))))
      | _ \<Rightarrow> None))"

subsection \<open>The feeder\<close>

definition feeder_get :: "session \<Rightarrow> session option" where
  "feeder_get s = (case feeder s of
     FReady r \<Rightarrow> Some (s\<lparr>feeder := FGet r\<rparr>)
   | FGet r \<Rightarrow> (case input s of [] \<Rightarrow> None
       | d # ds \<Rightarrow> Some (s\<lparr>feeder := FWrite r d, input := ds\<rparr>))
   | _ \<Rightarrow> None)"

text \<open>\<open>room.write\<close> has returned; if it raised, the feeder is over.\<close>

definition feeder_wrote :: "bool \<Rightarrow> session \<Rightarrow> session option" where
  "feeder_wrote good s = (case feeder s of
     FWrite r d \<Rightarrow> (if good then Some (s\<lparr>feeder := FGet r, delivered := delivered s @ [d]\<rparr>)
                  else Some (s\<lparr>feeder := FNone\<rparr>))
   | _ \<Rightarrow> None)"

subsection \<open>The idle watchdog and force_close\<close>

text \<open>\<open>idle_seconds - (now - last_activity) <= 0\<close>\<close>

fun idle_over :: "f64 \<Rightarrow> rat \<Rightarrow> bool" where
  "idle_over (Fin x) elapsed = (x - elapsed \<le> 0)"
| "idle_over (Inf b) elapsed = b"
| "idle_over NaN elapsed = False"

text \<open>
  Both write a last banner if the channel is open and then begin the teardown. A write that
  raises ends the coroutine before it has begun one.
\<close>

definition watchdog_wake :: "sid \<Rightarrow> bool \<Rightarrow> sys \<Rightarrow> sys option" where
  "watchdog_wake i writes y = (let s = sess y i in
     if watchdog s \<noteq> WReady \<and> watchdog s \<noteq> WSleep then None
     else if wcancel s then Some (put i (s\<lparr>watchdog := WDone\<rparr>) y)
     else if watchdog s = WReady \<and> f_nonpositive (idle_seconds s) then Some (put i (s\<lparr>watchdog := WDone\<rparr>) y)
     else if \<not> idle_over (idle_seconds s) (clock y - last_activity s) then Some (put i (s\<lparr>watchdog := WSleep\<rparr>) y)
     else if open_chan s \<and> \<not> writes then Some (put i (s\<lparr>watchdog := WDone\<rparr>) y)
     else Some (put i (begin_teardown False ((if open_chan s
       then emit [OWrite (destroyed ''idle timeout'')] s else s)\<lparr>watchdog := WWait\<rparr>)) y))"

definition leave :: "int \<Rightarrow> session \<Rightarrow> session" where
  "leave st s = (if open_chan s then (emit [OExit st, OClose] s)\<lparr>chan := ChanClosing\<rparr> else s)"

definition watchdog_finish :: "sid \<Rightarrow> sys \<Rightarrow> sys option" where
  "watchdog_finish i y = (let s = sess y i in
     if watchdog s \<noteq> WWait \<or> \<not> teardown_over s then None
     else if teardown s = TCancelled \<or> wcancel s then Some (put i (s\<lparr>watchdog := WDone\<rparr>) y)
     else Some (put i (leave IDLE_EXIT_STATUS (s\<lparr>watchdog := WDone\<rparr>)) y))"

definition close_start :: "sid \<Rightarrow> bool \<Rightarrow> sys \<Rightarrow> sys option" where
  "close_start i writes y = (let s = sess y i in
     if closer s \<noteq> CNone then None
     else if open_chan s \<and> \<not> writes then Some (put i (s\<lparr>closer := CDone\<rparr>) y)
     else Some (put i (begin_teardown False ((if open_chan s
       then emit [OWrite (destroyed ''server shutting down'')] s else s)\<lparr>closer := CWait\<rparr>)) y))"

definition close_finish :: "sid \<Rightarrow> sys \<Rightarrow> sys option" where
  "close_finish i y = (let s = sess y i in
     if closer s \<noteq> CWait \<or> \<not> teardown_over s then None
     else if teardown s = TCancelled then Some (put i (s\<lparr>closer := CDone\<rparr>) y)
     else Some (put i (leave SHUTDOWN_EXIT_STATUS (s\<lparr>closer := CDone\<rparr>)) y))"

text \<open>The drain gives up after its timeout and cancels \<open>force_close\<close> where it waits.\<close>

definition close_cancel :: "sid \<Rightarrow> sys \<Rightarrow> sys option" where
  "close_cancel i y = (let s = sess y i in
     if closer s \<noteq> CWait then None
     else Some (put i (cancel_teardown (s\<lparr>closer := CDone\<rparr>)) y))"

end
