(* ===== verification/Machine.thy ===== *)
theory Machine
  imports Main
begin

section \<open>Transition systems and their invariants\<close>

text \<open>
  A system is a predicate of start states and a step relation. The locale \<open>invariant\<close> is the
  contract between an invariant and such a system; its lemmas carry the invariant to every
  reachable state and along every run. \<open>relative_invariant\<close> adds a second invariant that is only
  kept in states where the first one holds.
\<close>

inductive reachable :: "('s \<Rightarrow> bool) \<Rightarrow> ('s \<Rightarrow> 's \<Rightarrow> bool) \<Rightarrow> 's \<Rightarrow> bool"
  for init :: "'s \<Rightarrow> bool" and step :: "'s \<Rightarrow> 's \<Rightarrow> bool" where
  start: "init s \<Longrightarrow> reachable init step s"
| after: "reachable init step s \<Longrightarrow> step s t \<Longrightarrow> reachable init step t"

lemma reachable_run: "step\<^sup>*\<^sup>* s t \<Longrightarrow> reachable init step s \<Longrightarrow> reachable init step t"
  by (induction rule: rtranclp_induct) (auto intro: reachable.after)

locale invariant =
  fixes init :: "'s \<Rightarrow> bool"
    and step :: "'s \<Rightarrow> 's \<Rightarrow> bool"
    and inv :: "'s \<Rightarrow> bool"
  assumes starts: "init s \<Longrightarrow> inv s"
    and keeps: "step s t \<Longrightarrow> inv s \<Longrightarrow> inv t"
begin

lemma everywhere: "reachable init step s \<Longrightarrow> inv s"
  by (induction rule: reachable.induct) (auto intro: starts keeps)

lemma along: "step\<^sup>*\<^sup>* s t \<Longrightarrow> inv s \<Longrightarrow> inv t"
  by (induction rule: rtranclp_induct) (auto intro: keeps)

end

locale relative_invariant = base: invariant init step base
  for init :: "'s \<Rightarrow> bool" and step :: "'s \<Rightarrow> 's \<Rightarrow> bool" and base :: "'s \<Rightarrow> bool" +
  fixes inv :: "'s \<Rightarrow> bool"
  assumes rel_starts: "init s \<Longrightarrow> inv s"
    and rel_keeps: "step s t \<Longrightarrow> base s \<Longrightarrow> inv s \<Longrightarrow> inv t"

sublocale relative_invariant \<subseteq> both: invariant init step "\<lambda>s. base s \<and> inv s"
  by unfold_locales (auto intro: base.starts base.keeps rel_starts rel_keeps)

context relative_invariant
begin

lemma holds: "reachable init step s \<Longrightarrow> inv s"
  using both.everywhere by blast

end

end
