(* ===== verification/Session_Steps.thy ===== *)
theory Session_Steps
  imports Session Machine
begin

section \<open>The server as a transition system\<close>

text \<open>
  The scheduler: which callback or which suspended coroutine runs next, and what the backend
  answers, is not determined. \<open>local_step\<close> holds the steps that touch one session only,
  \<open>server_step\<close> all of them.
\<close>

definition connected :: "session \<Rightarrow> bool" where
  "connected s \<longleftrightarrow> chan s \<noteq> NoChan \<and> \<not> hung_up s"

inductive local_step :: "rat \<Rightarrow> session \<Rightarrow> session \<Rightarrow> bool" for now :: rat where
  pty: "connected s \<Longrightarrow> pump s = PNone \<Longrightarrow> local_step now s (pty_requested w h s)"
| started: "connected s \<Longrightarrow> pump s = PNone \<Longrightarrow> watchdog s = WNone \<Longrightarrow>
    local_step now s (session_started s)"
| resized: "connected s \<Longrightarrow> local_step now s (terminal_size_changed w h s)"
| data: "connected s \<Longrightarrow> local_step now s (data_received now d s)"
| lost: "connected s \<Longrightarrow> local_step now s (connection_lost s)"
| closing: "chan s = ChanOpen \<Longrightarrow> local_step now s (s\<lparr>chan := ChanClosing\<rparr>)"
| notified: "local_step now s (notify_shutdown m s)"
| got: "feeder_get s = Some t \<Longrightarrow> local_step now s t"
| wrote: "feeder_wrote good s = Some t \<Longrightarrow> local_step now s t"

inductive server_step :: "sys \<Rightarrow> sys \<Rightarrow> bool" where
  made: "chan (sess y i) = NoChan \<Longrightarrow> server_step y (connection_made i y)"
| alone: "local_step (clock y) (sess y i) s \<Longrightarrow> server_step y (put i s y)"
| tick: "0 \<le> d \<Longrightarrow> server_step y (y\<lparr>clock := clock y + d\<rparr>)"
| pump_start: "pump_start i y = Some z \<Longrightarrow> server_step y z"
| pump_opened: "pump_opened i res w y = Some z \<Longrightarrow> server_step y z"
| pump_resumed: "pump_resumed i res w y = Some z \<Longrightarrow> server_step y z"
| pump_cleaned: "pump_cleaned i good w y = Some z \<Longrightarrow> server_step y z"
| pump_late: "pump_late i res1 y = Some z \<Longrightarrow> server_step y z"
| pump_read: "pump_read i res2 y = Some z \<Longrightarrow> server_step y z"
| pump_finish: "pump_finish i w y = Some z \<Longrightarrow> server_step y z"
| teardown_start: "teardown_start i y = Some z \<Longrightarrow> server_step y z"
| teardown_paused: "teardown_paused i res3 y = Some z \<Longrightarrow> server_step y z"
| teardown_destroyed: "teardown_destroyed i res1 y = Some z \<Longrightarrow> server_step y z"
| watchdog_wake: "watchdog_wake i w y = Some z \<Longrightarrow> server_step y z"
| watchdog_finish: "watchdog_finish i y = Some z \<Longrightarrow> server_step y z"
| close_start: "chan (sess y i) \<noteq> NoChan \<Longrightarrow> close_start i w y = Some z \<Longrightarrow> server_step y z"
| close_finish: "close_finish i y = Some z \<Longrightarrow> server_step y z"
| close_cancel: "close_cancel i y = Some z \<Longrightarrow> server_step y z"
| expire_wake: "expire_wake k y = Some z \<Longrightarrow> server_step y z"
| expire_end: "expire_end k good y = Some z \<Longrightarrow> server_step y z"
| sweep_start: "sweep_start u k y = Some z \<Longrightarrow> server_step y z"
| sweep_end: "sweep_end k good y = Some z \<Longrightarrow> server_step y z"

definition new_server :: "sys \<Rightarrow> bool" where
  "new_server y \<longleftrightarrow> (\<exists>w ss. y = init_sys w ss
     \<and> (\<forall>i. \<exists>rc idle act user kept. ss i = new_session rc idle act user kept))"

abbreviation server_reachable :: "sys \<Rightarrow> bool" where
  "server_reachable \<equiv> reachable new_server server_step"

text \<open>The single-session functions, and what they leave alone.\<close>

lemmas callback_defs = pty_requested_def session_started_def terminal_size_changed_def
  data_received_def connection_lost_def notify_shutdown_def begin_teardown_def cancel_watchdog_def
  stop_feeder_def cancel_pump_def cancel_teardown_def teardown_over_def emit_def open_chan_def
  pump_finally_def goodbye_def no_room_def leave_def feeder_get_def feeder_wrote_def

lemmas sys_defs = put_def set_room_def set_kept_def set_expiry_def count_destroy_def lose_kept_def
  new_room_def release_def active_add_def active_discard_def kept_take_def kept_store_def
  displaced_def destroy_kept_result_def pump_attached_def

end
