(* ===== verification/Custody.thy ===== *)
theory Custody
  imports Session_Steps
begin

section \<open>Custody of rooms: what the sessions promise about rooms\<close>

text \<open>
  The abstract specification of the session layer. Each session has custody of at most one room,
  and either only keeps it or has already called \<open>destroy\<close> on it. A room is taken when it is
  fresh, \<open>destroy\<close> is called by its holder and once, and it is given up only by settling what
  became of it. A cancelled \<open>open\<close> may leave a room that never had a holder.
\<close>

record custody =
  own :: "sid \<Rightarrow> (rid \<times> bool) option"
  fate :: "rid \<Rightarrow> room_state"
  calls :: "rid \<Rightarrow> nat"

inductive custody_step :: "custody \<Rightarrow> custody \<Rightarrow> bool" where
  acquire: "own c i = None \<Longrightarrow> fate c r = RFresh \<Longrightarrow>
    custody_step c (c\<lparr>own := (own c)(i := Some (r, False)), fate := (fate c)(r := RLive)\<rparr>)"
| call: "own c i = Some (r, False) \<Longrightarrow>
    custody_step c (c\<lparr>own := (own c)(i := Some (r, True)), calls := (calls c)(r := Suc (calls c r))\<rparr>)"
| settle: "own c i = Some (r, b) \<Longrightarrow> v \<noteq> RFresh \<Longrightarrow> v \<noteq> RLive \<Longrightarrow> (b \<longrightarrow> (\<forall>k. v \<noteq> RPaused k)) \<Longrightarrow>
    custody_step c (c\<lparr>own := (own c)(i := None), fate := (fate c)(r := v)\<rparr>)"
| orphan: "fate c r = RFresh \<Longrightarrow> custody_step c (c\<lparr>fate := (fate c)(r := RAborted)\<rparr>)"

definition custody_init :: "custody \<Rightarrow> bool" where
  "custody_init c \<longleftrightarrow> own c = (\<lambda>_. None) \<and> fate c = (\<lambda>_. RFresh) \<and> calls c = (\<lambda>_. 0)"

text \<open>
  Its invariant: the live rooms are the ones in custody, each in that of one session; the calls
  of \<open>destroy\<close> on a room are as many as its holder says, one at most, and none on a fresh or a
  paused room.
\<close>

definition custody_inv :: "custody \<Rightarrow> bool" where
  "custody_inv c \<longleftrightarrow>
     (\<forall>r. fate c r = RLive \<longleftrightarrow> (\<exists>i b. own c i = Some (r, b)))
   \<and> (\<forall>i j r b d. own c i = Some (r, b) \<longrightarrow> own c j = Some (r, d) \<longrightarrow> i = j)
   \<and> (\<forall>i r b. own c i = Some (r, b) \<longrightarrow> calls c r = (if b then 1 else 0))
   \<and> (\<forall>r. fate c r = RFresh \<or> (\<exists>k. fate c r = RPaused k) \<longrightarrow> calls c r = 0)
   \<and> (\<forall>r. calls c r \<le> 1)"

lemma custody_invI:
  assumes "\<And>i r b. own c i = Some (r, b) \<Longrightarrow> fate c r = RLive"
    and "\<And>r. fate c r = RLive \<Longrightarrow> \<exists>i b. own c i = Some (r, b)"
    and "\<And>i j r b d. own c i = Some (r, b) \<Longrightarrow> own c j = Some (r, d) \<Longrightarrow> i = j"
    and "\<And>i r b. own c i = Some (r, b) \<Longrightarrow> calls c r = (if b then 1 else 0)"
    and "\<And>r. fate c r = RFresh \<Longrightarrow> calls c r = 0"
    and "\<And>r k. fate c r = RPaused k \<Longrightarrow> calls c r = 0"
    and "\<And>r. calls c r \<le> 1"
  shows "custody_inv c"
  using assms unfolding custody_inv_def by blast

lemma custody_invD:
  assumes "custody_inv c"
  shows "own c i = Some (r, b) \<Longrightarrow> fate c r = RLive"
    and "fate c r = RLive \<Longrightarrow> \<exists>i b. own c i = Some (r, b)"
    and "own c i = Some (r, b) \<Longrightarrow> own c j = Some (r, d) \<Longrightarrow> i = j"
    and "own c i = Some (r, b) \<Longrightarrow> calls c r = (if b then 1 else 0)"
    and "fate c r = RFresh \<Longrightarrow> calls c r = 0"
    and "fate c r = RPaused k \<Longrightarrow> calls c r = 0"
    and "calls c r \<le> 1"
  using assms unfolding custody_inv_def by blast+

lemma custody_acquire:
  assumes inv: "custody_inv c" and own: "own c i = None" and fresh: "fate c r = RFresh"
  shows "custody_inv (c\<lparr>own := (own c)(i := Some (r, False)), fate := (fate c)(r := RLive)\<rparr>)"
    (is "custody_inv ?d")
proof -
  note D = custody_invD [OF inv]
  have new: "own c j \<noteq> Some (r, b)" for j b using D(1) [of j r b] fresh by auto
  show ?thesis
  proof (rule custody_invI)
    fix q assume "fate ?d q = RLive"
    then show "\<exists>j b. own ?d j = Some (q, b)"
      using D(2) [of q] own by (cases "q = r") (auto, metis option.distinct(1))
  next
    fix j q b assume "own ?d j = Some (q, b)"
    then show "calls ?d q = (if b then 1 else 0)"
      using D(4) [of j q b] D(5) [OF fresh] by (auto split: if_splits)
  qed (use D new in \<open>auto split: if_splits\<close>)
qed

lemma custody_call:
  assumes inv: "custody_inv c" and own: "own c i = Some (r, False)"
  shows "custody_inv (c\<lparr>own := (own c)(i := Some (r, True)), calls := (calls c)(r := Suc (calls c r))\<rparr>)"
    (is "custody_inv ?d")
proof -
  note D = custody_invD [OF inv]
  have live: "fate c r = RLive" and zero: "calls c r = 0" using D(1) [OF own] D(4) [OF own] by auto
  have other: "own c j \<noteq> Some (r, b)" if "j \<noteq> i" for j b using D(3) [OF own] that by blast
  show ?thesis
  proof (rule custody_invI)
    fix q assume "fate ?d q = RLive"
    then obtain j b where "own c j = Some (q, b)" using D(2) [of q] by auto
    then show "\<exists>j b. own ?d j = Some (q, b)"
      using own by (cases "j = i") (auto intro: exI [of _ i] exI [of _ j])
  next
    fix j q b assume "own ?d j = Some (q, b)"
    then show "calls ?d q = (if b then 1 else 0)"
      using D(4) [of j q b] zero other [of j b] by (auto split: if_splits)
  next
    fix j j' q b d assume "own ?d j = Some (q, b)" "own ?d j' = Some (q, d)"
    then show "j = j'" using D(3) [of j q b j' d] other by (auto split: if_splits)
  next
    fix q show "calls ?d q \<le> 1" using D(7) [of q] zero by simp
  qed (use D live in \<open>auto split: if_splits\<close>)
qed

lemma custody_settle:
  assumes inv: "custody_inv c" and own: "own c i = Some (r, b)"
    and v: "v \<noteq> RFresh" "v \<noteq> RLive" "b \<longrightarrow> (\<forall>k. v \<noteq> RPaused k)"
  shows "custody_inv (c\<lparr>own := (own c)(i := None), fate := (fate c)(r := v)\<rparr>)"
    (is "custody_inv ?d")
proof -
  note D = custody_invD [OF inv]
  have other: "own c j \<noteq> Some (r, d)" if "j \<noteq> i" for j d using D(3) [OF own] that by blast
  show ?thesis
  proof (rule custody_invI)
    fix q assume q: "fate ?d q = RLive"
    then obtain j d where "own c j = Some (q, d)" using D(2) [of q] v by (auto split: if_splits)
    moreover from this q have "j \<noteq> i" using own v by (auto split: if_splits)
    ultimately show "\<exists>j b. own ?d j = Some (q, b)" by auto
  next
    fix q k assume "fate ?d q = RPaused k"
    then show "calls ?d q = 0" using D(4) [OF own] D(6) [of q k] v by (auto split: if_splits)
  next
    fix j q d assume "own ?d j = Some (q, d)"
    then show "fate ?d q = RLive" using D(1) [of j q d] other [of j d] by (auto split: if_splits)
  qed (use D v in \<open>auto split: if_splits\<close>)
qed

lemma custody_orphan:
  assumes inv: "custody_inv c" and fresh: "fate c r = RFresh"
  shows "custody_inv (c\<lparr>fate := (fate c)(r := RAborted)\<rparr>)"
proof -
  note D = custody_invD [OF inv]
  have new: "own c j \<noteq> Some (r, b)" for j b using D(1) [of j r b] fresh by auto
  show ?thesis
    by (rule custody_invI) (use D new in \<open>auto split: if_splits\<close>)
qed

interpretation custody: invariant custody_init custody_step custody_inv
proof
  show "custody_inv c" if "custody_init c" for c
    using that by (simp add: custody_inv_def custody_init_def)
  show "custody_inv d" if "custody_step c d" "custody_inv c" for c d
    using that
    by (cases rule: custody_step.cases)
      (auto intro: custody_acquire custody_call custody_settle custody_orphan)
qed

end
