(* ===== verification/Session_Refine.thy ===== *)
theory Session_Refine
  imports Custody
begin

section \<open>The sessions implement the custody specification\<close>

text \<open>
  \<open>abs_sys\<close> forgets everything but who holds which room, what became of every room and how often
  it was destroyed. Each step of the server is a step of the specification, two of them for a
  room that opened too late, or none. So the invariant of the specification holds of the server.
\<close>

subsection \<open>The abstraction\<close>

fun teardown_holds :: "teardown_pc \<Rightarrow> (rid \<times> bool) option" where
  "teardown_holds (TPausing r) = Some (r, False)"
| "teardown_holds (TDestroying r) = Some (r, True)"
| "teardown_holds other = None"

fun pump_holds :: "pump_pc \<Rightarrow> (rid \<times> bool) option" where
  "pump_holds (PLate r) = Some (r, True)"
| "pump_holds other = None"

definition held :: "session \<Rightarrow> (rid \<times> bool) option" where
  "held s = (case room s of Some r \<Rightarrow> Some (r, False)
    | None \<Rightarrow> (case teardown_holds (teardown s) of Some h \<Rightarrow> Some h | None \<Rightarrow> pump_holds (pump s)))"

definition abs_sys :: "sys \<Rightarrow> custody" where
  "abs_sys y = \<lparr>own = (\<lambda>i. held (sess y i)), fate = rooms y, calls = destroys y\<rparr>"

fun working :: "teardown_pc \<Rightarrow> bool" where
  "working (TPausing r) = True"
| "working (TDestroying r) = True"
| "working other = False"

fun early :: "pump_pc \<Rightarrow> bool" where
  "early (PReading r) = False"
| "early (PWait b) = False"
| "early PDone = False"
| "early other = True"

definition session_ok :: "session \<Rightarrow> bool" where
  "session_ok s \<longleftrightarrow> (room s \<noteq> None \<longrightarrow> \<not> working (teardown s) \<and> teardown s \<noteq> TDone)
     \<and> (early (pump s) \<longrightarrow> room s = None \<and> \<not> working (teardown s))"

definition sessions_ok :: "sys \<Rightarrow> bool" where
  "sessions_ok y \<longleftrightarrow> (\<forall>i. session_ok (sess y i))"

lemma sys_frame [simp]:
  "sess (set_room r v y) = sess y" "sess (set_kept k u y) = sess y"
  "sess (set_expiry k e y) = sess y" "sess (count_destroy r y) = sess y"
  "sess (lose_kept k y) = sess y" "sess (new_room r cp y) = sess y"
  "sess (release i y) = sess y" "sess (kept_store u' k y) = sess y"
  "sess (destroy_kept_result k good y) = sess y"
  "rooms (set_kept k u y) = rooms y" "rooms (set_expiry k e y) = rooms y"
  "rooms (count_destroy r y) = rooms y" "rooms (lose_kept k y) = rooms y"
  "rooms (release i y) = rooms y" "rooms (kept_store u' k y) = rooms y"
  "rooms (destroy_kept_result k good y) = rooms y" "rooms (put i s y) = rooms y"
  "rooms (set_room r v y) = (rooms y)(r := v)" "rooms (new_room r cp y) = (rooms y)(r := RLive)"
  "destroys (set_kept k u y) = destroys y" "destroys (set_expiry k e y) = destroys y"
  "destroys (set_room r v y) = destroys y" "destroys (lose_kept k y) = destroys y"
  "destroys (new_room r cp y) = destroys y" "destroys (put i s y) = destroys y"
  "destroys (release i y) = destroys y" "destroys (kept_store u' k y) = destroys y"
  "destroys (destroy_kept_result k good y) = destroys y"
  "destroys (count_destroy r y) = (destroys y)(r := Suc (destroys y r))"
  "sess (put i s y) = (sess y)(i := s)"
  by (auto simp: sys_defs Let_def split: option.splits)

lemma kept_take_frame:
  "kept_take u y = (ko, z) \<Longrightarrow> sess z = sess y \<and> rooms z = rooms y \<and> destroys z = destroys y
    \<and> active z = active y \<and> empty_event z = empty_event y"
  by (auto simp: kept_take_def)

lemma active_frame [simp]:
  "sess (active_add i y) = sess y" "rooms (active_add i y) = rooms y"
  "destroys (active_add i y) = destroys y"
  by (simp_all add: active_add_def)

subsection \<open>Steps of one session\<close>

lemma cancel_teardown_frame [simp]:
  "room (cancel_teardown s) = room s" "pump (cancel_teardown s) = pump s"
  "teardown (cancel_teardown s) = teardown s"
  by (cases "teardown s"; simp add: cancel_teardown_def)+

lemma cancel_pump_frame [simp]:
  "room (cancel_pump s) = room s" "pump (cancel_pump s) = pump s"
  "teardown (cancel_pump s) = teardown s"
  by (cases "pump s"; simp add: cancel_pump_def)+

lemma cancel_watchdog_frame [simp]:
  "room (cancel_watchdog s) = room s" "pump (cancel_watchdog s) = pump s"
  "teardown (cancel_watchdog s) = teardown s"
  by (cases "watchdog s"; simp add: cancel_watchdog_def)+

lemma callback_frame [simp]:
  "room (stop_feeder s) = room s" "pump (stop_feeder s) = pump s"
  "teardown (stop_feeder s) = teardown s"
  "room (emit ms s) = room s" "pump (emit ms s) = pump s" "teardown (emit ms s) = teardown s"
  by (simp_all add: stop_feeder_def emit_def)

lemma begin_teardown_frame [simp]:
  "room (begin_teardown b s) = room s" "pump (begin_teardown b s) = pump s"
  "teardown (begin_teardown b s) = (if teardown s = TNone then TReady b else teardown s)"
  by (simp_all add: begin_teardown_def)

lemma not_early_holds: "\<not> early p \<Longrightarrow> pump_holds p = None"
  by (cases p) auto

lemma held_cong:
  "room t = room s \<Longrightarrow> teardown t = teardown s \<or> (teardown s = TNone \<and> (\<exists>b. teardown t = TReady b)) \<Longrightarrow>
    pump t = pump s \<or> (\<not> early (pump s) \<and> \<not> early (pump t)) \<or> (pump s = PNone \<and> pump t = PReady) \<Longrightarrow>
    held t = held s"
  using not_early_holds [of "pump s"] not_early_holds [of "pump t"]
  by (auto simp: held_def split: option.split)

lemma ok_cong:
  "session_ok s \<Longrightarrow> room t = room s \<Longrightarrow>
    teardown t = teardown s \<or> (teardown s = TNone \<and> (\<exists>b. teardown t = TReady b)) \<Longrightarrow>
    pump t = pump s \<or> (\<not> early (pump s) \<and> \<not> early (pump t)) \<or> (pump s = PNone \<and> pump t = PReady) \<Longrightarrow>
    session_ok t"
  by (auto simp: session_ok_def)

definition still :: "session \<Rightarrow> session \<Rightarrow> bool" where
  "still s t \<longleftrightarrow> room t = room s
     \<and> (teardown t = teardown s \<or> (teardown s = TNone \<and> (\<exists>b. teardown t = TReady b)))
     \<and> (pump t = pump s \<or> (\<not> early (pump s) \<and> \<not> early (pump t)) \<or> (pump s = PNone \<and> pump t = PReady))"

lemma still_held: "still s t \<Longrightarrow> held t = held s"
  unfolding still_def by (elim conjE) (rule held_cong)

lemma still_ok: "still s t \<Longrightarrow> session_ok s \<Longrightarrow> session_ok t"
  unfolding still_def by (elim conjE) (rule ok_cong)

lemma local_step_still: "local_step now s t \<Longrightarrow> still s t"
  by (induction rule: local_step.induct)
    (auto simp: still_def pty_requested_def session_started_def terminal_size_changed_def Let_def
      data_received_def connection_lost_def notify_shutdown_def feeder_get_def feeder_wrote_def
      split: option.splits feeder_pc.splits list.splits if_splits)

subsection \<open>What each update does to the abstraction\<close>

lemma abs_put [simp]:
  "abs_sys (put i s y) = (abs_sys y)\<lparr>own := (own (abs_sys y))(i := held s)\<rparr>"
  by (simp add: abs_sys_def fun_eq_iff)

lemma abs_update [simp]:
  "abs_sys (set_room r v y) = (abs_sys y)\<lparr>fate := (fate (abs_sys y))(r := v)\<rparr>"
  "abs_sys (new_room r cp y) = (abs_sys y)\<lparr>fate := (fate (abs_sys y))(r := RLive)\<rparr>"
  "abs_sys (count_destroy r y) =
     (abs_sys y)\<lparr>calls := (calls (abs_sys y))(r := Suc (calls (abs_sys y) r))\<rparr>"
  "abs_sys (set_kept k u y) = abs_sys y" "abs_sys (set_expiry k e y) = abs_sys y"
  "abs_sys (lose_kept k y) = abs_sys y" "abs_sys (release i y) = abs_sys y"
  "abs_sys (kept_store u' k y) = abs_sys y"
  "abs_sys (destroy_kept_result k good y) = abs_sys y"
  by (simp_all add: abs_sys_def)

lemma abs_own [simp]: "own (abs_sys y) i = held (sess y i)" "fate (abs_sys y) = rooms y"
  by (simp_all add: abs_sys_def)

lemma abs_put_same: "held s = held (sess y i) \<Longrightarrow> abs_sys (put i s y) = abs_sys y"
  by (simp add: abs_sys_def fun_eq_iff)

lemma abs_put_still: "still (sess y i) s \<Longrightarrow> abs_sys (put i s y) = abs_sys y"
  by (intro abs_put_same still_held)

lemma ok_put: "sessions_ok y \<Longrightarrow> session_ok s \<Longrightarrow> sessions_ok (put i s y)"
  by (simp add: sessions_ok_def)

lemma ok_get: "sessions_ok y \<Longrightarrow> session_ok (sess y i)"
  by (simp add: sessions_ok_def)

lemma ok_frame [simp]:
  "sessions_ok (set_room r v y) = sessions_ok y" "sessions_ok (set_kept k u y) = sessions_ok y"
  "sessions_ok (set_expiry k e y) = sessions_ok y" "sessions_ok (count_destroy r y) = sessions_ok y"
  "sessions_ok (lose_kept k y) = sessions_ok y" "sessions_ok (new_room r cp y) = sessions_ok y"
  "sessions_ok (release i y) = sessions_ok y" "sessions_ok (kept_store u' k y) = sessions_ok y"
  "sessions_ok (destroy_kept_result k good y) = sessions_ok y"
  by (simp_all add: sessions_ok_def)

lemma held_early: "session_ok s \<Longrightarrow> early (pump s) \<Longrightarrow> held s = pump_holds (pump s)"
  by (cases "teardown s") (auto simp: session_ok_def held_def)

lemma held_working:
  "session_ok s \<Longrightarrow> working (teardown s) \<Longrightarrow> room s = None \<and> \<not> early (pump s) \<and> pump_holds (pump s) = None"
  using not_early_holds [of "pump s"] by (auto simp: session_ok_def)

text \<open>
  \<open>refines y z\<close>: what one step of the server has to do. It is closed under quiet changes, and the
  three kinds of custody steps give it for the rest.
\<close>

definition refines :: "sys \<Rightarrow> sys \<Rightarrow> bool" where
  "refines y z \<longleftrightarrow> custody_step\<^sup>*\<^sup>* (abs_sys y) (abs_sys z) \<and> sessions_ok z"

lemma refines_quiet: "sessions_ok z \<Longrightarrow> abs_sys z = abs_sys y \<Longrightarrow> refines y z"
  by (simp add: refines_def)

lemma refines_one: "sessions_ok z \<Longrightarrow> custody_step (abs_sys y) (abs_sys z) \<Longrightarrow> refines y z"
  by (simp add: refines_def)

lemma refines_kept [simp]:
  "refines y (lose_kept k z) = refines y z" "refines y (destroy_kept_result k good z) = refines y z"
  "refines y (set_expiry k e z) = refines y z" "refines y (set_kept k u z) = refines y z"
  "refines y (release i z) = refines y z" "refines y (kept_store u' k z) = refines y z"
  by (simp_all add: refines_def)

lemma refines_still: "sessions_ok y \<Longrightarrow> still (sess y i) s \<Longrightarrow> refines y (put i s y)"
  by (intro refines_quiet ok_put still_ok [OF _ ok_get] abs_put_still)

subsection \<open>Each step of the server\<close>

lemma custody_order [simp]:
  "(c::custody)\<lparr>fate := f, own := g\<rparr> = c\<lparr>own := g, fate := f\<rparr>"
  "c\<lparr>calls := h, own := g\<rparr> = c\<lparr>own := g, calls := h\<rparr>"
  "c\<lparr>calls := h, fate := f\<rparr> = c\<lparr>fate := f, calls := h\<rparr>"
  by (cases c; simp)+

lemma refines_settle:
  assumes "sessions_ok z" "held (sess y i) = Some (r, b)" "v \<noteq> RFresh" "v \<noteq> RLive"
    "b \<longrightarrow> (\<forall>k. v \<noteq> RPaused k)"
    "abs_sys z = (abs_sys y)\<lparr>own := (own (abs_sys y))(i := None), fate := (fate (abs_sys y))(r := v)\<rparr>"
  shows "refines y z"
  using assms custody_step.settle [of "abs_sys y" i r b v] by (intro refines_one) auto

lemma refines_call:
  assumes "sessions_ok z" "held (sess y i) = Some (r, False)"
    "abs_sys z = (abs_sys y)\<lparr>own := (own (abs_sys y))(i := Some (r, True)),
      calls := (calls (abs_sys y))(r := Suc (calls (abs_sys y) r))\<rparr>"
  shows "refines y z"
  using assms custody_step.call [of "abs_sys y" i r] by (intro refines_one) auto

lemma refines_orphan:
  assumes "sessions_ok z" "rooms y r = RFresh"
    "abs_sys z = (abs_sys y)\<lparr>fate := (fate (abs_sys y))(r := RAborted)\<rparr>"
  shows "refines y z"
  using assms custody_step.orphan [of "abs_sys y" r] by (intro refines_one) auto

lemma refines_attached:
  assumes ok: "sessions_ok y" and early: "early (pump (sess y i))" "pump_holds (pump (sess y i)) = None"
    and fresh: "rooms y r = RFresh"
    and x: "sess x = sess y" "abs_sys x = (abs_sys y)\<lparr>fate := (fate (abs_sys y))(r := RLive)\<rparr>"
  shows "refines y (pump_attached i r g w x)"
proof -
  let ?s = "sess y i"
  note s = ok_get [OF ok, of i]
  have none: "held ?s = None" using held_early [OF s early(1)] early by simp
  have room: "room ?s = None" "\<not> working (teardown ?s)" using s early by (auto simp: session_ok_def)
  then have th: "teardown_holds (teardown ?s) = None" by (cases "teardown ?s") auto
  have okx: "sessions_ok x" using ok x by (simp add: sessions_ok_def)
  let ?d = "(abs_sys y)\<lparr>own := (own (abs_sys y))(i := Some (r, False)), fate := (fate (abs_sys y))(r := RLive)\<rparr>"
  have acq: "custody_step (abs_sys y) ?d"
    using custody_step.acquire [of "abs_sys y" i r] none fresh by simp
  show ?thesis
  proof (cases "teardown ?s = TNone")
    case True
    have attached: "session_ok t \<and> held t = Some (r, False)"
      if "room t = Some r" "teardown t = TNone" "\<not> early (pump t)" for t
      using that by (simp add: session_ok_def held_def)
    show ?thesis
      using True x acq by (intro refines_one)
        (auto simp: pump_attached_def Let_def attached intro!: ok_put okx)
  next
    case False
    have late: "custody_step ?d (?d\<lparr>own := (own ?d)(i := Some (r, True)), calls := (calls ?d)(r := Suc (calls ?d r))\<rparr>)"
      by (rule custody_step.call) simp
    have "abs_sys (pump_attached i r g w x) =
        ?d\<lparr>own := (own ?d)(i := Some (r, True)), calls := (calls ?d)(r := Suc (calls ?d r))\<rparr>"
      using False x th by (simp add: pump_attached_def Let_def held_def)
    moreover have "sessions_ok (pump_attached i r g w x)"
      using False x room by (auto simp: pump_attached_def Let_def session_ok_def intro!: ok_put okx)
    ultimately show ?thesis
      unfolding refines_def using acq late by (simp add: converse_rtranclp_into_rtranclp)
  qed
qed

lemma still_put_pump:
  "\<not> early (pump s) \<Longrightarrow> \<not> early p \<Longrightarrow> still s (s\<lparr>pump := p\<rparr>)"
  by (simp add: still_def)

lemma early_put:
  assumes ok: "sessions_ok x" and s: "session_ok s" "early (pump s)" "held s = None"
    and t: "room t = room s" "teardown t = teardown s" "pump_holds (pump t) = None"
  shows "sessions_ok (put i t x) \<and> held t = None"
  using s t by (auto simp: session_ok_def held_def intro!: ok_put ok split: option.splits)

lemma refines_early:
  assumes ok: "sessions_ok y" and s: "early (pump (sess y i))" "pump_holds (pump (sess y i)) = None"
    and t: "room t = room (sess y i)" "teardown t = teardown (sess y i)" "pump_holds (pump t) = None"
    and x: "sess x = sess y" "abs_sys x = abs_sys y"
  shows "refines y (put i t x)"
proof -
  have "held (sess y i) = None" using held_early [OF ok_get [OF ok]] s by simp
  moreover have "sessions_ok x" using ok x by (simp add: sessions_ok_def)
  ultimately show ?thesis
    using early_put [OF _ ok_get [OF ok] s(1) _ t] x by (intro refines_quiet) (auto simp: fun_eq_iff)
qed

lemma kept_take_abs: "kept_take u y = (ko, z) \<Longrightarrow> sess z = sess y \<and> abs_sys z = abs_sys y"
  using kept_take_frame by (simp add: abs_sys_def)

lemma no_room_frame [simp]:
  "room (no_room w s) = room s" "teardown (no_room w s) = teardown s" "pump (no_room w s) = PDone"
  by (simp_all add: no_room_def Let_def)

lemma refines_pump_start: "pump_start i y = Some z \<Longrightarrow> sessions_ok y \<Longrightarrow> refines y z"
  by (auto simp: pump_start_def Let_def split: if_splits prod.splits option.splits
      dest!: kept_take_abs intro!: refines_early)

lemma refines_pump_opened: "pump_opened i res w y = Some z \<Longrightarrow> sessions_ok y \<Longrightarrow> refines y z"
proof (induction i res w y rule: pump_opened.induct)
  case (1 i r cp w y)
  then show ?case by (auto simp: Let_def split: if_splits intro!: refines_attached)
next
  case (2 i w y)
  then show ?case by (auto simp: Let_def split: if_splits intro!: refines_early)
next
  case (3 i w y)
  then show ?case by (auto simp: Let_def split: if_splits intro!: refines_early)
next
  case (4 i r w y)
  let ?t = "(sess y i)\<lparr>pump := PDone\<rparr>"
  from 4 have pc: "pump (sess y i) = POpening" and fresh: "rooms y r = RFresh"
    and z: "z = set_room r RAborted (put i ?t y)" by (auto simp: Let_def split: if_splits)
  have quiet: "refines y (put i ?t y)" using 4 pc by (intro refines_early) auto
  have "abs_sys (put i ?t y) = abs_sys y"
    using held_early [OF ok_get [OF 4(2)], of i] pc
      early_put [OF 4(2) ok_get [OF 4(2)], of i ?t i] by (intro abs_put_same) simp
  then show ?case
    using quiet z fresh by (intro refines_orphan [of _ _ r]) (auto simp: refines_def)
qed

lemma refines_pump_resumed: "pump_resumed i res w y = Some z \<Longrightarrow> sessions_ok y \<Longrightarrow> refines y z"
proof (induction i res w y rule: pump_resumed.induct)
  case (1 i r cp w y)
  then show ?case
    by (auto simp: Let_def split: if_splits pump_pc.splits intro!: refines_attached)
next
  case (2 i w y)
  then show ?case by (auto simp: Let_def split: if_splits pump_pc.splits intro!: refines_early)
next
  case (3 i ro w y)
  then show ?case
    by (auto simp: Let_def split: if_splits pump_pc.splits intro!: refines_early)
qed

lemma refines_pump_cleaned: "pump_cleaned i good w y = Some z \<Longrightarrow> sessions_ok y \<Longrightarrow> refines y z"
  by (auto simp: pump_cleaned_def Let_def destroy_kept_result_def
      split: if_splits pump_pc.splits intro!: refines_early)

lemma checkout_room_cases: "checkout_room res \<in> {RDestroyed, RFailed, RAborted}"
  by (cases res) auto

lemma refines_late_settle:
  assumes ok: "sessions_ok y" and pc: "pump (sess y i) = PLate r" and v: "v \<in> {RDestroyed, RFailed, RAborted}"
  shows "refines y (set_room r v (put i ((sess y i)\<lparr>pump := PDone\<rparr>) y))"
proof (rule refines_settle [of _ _ i r True v])
  have "early (pump (sess y i))" using pc by simp
  then show "held (sess y i) = Some (r, True)" using held_early [OF ok_get [OF ok]] pc by simp
  have none: "room (sess y i) = None" "\<not> working (teardown (sess y i))"
    using ok_get [OF ok, of i] pc by (auto simp: session_ok_def)
  then have "teardown_holds (teardown (sess y i)) = None" by (cases "teardown (sess y i)") auto
  then show "abs_sys (set_room r v (put i ((sess y i)\<lparr>pump := PDone\<rparr>) y)) = (abs_sys y)\<lparr>
      own := (own (abs_sys y))(i := None), fate := (fate (abs_sys y))(r := v)\<rparr>"
    using none by (simp add: held_def)
  show "sessions_ok (set_room r v (put i ((sess y i)\<lparr>pump := PDone\<rparr>) y))"
    using none by (auto simp: session_ok_def intro!: ok_put ok)
qed (use v in auto)

lemma still_flags [simp]:
  "still s (s\<lparr>pcancel := b\<rparr>)" "still s (s\<lparr>tcancel := b\<rparr>)" "still s (s\<lparr>wcancel := b\<rparr>)"
  "still s (s\<lparr>watchdog := wp\<rparr>)" "still s (s\<lparr>closer := cp\<rparr>)"
  by (simp_all add: still_def)

lemma refines_pump_late: "pump_late i res y = Some z \<Longrightarrow> sessions_ok y \<Longrightarrow> refines y z"
  using checkout_room_cases [of res]
  by (cases res) (auto simp: pump_late_def Let_def split: if_splits pump_pc.splits
      intro: refines_late_settle refines_still)

lemma still_finally: "\<not> early (pump s) \<Longrightarrow> still s (pump_finally (s\<lparr>pcancel := False\<rparr>))"
  by (auto simp: still_def pump_finally_def Let_def)

lemma refines_pump_read: "pump_read i res y = Some z \<Longrightarrow> sessions_ok y \<Longrightarrow> refines y z"
  by (cases res) (auto simp: pump_read_def Let_def split: if_splits pump_pc.splits
      intro!: refines_still still_finally, simp_all add: still_def)

lemma goodbye_frame [simp]:
  "room (goodbye b w s) = room s" "teardown (goodbye b w s) = teardown s" "pump (goodbye b w s) = pump s"
  by (auto simp: goodbye_def split: option.split)

lemma refines_pump_finish: "pump_finish i w y = Some z \<Longrightarrow> sessions_ok y \<Longrightarrow> refines y z"
  by (auto simp: pump_finish_def Let_def still_def split: if_splits pump_pc.splits
      intro!: refines_still)

subsection \<open>The teardown\<close>

lemma refines_teardown_start: "teardown_start i y = Some z \<Longrightarrow> sessions_ok y \<Longrightarrow> refines y z"
proof -
  assume z: "teardown_start i y = Some z" and ok: "sessions_ok y"
  let ?s = "sess y i"
  note s = ok_get [OF ok, of i]
  from z obtain ak where tr: "teardown ?s = TReady ak"
    by (auto simp: teardown_start_def Let_def split: teardown_pc.splits)
  consider (cancelled) "z = put i (?s\<lparr>teardown := TCancelled\<rparr>) y"
    | (empty) "room ?s = None" "z = release i (put i (?s\<lparr>teardown := TDone\<rparr>) y)"
    | (pause) r where "room ?s = Some r" "z = put i (?s\<lparr>room := None, teardown := TPausing r\<rparr>) y"
    | (destroy) r where "room ?s = Some r"
        "z = count_destroy r (put i (?s\<lparr>room := None, teardown := TDestroying r\<rparr>) y)"
    using z tr by (auto simp: teardown_start_def Let_def split: if_splits option.splits)
  then show "refines y z"
  proof cases
    case cancelled
    then show ?thesis using s tr
      by (auto intro!: refines_quiet ok_put ok simp: session_ok_def held_def fun_eq_iff split: option.split)
  next
    case empty
    then show ?thesis using s tr
      by (auto intro!: refines_quiet ok_put ok simp: session_ok_def held_def fun_eq_iff)
  next
    case (pause r)
    then have "\<not> early (pump ?s)" using s by (auto simp: session_ok_def)
    then show ?thesis using pause s
      by (auto intro!: refines_quiet ok_put ok simp: session_ok_def held_def fun_eq_iff)
  next
    case (destroy r)
    then have "\<not> early (pump ?s)" using s by (auto simp: session_ok_def)
    then show ?thesis using destroy s
      by (auto intro!: refines_call [of _ _ i r] ok_put ok simp: session_ok_def held_def)
  qed
qed

lemma refines_teardown_settle:
  assumes ok: "sessions_ok y" and tr: "teardown_holds (teardown (sess y i)) = Some (r, b)"
    and v: "v \<noteq> RFresh" "v \<noteq> RLive" "b \<longrightarrow> (\<forall>k. v \<noteq> RPaused k)"
    and t: "room t = room (sess y i)" "pump t = pump (sess y i)" "teardown t = TDone \<or> teardown t = TCancelled"
  shows "sess x = sess y \<Longrightarrow> abs_sys x = (abs_sys y)\<lparr>fate := (fate (abs_sys y))(r := v)\<rparr> \<Longrightarrow>
      refines y (put i t x)"
    and "refines y (set_room r v (put i t y))"
proof -
  have w: "working (teardown (sess y i))" using tr by (cases "teardown (sess y i)") auto
  note hw = held_working [OF ok_get [OF ok] w]
  have "session_ok t" "held t = None" "held (sess y i) = Some (r, b)"
    using hw t tr by (auto simp: session_ok_def held_def)
  note facts = this
  show "refines y (set_room r v (put i t y))"
    using v facts by (auto intro!: refines_settle [of _ _ i r b v] ok_put simp: ok)
  show "refines y (put i t x)"
    if "sess x = sess y" "abs_sys x = (abs_sys y)\<lparr>fate := (fate (abs_sys y))(r := v)\<rparr>"
  proof -
    have "sessions_ok x" using ok that by (simp add: sessions_ok_def)
    then show ?thesis
      using v facts that by (auto intro!: refines_settle [of _ _ i r b v] ok_put)
  qed
qed

lemma refines_teardown_retry:
  assumes ok: "sessions_ok y" and tr: "teardown (sess y i) = TPausing r"
  shows "refines y (count_destroy r (put i ((sess y i)\<lparr>teardown := TDestroying r\<rparr>) y))"
  using held_working [OF ok_get [OF ok], of i] tr ok
  by (intro refines_call [of _ _ i r]) (auto simp: session_ok_def held_def intro!: ok_put)

lemma refines_teardown_paused: "teardown_paused i res y = Some z \<Longrightarrow> sessions_ok y \<Longrightarrow> refines y z"
  by (cases res) (auto simp: teardown_paused_def Let_def split: if_splits teardown_pc.splits
      intro: refines_still refines_teardown_retry
      intro!: refines_teardown_settle [where b = False] refines_still)

lemma refines_teardown_destroyed:
  "teardown_destroyed i res y = Some z \<Longrightarrow> sessions_ok y \<Longrightarrow> refines y z"
  by (cases res) (auto simp: teardown_destroyed_def Let_def split: if_splits teardown_pc.splits
      intro!: refines_teardown_settle [where b = True] refines_still)

subsection \<open>Watchdog, force_close and the kept rooms\<close>

lemma leave_frame [simp]:
  "room (leave st s) = room s" "teardown (leave st s) = teardown s" "pump (leave st s) = pump s"
  by (auto simp: leave_def)

lemma refines_watchdog_wake: "watchdog_wake i w y = Some z \<Longrightarrow> sessions_ok y \<Longrightarrow> refines y z"
  by (auto simp: watchdog_wake_def Let_def still_def split: if_splits intro!: refines_still)

lemma refines_watchdog_finish: "watchdog_finish i y = Some z \<Longrightarrow> sessions_ok y \<Longrightarrow> refines y z"
  by (auto simp: watchdog_finish_def Let_def still_def split: if_splits intro!: refines_still)

lemma refines_close_start: "close_start i w y = Some z \<Longrightarrow> sessions_ok y \<Longrightarrow> refines y z"
  by (auto simp: close_start_def Let_def still_def split: if_splits intro!: refines_still)

lemma refines_close_finish: "close_finish i y = Some z \<Longrightarrow> sessions_ok y \<Longrightarrow> refines y z"
  by (auto simp: close_finish_def Let_def still_def split: if_splits intro!: refines_still)

lemma refines_close_cancel: "close_cancel i y = Some z \<Longrightarrow> sessions_ok y \<Longrightarrow> refines y z"
  by (auto simp: close_cancel_def Let_def still_def split: if_splits intro!: refines_still)

lemma refines_same: "sessions_ok y \<Longrightarrow> sess z = sess y \<Longrightarrow> rooms z = rooms y \<Longrightarrow> destroys z = destroys y \<Longrightarrow> refines y z"
  by (simp add: refines_def sessions_ok_def abs_sys_def)

lemma refines_made: "sessions_ok y \<Longrightarrow> refines y (connection_made i y)"
proof -
  assume ok: "sessions_ok y"
  have "refines y (put i ((sess y i)\<lparr>chan := ChanOpen\<rparr>) y)"
    using ok by (intro refines_still) (auto simp: still_def)
  then show ?thesis
    by (simp add: connection_made_def Let_def refines_def sessions_ok_def abs_sys_def)
qed

lemma refines_registry:
  "expire_wake k y = Some z \<Longrightarrow> sessions_ok y \<Longrightarrow> refines y z"
  "expire_end k good y = Some z \<Longrightarrow> sessions_ok y \<Longrightarrow> refines y z"
  "sweep_start u k y = Some z \<Longrightarrow> sessions_ok y \<Longrightarrow> refines y z"
  "sweep_end k good y = Some z \<Longrightarrow> sessions_ok y \<Longrightarrow> refines y z"
  by (auto simp: expire_wake_def expire_end_def sweep_start_def sweep_end_def
      split: if_splits expire_pc.splits intro!: refines_same)

text \<open>The simulation: every step of the server is steps of the custody specification.\<close>

lemma server_step_refines: "server_step y z \<Longrightarrow> sessions_ok y \<Longrightarrow> refines y z"
proof (induction rule: server_step.induct)
  case (alone y i s)
  then show ?case by (intro refines_still local_step_still)
next
  case (tick d y)
  then show ?case by (intro refines_same) auto
qed (auto intro: refines_made refines_pump_start refines_pump_opened refines_pump_resumed
    refines_pump_cleaned refines_pump_late refines_pump_read refines_pump_finish
    refines_teardown_start refines_teardown_paused refines_teardown_destroyed refines_watchdog_wake
    refines_watchdog_finish refines_close_start refines_close_finish refines_close_cancel
    refines_registry)

lemma held_new: "held (new_session rc idle act u k) = None \<and> session_ok (new_session rc idle act u k)"
  by (simp add: new_session_def held_def session_ok_def)

lemma new_server_start: "new_server y \<Longrightarrow> sessions_ok y \<and> custody_init (abs_sys y)"
proof -
  assume "new_server y"
  then obtain w ss where y: "y = init_sys w ss"
    and ss: "\<And>i. \<exists>rc idle act u k. ss i = new_session rc idle act u k" by (auto simp: new_server_def)
  have "held (ss i) = None \<and> session_ok (ss i)" for i using ss [of i] held_new by metis
  then show ?thesis by (simp add: y init_sys_def sessions_ok_def custody_init_def abs_sys_def)
qed

end
