(* ===== verification/Session_Change.thy ===== *)
theory Session_Change
  imports Session_Refine
begin

section \<open>One session seen on its own\<close>

text \<open>
  \<open>session_change\<close> lists what a step of the server can do to a session, without the rest of the
  server; \<open>server_step_change\<close> projects every step to it. An invariant of single sessions is
  proved over it once and holds of every session of every reachable server.
\<close>

inductive session_change :: "session \<Rightarrow> session \<Rightarrow> bool" where
  alone: "local_step now s t \<Longrightarrow> session_change s t"
| ended: "early (pump s) \<Longrightarrow> pump s \<noteq> PNone \<Longrightarrow> session_change s (s\<lparr>pump := PDone\<rparr>)"
| opens: "pump s = PReady \<Longrightarrow> session_change s (s\<lparr>pump := POpening\<rparr>)"
| resuming: "pump s = PReady \<Longrightarrow> has_kept s \<Longrightarrow> session_change s (s\<lparr>pump := PResuming k\<rparr>)"
| cleanup: "pump s = PResuming k \<Longrightarrow> session_change s (s\<lparr>pump := PCleanup k\<rparr>)"
| late: "pump s = POpening \<or> pump s = PResuming k \<Longrightarrow> teardown s \<noteq> TNone \<Longrightarrow>
    session_change s (s\<lparr>room := None, pump := PLate r\<rparr>)"
| attached: "pump s = POpening \<or> pump s = PResuming k \<Longrightarrow> teardown s = TNone \<Longrightarrow>
    session_change s (emit [OWrite g] (s\<lparr>room := Some r, feeder := FReady r, pump := PReading r\<rparr>))"
| unwritable: "pump s = POpening \<or> pump s = PResuming k \<Longrightarrow> teardown s = TNone \<Longrightarrow>
    session_change s (s\<lparr>room := Some r, pump := PDone\<rparr>)"
| refused: "pump s = POpening \<or> pump s = PCleanup k \<Longrightarrow> session_change s (no_room w s)"
| absorbed: "pump s = PLate r \<Longrightarrow> session_change s (s\<lparr>pcancel := False\<rparr>)"
| read: "pump s = PReading r \<Longrightarrow> session_change s (emit [OWrite d] (s\<lparr>last_activity := now\<rparr>))"
| ending: "pump s = PReading r \<Longrightarrow> session_change s (pump_finally (s\<lparr>pcancel := False\<rparr>))"
| silent: "pump s = PWait ours \<Longrightarrow> teardown_over s \<Longrightarrow> session_change s (s\<lparr>pump := PDone\<rparr>)"
| goodbye: "pump s = PWait ours \<Longrightarrow> teardown s = TDone \<Longrightarrow>
    session_change s (goodbye ours w (s\<lparr>pump := PDone\<rparr>))"
| unstarted: "teardown s = TReady b \<Longrightarrow> session_change s (s\<lparr>teardown := TCancelled\<rparr>)"
| empty: "teardown s = TReady b \<Longrightarrow> room s = None \<Longrightarrow> session_change s (s\<lparr>teardown := TDone\<rparr>)"
| pausing: "teardown s = TReady True \<Longrightarrow> room s = Some r \<Longrightarrow> has_kept s \<Longrightarrow>
    session_change s (s\<lparr>room := None, teardown := TPausing r\<rparr>)"
| destroying: "teardown s = TReady b \<Longrightarrow> room s = Some r \<Longrightarrow>
    session_change s (s\<lparr>room := None, teardown := TDestroying r\<rparr>)"
| paused: "teardown s = TPausing r \<Longrightarrow> session_change s (s\<lparr>teardown := TDone\<rparr>)"
| unpaused: "teardown s = TPausing r \<Longrightarrow> session_change s (s\<lparr>teardown := TDestroying r\<rparr>)"
| aborted: "working (teardown s) \<Longrightarrow> session_change s (s\<lparr>teardown := TCancelled\<rparr>)"
| ignored: "working (teardown s) \<Longrightarrow> session_change s (s\<lparr>tcancel := False\<rparr>)"
| destroyed: "teardown s = TDestroying r \<Longrightarrow>
    session_change s (s\<lparr>teardown := TDone, status := Some st\<rparr>)"
| watching: "watchdog s \<noteq> WNone \<Longrightarrow> session_change s (s\<lparr>watchdog := wp\<rparr>)"
| idle: "watchdog s \<noteq> WNone \<Longrightarrow>
    session_change s (begin_teardown False ((if open_chan s then emit [OWrite g] s else s)\<lparr>watchdog := WWait\<rparr>))"
| idled: "watchdog s \<noteq> WNone \<Longrightarrow> session_change s (leave st (s\<lparr>watchdog := WDone\<rparr>))"
| closing: "session_change s (s\<lparr>closer := CDone\<rparr>)"
| forced: "chan s \<noteq> NoChan \<Longrightarrow>
    session_change s (begin_teardown False ((if open_chan s then emit [OWrite g] s else s)\<lparr>closer := CWait\<rparr>))"
| closed: "session_change s (leave st (s\<lparr>closer := CDone\<rparr>))"
| given_up: "session_change s (cancel_teardown (s\<lparr>closer := CDone\<rparr>))"

definition changes :: "sys \<Rightarrow> sys \<Rightarrow> bool" where
  "changes y z \<longleftrightarrow> (\<exists>i s. (s = sess y i \<or> session_change (sess y i) s) \<and> sess z = (sess y)(i := s))"

lemma changes_same: "sess z = sess y \<Longrightarrow> changes y z"
  unfolding changes_def by (metis fun_upd_triv)

lemma changes_put: "session_change (sess y i) s \<Longrightarrow> sess z = (sess y)(i := s) \<Longrightarrow> changes y z"
  unfolding changes_def by blast

lemma changes_putI: "session_change (sess y i) s \<Longrightarrow> sess x = sess y \<Longrightarrow> changes y (put i s x)"
  by (auto intro: changes_put)

lemma changes_frame [simp]:
  "changes y (set_room r v z) = changes y z" "changes y (set_kept k u z) = changes y z"
  "changes y (set_expiry k e z) = changes y z" "changes y (count_destroy r z) = changes y z"
  "changes y (lose_kept k z) = changes y z" "changes y (new_room r cp z) = changes y z"
  "changes y (release i z) = changes y z" "changes y (kept_store u' k z) = changes y z"
  "changes y (destroy_kept_result k good z) = changes y z"
  by (simp_all add: changes_def)

lemma changes_attached:
  assumes "pump (sess y i) = POpening \<or> pump (sess y i) = PResuming k" "sess x = sess y"
  shows "changes y (pump_attached i r g w x)"
proof (cases "teardown (sess y i) = TNone")
  case True
  then show ?thesis
    using assms session_change.attached [OF assms(1) True, of g r]
      session_change.unwritable [OF assms(1) True, of r]
    by (auto simp: pump_attached_def Let_def intro: changes_put)
next
  case False
  then show ?thesis
    using assms session_change.late [OF assms(1) False, of r]
    by (auto simp: pump_attached_def Let_def intro: changes_put)
qed

lemma changes_pump:
  "pump_start i y = Some z \<Longrightarrow> changes y z"
  "pump_cleaned i good w y = Some z \<Longrightarrow> changes y z"
  "pump_read i res y = Some z \<Longrightarrow> changes y z"
  "pump_finish i w y = Some z \<Longrightarrow> changes y z"
proof -
  show "pump_start i y = Some z \<Longrightarrow> changes y z"
    by (auto simp: pump_start_def Let_def split: if_splits prod.splits option.splits
        dest!: kept_take_abs intro!: changes_putI
        intro: session_change.ended session_change.opens session_change.resuming)
  show "pump_cleaned i good w y = Some z \<Longrightarrow> changes y z"
    by (auto simp: pump_cleaned_def Let_def session_change.ended split: if_splits pump_pc.splits
        intro!: changes_putI intro: session_change.intros)
  show "pump_read i res y = Some z \<Longrightarrow> changes y z"
    by (cases res) (auto simp: pump_read_def Let_def split: if_splits pump_pc.splits
        intro!: changes_putI intro: session_change.intros)
  show "pump_finish i w y = Some z \<Longrightarrow> changes y z"
    by (auto simp: pump_finish_def Let_def teardown_over_def split: if_splits pump_pc.splits
        intro!: changes_putI intro: session_change.silent session_change.goodbye)
qed

lemma changes_room:
  "pump_opened i res w y = Some z \<Longrightarrow> changes y z"
  "pump_resumed i res w y = Some z \<Longrightarrow> changes y z"
  "pump_late i res1 y = Some z \<Longrightarrow> changes y z"
proof -
  show "pump_opened i res w y = Some z \<Longrightarrow> changes y z"
    by (induction i res w y rule: pump_opened.induct)
      (auto simp: Let_def session_change.ended split: if_splits intro!: changes_attached changes_putI
        intro: session_change.ended session_change.refused)
  show "pump_resumed i res w y = Some z \<Longrightarrow> changes y z"
    by (induction i res w y rule: pump_resumed.induct)
      (auto simp: Let_def session_change.ended split: if_splits pump_pc.splits intro!: changes_attached changes_putI
        intro: session_change.ended session_change.cleanup)
  show "pump_late i res1 y = Some z \<Longrightarrow> changes y z"
    by (cases res1) (auto simp: pump_late_def Let_def session_change.ended split: if_splits pump_pc.splits
        intro!: changes_putI intro: session_change.ended session_change.absorbed)
qed

lemma changes_teardown:
  "teardown_start i y = Some z \<Longrightarrow> changes y z"
  "teardown_paused i res y = Some z \<Longrightarrow> changes y z"
  "teardown_destroyed i res1 y = Some z \<Longrightarrow> changes y z"
proof -
  show "teardown_start i y = Some z \<Longrightarrow> changes y z"
    by (auto simp: teardown_start_def Let_def split: if_splits teardown_pc.splits option.splits
        intro!: changes_putI
        intro: session_change.unstarted session_change.empty session_change.pausing session_change.destroying)
  show "teardown_paused i res y = Some z \<Longrightarrow> changes y z"
    by (cases res) (auto simp: teardown_paused_def Let_def session_change.aborted split: if_splits teardown_pc.splits
        intro!: changes_putI
        intro: session_change.paused session_change.unpaused session_change.aborted session_change.ignored)
  show "teardown_destroyed i res1 y = Some z \<Longrightarrow> changes y z"
    by (cases res1) (auto simp: teardown_destroyed_def Let_def session_change.aborted split: if_splits teardown_pc.splits
        intro!: changes_putI
        intro: session_change.destroyed session_change.aborted session_change.ignored)
qed

lemma changes_others:
  "watchdog_wake i w y = Some z \<Longrightarrow> changes y z"
  "watchdog_finish i y = Some z \<Longrightarrow> changes y z"
  "chan (sess y i) \<noteq> NoChan \<Longrightarrow> close_start i w y = Some z \<Longrightarrow> changes y z"
  "close_finish i y = Some z \<Longrightarrow> changes y z"
  "close_cancel i y = Some z \<Longrightarrow> changes y z"
proof -
  show "watchdog_wake i w y = Some z \<Longrightarrow> changes y z"
    using session_change.idle [of "sess y i" "destroyed ''idle timeout''"]
    by (auto simp: watchdog_wake_def Let_def split: if_splits intro!: changes_putI
        intro: session_change.watching)
  show "watchdog_finish i y = Some z \<Longrightarrow> changes y z"
    by (auto simp: watchdog_finish_def Let_def split: if_splits intro!: changes_putI
        intro: session_change.watching session_change.idled)
  show "chan (sess y i) \<noteq> NoChan \<Longrightarrow> close_start i w y = Some z \<Longrightarrow> changes y z"
    using session_change.forced [of "sess y i" "destroyed ''server shutting down''"]
    by (auto simp: close_start_def Let_def split: if_splits intro!: changes_putI
        intro: session_change.closing)
  show "close_finish i y = Some z \<Longrightarrow> changes y z"
    by (auto simp: close_finish_def Let_def split: if_splits intro!: changes_putI
        intro: session_change.closing session_change.closed)
  show "close_cancel i y = Some z \<Longrightarrow> changes y z"
    by (auto simp: close_cancel_def Let_def split: if_splits intro!: changes_putI
        intro: session_change.given_up)
qed

lemma changes_registry:
  "expire_wake k y = Some z \<Longrightarrow> changes y z"
  "expire_end k good y = Some z \<Longrightarrow> changes y z"
  "sweep_start u k y = Some z \<Longrightarrow> changes y z"
  "sweep_end k good y = Some z \<Longrightarrow> changes y z"
  by (auto simp: expire_wake_def expire_end_def sweep_start_def sweep_end_def
      split: if_splits expire_pc.splits intro!: changes_same)

lemma server_step_change:
  "server_step y z \<Longrightarrow> changes y z \<or> (\<exists>i. chan (sess y i) = NoChan \<and> z = connection_made i y)"
proof (induction rule: server_step.induct)
  case (alone y i s)
  then show ?case by (auto intro: changes_putI session_change.alone)
next
  case (tick d y)
  then show ?case by (auto intro: changes_same)
qed (auto intro: changes_pump changes_room changes_teardown changes_others changes_registry)

lemma changes_cases:
  assumes "changes y z"
  obtains "sess z i = sess y i" | "session_change (sess y i) (sess z i)"
  using assms unfolding changes_def by (metis fun_upd_apply)

text \<open>The contract of an invariant of single sessions, and what it gives for the server.\<close>

locale session_invariant =
  fixes P :: "session \<Rightarrow> bool"
  assumes new: "P (new_session rc idle act u kept)"
    and made: "chan s = NoChan \<Longrightarrow> P s \<Longrightarrow> P (s\<lparr>chan := ChanOpen\<rparr>)"
    and change: "session_change s t \<Longrightarrow> P s \<Longrightarrow> P t"
begin

lemma step: "server_step y z \<Longrightarrow> (\<forall>i. P (sess y i)) \<Longrightarrow> \<forall>i. P (sess z i)"
  using server_step_change [of y z] change made
  by (auto simp: changes_def connection_made_def Let_def)

lemma start: "new_server y \<Longrightarrow> \<forall>i. P (sess y i)"
  unfolding new_server_def init_sys_def by (auto, metis new)

end

sublocale session_invariant \<subseteq> server: invariant new_server server_step "\<lambda>y. \<forall>i. P (sess y i)"
  by unfold_locales (use start step in blast)+

end
