(* ===== verification/Session_Safety.thy ===== *)
theory Session_Safety
  imports Session_Change
begin

section \<open>Safety of the session layer\<close>

text \<open>
  Invariants of the sessions and the registry of active ones, and the properties they give: who
  may hold a room, when a room may be paused, what the drain can rely on, and that input reaches
  the room in order. The locale \<open>session_invariant\<close> carries the invariants of single sessions.
\<close>

subsection \<open>Invariants of single sessions\<close>

definition unborn_ok :: "session \<Rightarrow> bool" where
  "unborn_ok s \<longleftrightarrow> (chan s = NoChan \<longrightarrow>
     pump s = PNone \<and> watchdog s = WNone \<and> teardown s = TNone \<and> room s = None)"

fun may_pause :: "teardown_pc \<Rightarrow> bool" where
  "may_pause (TReady b) = b"
| "may_pause (TPausing r) = True"
| "may_pause other = False"

definition pause_ok :: "session \<Rightarrow> bool" where
  "pause_ok s \<longleftrightarrow> (may_pause (teardown s) \<longrightarrow> hung_up s)"

fun in_pause :: "teardown_pc \<Rightarrow> bool" where
  "in_pause (TPausing r) = True"
| "in_pause other = False"

definition keep_ok :: "session \<Rightarrow> bool" where
  "keep_ok s \<longleftrightarrow> (in_pause (teardown s) \<longrightarrow> has_kept s)"

definition status_ok :: "session \<Rightarrow> bool" where
  "status_ok s \<longleftrightarrow> (status s \<noteq> None \<longrightarrow> teardown s = TDone)"

text \<open>
  Of what was accepted from the client, a part was delivered, at most one chunk is on its way or
  was lost with the feeder, and the rest is queued, in order.
\<close>

fun flying :: "feeder_pc \<Rightarrow> bytes list \<Rightarrow> bool" where
  "flying (FWrite r d) mid = (mid = [d])"
| "flying FNone mid = (length mid \<le> 1)"
| "flying other mid = (mid = [])"

definition input_ok :: "session \<Rightarrow> bool" where
  "input_ok s \<longleftrightarrow> length (input s) \<le> INPUT_BACKLOG
     \<and> (early (pump s) \<longrightarrow> feeder s = FNone \<and> accepted_input s = input s \<and> delivered s = [])
     \<and> (\<exists>mid. accepted_input s = delivered s @ mid @ input s \<and> flying (feeder s) mid)"

lemma input_okI:
  assumes "length (input s) \<le> INPUT_BACKLOG"
    and "early (pump s) \<Longrightarrow> feeder s = FNone \<and> accepted_input s = input s \<and> delivered s = []"
    and "accepted_input s = delivered s @ mid @ input s" "flying (feeder s) mid"
  shows "input_ok s"
  using assms unfolding input_ok_def by blast

lemma input_okE:
  assumes "input_ok s"
  obtains mid where "length (input s) \<le> INPUT_BACKLOG"
    "early (pump s) \<Longrightarrow> feeder s = FNone \<and> accepted_input s = input s \<and> delivered s = []"
    "accepted_input s = delivered s @ mid @ input s" "flying (feeder s) mid"
  using assms unfolding input_ok_def by blast

lemma cancel_life [simp]:
  "chan (cancel_teardown s) = chan s" "hung_up (cancel_teardown s) = hung_up s"
  "has_kept (cancel_teardown s) = has_kept s" "status (cancel_teardown s) = status s"
  "watchdog (cancel_teardown s) = watchdog s" "feeder (cancel_teardown s) = feeder s"
  "input (cancel_teardown s) = input s" "accepted_input (cancel_teardown s) = accepted_input s"
  "delivered (cancel_teardown s) = delivered s" "has_active (cancel_teardown s) = has_active s"
  by (cases "teardown s"; simp add: cancel_teardown_def)+

lemma cancel_pump_life [simp]:
  "chan (cancel_pump s) = chan s" "hung_up (cancel_pump s) = hung_up s"
  "has_kept (cancel_pump s) = has_kept s" "status (cancel_pump s) = status s"
  "watchdog (cancel_pump s) = watchdog s" "feeder (cancel_pump s) = feeder s"
  "input (cancel_pump s) = input s" "accepted_input (cancel_pump s) = accepted_input s"
  "delivered (cancel_pump s) = delivered s" "has_active (cancel_pump s) = has_active s"
  by (cases "pump s"; simp add: cancel_pump_def)+

lemma cancel_watchdog_life [simp]:
  "chan (cancel_watchdog s) = chan s" "hung_up (cancel_watchdog s) = hung_up s"
  "has_kept (cancel_watchdog s) = has_kept s" "status (cancel_watchdog s) = status s"
  "watchdog (cancel_watchdog s) = watchdog s" "feeder (cancel_watchdog s) = feeder s"
  "input (cancel_watchdog s) = input s" "accepted_input (cancel_watchdog s) = accepted_input s"
  "delivered (cancel_watchdog s) = delivered s" "has_active (cancel_watchdog s) = has_active s"
  by (cases "watchdog s"; simp add: cancel_watchdog_def)+

lemmas life_defs = pty_requested_def session_started_def terminal_size_changed_def Let_def
  data_received_def connection_lost_def notify_shutdown_def begin_teardown_def stop_feeder_def
  emit_def open_chan_def pump_finally_def no_room_def leave_def feeder_get_def feeder_wrote_def

lemma local_unborn: "local_step now s t \<Longrightarrow> unborn_ok s \<Longrightarrow> unborn_ok t"
  by (induction rule: local_step.induct)
    (auto simp: unborn_ok_def life_defs connected_def split: option.splits feeder_pc.splits list.splits if_splits)

lemma change_unborn: "session_change s t \<Longrightarrow> unborn_ok s \<Longrightarrow> unborn_ok t"
proof (induction rule: session_change.induct)
  case (alone now s t)
  then show ?case by (rule local_unborn)
qed (auto simp: unborn_ok_def life_defs goodbye_def split: option.splits)

lemma local_pause: "local_step now s t \<Longrightarrow> pause_ok s \<Longrightarrow> pause_ok t"
  by (induction rule: local_step.induct)
    (auto simp: pause_ok_def life_defs connected_def split: option.splits feeder_pc.splits list.splits if_splits)

lemma change_pause: "session_change s t \<Longrightarrow> pause_ok s \<Longrightarrow> pause_ok t"
proof (induction rule: session_change.induct)
  case (alone now s t)
  then show ?case by (rule local_pause)
qed (auto simp: pause_ok_def life_defs goodbye_def split: option.splits)

lemma local_keep: "local_step now s t \<Longrightarrow> keep_ok s \<Longrightarrow> keep_ok t"
  by (induction rule: local_step.induct)
    (auto simp: keep_ok_def life_defs split: option.splits feeder_pc.splits list.splits if_splits)

lemma change_keep: "session_change s t \<Longrightarrow> keep_ok s \<Longrightarrow> keep_ok t"
proof (induction rule: session_change.induct)
  case (alone now s t)
  then show ?case by (rule local_keep)
qed (auto simp: keep_ok_def life_defs goodbye_def split: option.splits)

lemma local_status: "local_step now s t \<Longrightarrow> status_ok s \<Longrightarrow> status_ok t"
  by (induction rule: local_step.induct)
    (auto simp: status_ok_def life_defs split: option.splits feeder_pc.splits list.splits if_splits)

lemma change_status: "session_change s t \<Longrightarrow> status_ok s \<Longrightarrow> status_ok t"
proof (induction rule: session_change.induct)
  case (alone now s t)
  then show ?case by (rule local_status)
qed (auto simp: status_ok_def life_defs goodbye_def split: option.splits)

interpretation unborn: session_invariant unborn_ok
  by (unfold_locales, simp add: unborn_ok_def new_session_def, simp add: unborn_ok_def, erule (1) change_unborn)

interpretation pause: session_invariant pause_ok
  by (unfold_locales, simp add: pause_ok_def new_session_def, simp add: pause_ok_def, erule (1) change_pause)

interpretation keep: session_invariant keep_ok
  by (unfold_locales, simp add: keep_ok_def new_session_def, simp add: keep_ok_def, erule (1) change_keep)

interpretation status: session_invariant status_ok
  by (unfold_locales, simp add: status_ok_def new_session_def, simp add: status_ok_def, erule (1) change_status)

subsection \<open>The input queue\<close>

lemma input_cong:
  assumes "input_ok s" "input t = input s" "accepted_input t = accepted_input s" "delivered t = delivered s"
    "feeder t = feeder s \<or> feeder t = FNone" "early (pump t) \<longrightarrow> early (pump s)"
  shows "input_ok t"
proof (rule input_okE [OF assms(1)])
  fix mid
  assume s: "length (input s) \<le> INPUT_BACKLOG"
    "early (pump s) \<Longrightarrow> feeder s = FNone \<and> accepted_input s = input s \<and> delivered s = []"
    "accepted_input s = delivered s @ mid @ input s" "flying (feeder s) mid"
  have "flying FNone mid" using s(4) by (cases "feeder s") auto
  then have "flying (feeder t) mid" using assms(5) s(4) by auto
  then show "input_ok t" using assms s by (intro input_okI [of t mid]) auto
qed

lemma data_input: "input_ok s \<Longrightarrow> input_ok (data_received now d s)"
proof (erule input_okE)
  fix mid
  assume s: "length (input s) \<le> INPUT_BACKLOG"
    "early (pump s) \<Longrightarrow> feeder s = FNone \<and> accepted_input s = input s \<and> delivered s = []"
    "accepted_input s = delivered s @ mid @ input s" "flying (feeder s) mid"
  show "input_ok (data_received now d s)"
    using s by (intro input_okI [of _ mid]) (auto simp: data_received_def Let_def)
qed

lemma feeder_input:
  "feeder_get s = Some t \<Longrightarrow> input_ok s \<Longrightarrow> input_ok t"
  "feeder_wrote good s = Some t \<Longrightarrow> input_ok s \<Longrightarrow> input_ok t"
  by (auto simp: feeder_get_def feeder_wrote_def input_ok_def
      split: feeder_pc.splits list.splits if_splits)

lemma local_input: "local_step now s t \<Longrightarrow> input_ok s \<Longrightarrow> input_ok t"
proof (induction rule: local_step.induct)
  case (data s d)
  then show ?case by (simp add: data_input)
next
  case (got s t)
  then show ?case by (simp add: feeder_input)
next
  case (wrote good s t)
  then show ?case by (simp add: feeder_input)
qed (erule input_cong; auto simp: life_defs split: option.splits)+

lemma change_input: "session_change s t \<Longrightarrow> input_ok s \<Longrightarrow> input_ok t"
proof (induction rule: session_change.induct)
  case (alone now s t)
  then show ?case by (simp add: local_input)
next
  case (attached s k g r)
  then have "early (pump s)" by auto
  with attached(3) show ?case by (auto simp: input_ok_def emit_def)
qed (erule input_cong; auto simp: life_defs goodbye_def split: option.splits)+

interpretation input: session_invariant input_ok
  by (unfold_locales, simp add: input_ok_def new_session_def, simp add: input_ok_def, erule (1) change_input)

subsection \<open>The registry of active sessions\<close>

definition finished :: "session \<Rightarrow> bool" where
  "finished s \<longleftrightarrow> teardown_over s \<and> room s = None"

definition registered :: "sys \<Rightarrow> sid \<Rightarrow> bool" where
  "registered y i \<longleftrightarrow> (has_active (sess y i) \<and> chan (sess y i) \<noteq> NoChan
     \<longrightarrow> i \<in> active y \<or> finished (sess y i))"

definition active_ok :: "sys \<Rightarrow> bool" where
  "active_ok y \<longleftrightarrow> (empty_event y \<longleftrightarrow> active y = {}) \<and> (\<forall>i. registered y i)"

lemma local_finished: "local_step now s t \<Longrightarrow> finished s \<Longrightarrow> finished t"
  by (induction rule: local_step.induct)
    (auto simp: finished_def teardown_over_def life_defs split: option.splits feeder_pc.splits list.splits if_splits)

lemma change_finished: "session_change s t \<Longrightarrow> finished s \<Longrightarrow> finished t"
proof (induction rule: session_change.induct)
  case (alone now s t)
  then show ?case by (rule local_finished)
qed (auto simp: finished_def teardown_over_def life_defs goodbye_def split: option.splits)

lemma local_born: "local_step now s t \<Longrightarrow> has_active t = has_active s \<and> (chan s = NoChan \<longleftrightarrow> chan t = NoChan)"
  by (induction rule: local_step.induct)
    (auto simp: connected_def life_defs split: option.splits feeder_pc.splits list.splits if_splits)

lemma change_born: "session_change s t \<Longrightarrow> has_active t = has_active s \<and> (chan s = NoChan \<longleftrightarrow> chan t = NoChan)"
proof (induction rule: session_change.induct)
  case (alone now s t)
  then show ?case by (rule local_born)
qed (auto simp: life_defs goodbye_def split: option.splits)

lemma sess_made [simp]: "sess (connection_made i y) = (sess y)(i := (sess y i)\<lparr>chan := ChanOpen\<rparr>)"
  by (simp add: connection_made_def Let_def)

lemma step_has_active: "server_step y z \<Longrightarrow> has_active (sess z i) = has_active (sess y i)"
proof -
  assume "server_step y z"
  then consider "changes y z" | j where "z = connection_made j y" using server_step_change by blast
  then show ?thesis
    by cases (auto elim: changes_cases [where i = i] dest: change_born)
qed

lemma steps_has_active: "server_step\<^sup>*\<^sup>* y z \<Longrightarrow> has_active (sess z i) = has_active (sess y i)"
  by (induction rule: rtranclp_induct) (auto simp: step_has_active)

lemma registered_kept:
  assumes "changes y z" "registered y i" "active y - {j} \<subseteq> active z" "finished (sess z j)"
  shows "registered z i"
  using assms(1)
proof (cases rule: changes_cases [where i = i])
  case 1
  then show ?thesis using assms by (auto simp: registered_def)
next
  case 2
  then show ?thesis using assms change_born [OF 2] change_finished [OF 2]
    by (auto simp: registered_def)
qed

lemma registered_same:
  assumes "changes y z" "registered y i" "active y \<subseteq> active z"
  shows "registered z i"
  using assms(1)
proof (cases rule: changes_cases [where i = i])
  case 1
  then show ?thesis using assms by (auto simp: registered_def)
next
  case 2
  then show ?thesis using assms change_born [OF 2] change_finished [OF 2]
    by (auto simp: registered_def)
qed

text \<open>Who leaves the registry: a session that has released it, and nobody else.\<close>

definition leaves :: "sys \<Rightarrow> sys \<Rightarrow> bool" where
  "leaves y z \<longleftrightarrow> (active z = active y \<and> empty_event z = empty_event y)
     \<or> (\<exists>j. active z = active y - {j} \<and> empty_event z = (if active z = {} then True else empty_event y)
          \<and> finished (sess z j))"

lemma leaves_active: "leaves y z \<Longrightarrow> changes y z \<Longrightarrow> active_ok y \<Longrightarrow> active_ok z"
proof -
  assume l: "leaves y z" and c: "changes y z" and ok: "active_ok y"
  have reg: "registered y i" for i using ok by (simp add: active_ok_def)
  from l consider (same) "active z = active y" "empty_event z = empty_event y"
    | (left) j where "active z = active y - {j}" "finished (sess z j)"
        "empty_event z = (if active z = {} then True else empty_event y)"
    unfolding leaves_def by blast
  then show "active_ok z"
  proof cases
    case same
    then show ?thesis using ok registered_same [OF c reg] by (simp add: active_ok_def)
  next
    case (left j)
    have "registered z i" for i using registered_kept [OF c reg, of j] left by simp
    moreover have "empty_event z \<longleftrightarrow> active z = {}" using left ok by (auto simp: active_ok_def)
    ultimately show ?thesis by (simp add: active_ok_def)
  qed
qed

lemma active_ops [simp]:
  "active (set_room r v y) = active y" "active (set_kept k u y) = active y"
  "active (set_expiry k e y) = active y" "active (count_destroy r y) = active y"
  "active (lose_kept k y) = active y" "active (new_room r cp y) = active y"
  "active (put i s y) = active y"
  "empty_event (set_room r v y) = empty_event y" "empty_event (set_kept k u y) = empty_event y"
  "empty_event (set_expiry k e y) = empty_event y" "empty_event (count_destroy r y) = empty_event y"
  "empty_event (lose_kept k y) = empty_event y" "empty_event (new_room r cp y) = empty_event y"
  "empty_event (put i s y) = empty_event y"
  by (simp_all add: put_def set_room_def set_kept_def set_expiry_def count_destroy_def lose_kept_def
      new_room_def)

lemma active_stores [simp]:
  "active (kept_store u' k y) = active y" "active (destroy_kept_result k good y) = active y"
  "empty_event (kept_store u' k y) = empty_event y"
  "empty_event (destroy_kept_result k good y) = empty_event y"
  by (simp_all add: kept_store_def displaced_def destroy_kept_result_def Let_def split: option.split)

lemma active_attached [simp]:
  "active (pump_attached i r g w y) = active y" "empty_event (pump_attached i r g w y) = empty_event y"
  by (simp_all add: pump_attached_def Let_def)

lemma leaves_same: "active z = active y \<Longrightarrow> empty_event z = empty_event y \<Longrightarrow> leaves y z"
  by (simp add: leaves_def)

lemma leaves_release:
  assumes "finished (sess x i)" "active x = active y" "empty_event x = empty_event y"
  shows "leaves y (release i x)"
proof (cases "has_active (sess x i)")
  case True
  then have "sess (release i x) = sess x" "active (release i x) = active y - {i}"
    "empty_event (release i x) = (if active (release i x) = {} then True else empty_event y)"
    using assms by (simp_all add: release_def active_discard_def Let_def)
  then show ?thesis using assms unfolding leaves_def by metis
next
  case False
  then show ?thesis using assms by (simp add: release_def leaves_def)
qed

lemma leaves_pump_start: "pump_start i y = Some z \<Longrightarrow> leaves y z"
  by (rule leaves_same)
    (auto simp: pump_start_def Let_def dest: kept_take_frame split: if_splits prod.splits option.splits)

lemma leaves_pump_opened: "pump_opened i res w y = Some z \<Longrightarrow> leaves y z"
  by (induction i res w y rule: pump_opened.induct; rule leaves_same)
    (auto simp: Let_def split: if_splits)

lemma leaves_pump_resumed: "pump_resumed i res w y = Some z \<Longrightarrow> leaves y z"
  by (induction i res w y rule: pump_resumed.induct; rule leaves_same)
    (auto simp: Let_def split: if_splits pump_pc.splits)

lemma leaves_pump_cleaned: "pump_cleaned i good w y = Some z \<Longrightarrow> leaves y z"
  by (rule leaves_same) (auto simp: pump_cleaned_def Let_def split: if_splits pump_pc.splits)

lemma leaves_pump_late: "pump_late i res y = Some z \<Longrightarrow> leaves y z"
  by (rule leaves_same; cases res) (auto simp: pump_late_def Let_def split: if_splits pump_pc.splits)

lemma leaves_pump_read: "pump_read i rd y = Some z \<Longrightarrow> leaves y z"
  by (rule leaves_same; cases rd) (auto simp: pump_read_def Let_def split: if_splits pump_pc.splits)

lemma leaves_pump_finish: "pump_finish i w y = Some z \<Longrightarrow> leaves y z"
  by (rule leaves_same) (auto simp: pump_finish_def Let_def split: if_splits pump_pc.splits)

lemma leaves_teardown_start:
  assumes "teardown_start i y = Some z"
  shows "leaves y z"
proof -
  let ?s = "sess y i"
  from assms obtain ak where tr: "teardown ?s = TReady ak"
    by (auto simp: teardown_start_def Let_def split: teardown_pc.splits)
  consider "active z = active y \<and> empty_event z = empty_event y"
    | "room ?s = None" "z = release i (put i (?s\<lparr>teardown := TDone\<rparr>) y)"
    using assms tr by (auto simp: teardown_start_def Let_def split: if_splits option.splits)
  then show ?thesis
    by cases (auto intro!: leaves_release intro: leaves_same simp: finished_def teardown_over_def)
qed

lemma leaves_teardown:
  assumes "working (teardown (sess y i)) \<Longrightarrow> room (sess y i) = None"
  shows "teardown_paused i res y = Some z \<Longrightarrow> leaves y z"
    and "teardown_destroyed i res1 y = Some z \<Longrightarrow> leaves y z"
proof -
  show "teardown_paused i res y = Some z \<Longrightarrow> leaves y z"
    using assms by (cases res; cases "teardown (sess y i)")
      (auto simp: teardown_paused_def Let_def finished_def teardown_over_def
        split: if_splits intro!: leaves_release intro: leaves_same)
  show "teardown_destroyed i res1 y = Some z \<Longrightarrow> leaves y z"
    using assms by (cases res1; cases "teardown (sess y i)")
      (auto simp: teardown_destroyed_def Let_def finished_def teardown_over_def
        split: if_splits intro!: leaves_release intro: leaves_same)
qed

lemma leaves_others:
  "watchdog_wake i w y = Some z \<Longrightarrow> leaves y z"
  "watchdog_finish i y = Some z \<Longrightarrow> leaves y z"
  "close_start i w y = Some z \<Longrightarrow> leaves y z"
  "close_finish i y = Some z \<Longrightarrow> leaves y z"
  "close_cancel i y = Some z \<Longrightarrow> leaves y z"
  by (auto simp: watchdog_wake_def watchdog_finish_def close_start_def close_finish_def
      close_cancel_def Let_def split: if_splits intro!: leaves_same)

lemma leaves_registry:
  "expire_wake k y = Some z \<Longrightarrow> leaves y z"
  "expire_end k good y = Some z \<Longrightarrow> leaves y z"
  "sweep_start u k y = Some z \<Longrightarrow> leaves y z"
  "sweep_end k good y = Some z \<Longrightarrow> leaves y z"
  by (auto simp: expire_wake_def expire_end_def sweep_start_def sweep_end_def
      split: if_splits expire_pc.splits intro!: leaves_same)

lemma server_step_leaves:
  "server_step y z \<Longrightarrow> sessions_ok y \<Longrightarrow> leaves y z \<or> (\<exists>i. chan (sess y i) = NoChan \<and> z = connection_made i y)"
proof (induction rule: server_step.induct)
  case (teardown_paused i res y z)
  then show ?case using ok_get [of y i] by (auto simp: session_ok_def intro: leaves_teardown)
next
  case (teardown_destroyed i res y z)
  then show ?case using ok_get [of y i] by (auto simp: session_ok_def intro: leaves_teardown)
qed (auto intro: leaves_same leaves_pump_start leaves_pump_opened leaves_pump_resumed
    leaves_pump_cleaned leaves_pump_late leaves_pump_read leaves_pump_finish leaves_teardown_start
    leaves_others leaves_registry)

lemma active_made: "active_ok y \<Longrightarrow> chan (sess y i) = NoChan \<Longrightarrow> active_ok (connection_made i y)"
proof -
  assume ok: "active_ok y" and no: "chan (sess y i) = NoChan"
  have "registered (connection_made i y) j" for j
    using ok by (cases "j = i")
      (auto simp: active_ok_def registered_def connection_made_def Let_def active_add_def
        split: if_splits)
  then show ?thesis
    using ok by (auto simp: active_ok_def connection_made_def Let_def active_add_def)
qed

interpretation sessions: invariant new_server server_step sessions_ok
  by (unfold_locales, simp add: new_server_start,
      use server_step_refines in \<open>auto simp: refines_def\<close>)

lemma active_keeps: "server_step y z \<Longrightarrow> sessions_ok y \<Longrightarrow> active_ok y \<Longrightarrow> active_ok z"
  using server_step_leaves [of y z] server_step_change [of y z] by (auto intro: leaves_active active_made)

lemma active_starts: "new_server y \<Longrightarrow> active_ok y"
proof -
  assume "new_server y"
  then obtain w ss where y: "y = init_sys w ss"
    and ss: "\<And>i. \<exists>rc idle act u k. ss i = new_session rc idle act u k" by (auto simp: new_server_def)
  have "chan (ss i) = NoChan" for i using ss [of i] by (auto simp: new_session_def)
  then show ?thesis by (simp add: y init_sys_def active_ok_def registered_def)
qed

interpretation actives: relative_invariant new_server server_step sessions_ok active_ok
  by (unfold_locales, erule active_starts, erule (2) active_keeps)

end
