(* ===== verification/Session_Run.thy ===== *)
theory Session_Run
  imports Session_Safety
begin

section \<open>Schedules: the server as an executable function\<close>

text \<open>
  An event names the rule of \<open>server_step\<close> that fires and what the client and the backend supply;
  \<open>happen\<close> computes its effect, if it is possible. The relation and the function are the same
  (\<open>happens_iff\<close>), so a concrete course of events is a \<open>run\<close> of a list of events.
\<close>

datatype local_event =
    Pty int int | Started | Resized int int | Data_In bytes | Lost | Chan_Closing
  | Notified bytes | Feeder_Got | Feeder_Wrote bool

datatype event =
    Made sid | Alone sid local_event | Tick rat | Pump_Start sid | Pump_Opened sid open_result bool
  | Pump_Resumed sid open_result bool | Pump_Cleaned sid bool bool | Pump_Late sid "int room_result"
  | Pump_Read sid read_result | Pump_Finish sid bool | Teardown_Start sid
  | Teardown_Paused sid "kid room_result" | Teardown_Destroyed sid "int room_result"
  | Watchdog_Wake sid bool | Watchdog_Finish sid | Close_Start sid bool | Close_Finish sid
  | Close_Cancel sid | Expire_Wake kid | Expire_End kid bool | Sweep_Start string kid
  | Sweep_End kid bool

definition guard :: "bool \<Rightarrow> 'a \<Rightarrow> 'a option" where
  "guard b x = (if b then Some x else None)"

lemma guard_Some [simp]: "guard b x = Some z \<longleftrightarrow> b \<and> z = x"
  by (auto simp: guard_def)

fun happen_local :: "rat \<Rightarrow> local_event \<Rightarrow> session \<Rightarrow> session option" where
  "happen_local now (Pty w h) s = guard (connected s \<and> pump s = PNone) (pty_requested w h s)"
| "happen_local now Started s =
     guard (connected s \<and> pump s = PNone \<and> watchdog s = WNone) (session_started s)"
| "happen_local now (Resized w h) s = guard (connected s) (terminal_size_changed w h s)"
| "happen_local now (Data_In d) s = guard (connected s) (data_received now d s)"
| "happen_local now Lost s = guard (connected s) (connection_lost s)"
| "happen_local now Chan_Closing s = guard (chan s = ChanOpen) (s\<lparr>chan := ChanClosing\<rparr>)"
| "happen_local now (Notified m) s = Some (notify_shutdown m s)"
| "happen_local now Feeder_Got s = feeder_get s"
| "happen_local now (Feeder_Wrote good) s = feeder_wrote good s"

fun happen :: "event \<Rightarrow> sys \<Rightarrow> sys option" where
  "happen (Made i) y = guard (chan (sess y i) = NoChan) (connection_made i y)"
| "happen (Alone i e) y = map_option (\<lambda>s. put i s y) (happen_local (clock y) e (sess y i))"
| "happen (Tick d) y = guard (0 \<le> d) (y\<lparr>clock := clock y + d\<rparr>)"
| "happen (Pump_Start i) y = pump_start i y"
| "happen (Pump_Opened i res w) y = pump_opened i res w y"
| "happen (Pump_Resumed i res w) y = pump_resumed i res w y"
| "happen (Pump_Cleaned i good w) y = pump_cleaned i good w y"
| "happen (Pump_Late i res) y = pump_late i res y"
| "happen (Pump_Read i res) y = pump_read i res y"
| "happen (Pump_Finish i w) y = pump_finish i w y"
| "happen (Teardown_Start i) y = teardown_start i y"
| "happen (Teardown_Paused i res) y = teardown_paused i res y"
| "happen (Teardown_Destroyed i res) y = teardown_destroyed i res y"
| "happen (Watchdog_Wake i w) y = watchdog_wake i w y"
| "happen (Watchdog_Finish i) y = watchdog_finish i y"
| "happen (Close_Start i w) y = (if chan (sess y i) = NoChan then None else close_start i w y)"
| "happen (Close_Finish i) y = close_finish i y"
| "happen (Close_Cancel i) y = close_cancel i y"
| "happen (Expire_Wake k) y = expire_wake k y"
| "happen (Expire_End k good) y = expire_end k good y"
| "happen (Sweep_Start u k) y = sweep_start u k y"
| "happen (Sweep_End k good) y = sweep_end k good y"

lemma happen_local_step: "happen_local now e s = Some t \<Longrightarrow> local_step now s t"
  by (cases e) (auto intro: local_step.intros)

lemma local_step_happen: "local_step now s t \<Longrightarrow> \<exists>e. happen_local now e s = Some t"
proof (induction rule: local_step.induct)
  case (pty s w h)
  then have "happen_local now (Pty w h) s = Some (pty_requested w h s)" by simp
  then show ?case by blast
next
  case (started s)
  then have "happen_local now Started s = Some (session_started s)" by simp
  then show ?case by blast
next
  case (resized s w h)
  then have "happen_local now (Resized w h) s = Some (terminal_size_changed w h s)" by simp
  then show ?case by blast
next
  case (data s d)
  then have "happen_local now (Data_In d) s = Some (data_received now d s)" by simp
  then show ?case by blast
next
  case (lost s)
  then have "happen_local now Lost s = Some (connection_lost s)" by simp
  then show ?case by blast
next
  case (closing s)
  then have "happen_local now Chan_Closing s = Some (s\<lparr>chan := ChanClosing\<rparr>)" by simp
  then show ?case by blast
next
  case (notified s m)
  have "happen_local now (Notified m) s = Some (notify_shutdown m s)" by simp
  then show ?case by blast
next
  case (got s t)
  then have "happen_local now Feeder_Got s = Some t" by simp
  then show ?case by blast
next
  case (wrote good s t)
  then have "happen_local now (Feeder_Wrote good) s = Some t" by simp
  then show ?case by blast
qed

lemma happen_step: "happen e y = Some z \<Longrightarrow> server_step y z"
proof (cases e)
  case (Alone i ev)
  then show "happen e y = Some z \<Longrightarrow> server_step y z"
    by (auto dest: happen_local_step intro: server_step.alone)
qed (auto intro: server_step.intros split: if_splits)

theorem happens_iff: "server_step y z \<longleftrightarrow> (\<exists>e. happen e y = Some z)"
proof
  show "\<exists>e. happen e y = Some z \<Longrightarrow> server_step y z" by (auto intro: happen_step)
  have ex: "happen e y = Some z \<Longrightarrow> \<exists>e. happen e y = Some z" for e y z by blast
  show "server_step y z \<Longrightarrow> \<exists>e. happen e y = Some z"
  proof (induction rule: server_step.induct)
    case (made y i)
    then show ?case by (intro ex [of "Made i"]) simp
  next
    case (alone y i s)
    then obtain e where "happen_local (clock y) e (sess y i) = Some s" using local_step_happen by blast
    then show ?case by (intro ex [of "Alone i e"]) simp
  next
    case (tick d y)
    then show ?case by (intro ex [of "Tick d"]) simp
  next
    case (pump_start i y z)
    then show ?case by (intro ex [of "Pump_Start i"]) simp
  next
    case (pump_opened i res w y z)
    then show ?case by (intro ex [of "Pump_Opened i res w"]) simp
  next
    case (pump_resumed i res w y z)
    then show ?case by (intro ex [of "Pump_Resumed i res w"]) simp
  next
    case (pump_cleaned i good w y z)
    then show ?case by (intro ex [of "Pump_Cleaned i good w"]) simp
  next
    case (pump_late i res y z)
    then show ?case by (intro ex [of "Pump_Late i res"]) simp
  next
    case (pump_read i res y z)
    then show ?case by (intro ex [of "Pump_Read i res"]) simp
  next
    case (pump_finish i w y z)
    then show ?case by (intro ex [of "Pump_Finish i w"]) simp
  next
    case (teardown_start i y z)
    then show ?case by (intro ex [of "Teardown_Start i"]) simp
  next
    case (teardown_paused i res y z)
    then show ?case by (intro ex [of "Teardown_Paused i res"]) simp
  next
    case (teardown_destroyed i res y z)
    then show ?case by (intro ex [of "Teardown_Destroyed i res"]) simp
  next
    case (watchdog_wake i w y z)
    then show ?case by (intro ex [of "Watchdog_Wake i w"]) simp
  next
    case (watchdog_finish i y z)
    then show ?case by (intro ex [of "Watchdog_Finish i"]) simp
  next
    case (close_start y i w z)
    then show ?case by (intro ex [of "Close_Start i w"]) simp
  next
    case (close_finish i y z)
    then show ?case by (intro ex [of "Close_Finish i"]) simp
  next
    case (close_cancel i y z)
    then show ?case by (intro ex [of "Close_Cancel i"]) simp
  next
    case (expire_wake k y z)
    then show ?case by (intro ex [of "Expire_Wake k"]) simp
  next
    case (expire_end k good y z)
    then show ?case by (intro ex [of "Expire_End k good"]) simp
  next
    case (sweep_start u k y z)
    then show ?case by (intro ex [of "Sweep_Start u k"]) simp
  next
    case (sweep_end k good y z)
    then show ?case by (intro ex [of "Sweep_End k good"]) simp
  qed
qed

fun run :: "event list \<Rightarrow> sys \<Rightarrow> sys option" where
  "run [] y = Some y"
| "run (e # es) y = (case happen e y of None \<Rightarrow> None | Some z \<Rightarrow> run es z)"

lemma run_steps: "run es y = Some z \<Longrightarrow> server_step\<^sup>*\<^sup>* y z"
  by (induction es y rule: run.induct)
    (auto split: option.splits intro: converse_rtranclp_into_rtranclp happen_step)

lemma run_append: "run (es @ fs) y = (case run es y of None \<Rightarrow> None | Some z \<Rightarrow> run fs z)"
  by (induction es y rule: run.induct) (auto split: option.splits)

text \<open>A server on which every session has the same configuration.\<close>

definition plain_server :: "bool \<Rightarrow> sys" where
  "plain_server kept = init_sys (Fin 60) (\<lambda>i. new_session (mk_room ''python'' ''python'') (Fin 0) True
     ''python'' kept)"

lemma plain_new: "new_server (plain_server kept)"
  unfolding new_server_def plain_server_def by blast

lemma plain_reachable: "server_reachable (plain_server kept)"
  by (rule reachable.start) (rule plain_new)

lemma run_reachable: "run es (plain_server kept) = Some z \<Longrightarrow> server_reachable z"
  by (rule reachable_run [OF run_steps plain_reachable])

end
