(* ===== verification/Session_Props.thy ===== *)
theory Session_Props
  imports Session_Run
begin

section \<open>Properties of the session layer\<close>

subsection \<open>Rooms and their sessions\<close>

interpretation custodians: relative_invariant new_server server_step sessions_ok "\<lambda>y. custody_inv (abs_sys y)"
proof
  show "custody_inv (abs_sys y)" if "new_server y" for y
    using new_server_start [OF that] custody.starts by blast
  show "custody_inv (abs_sys z)" if "server_step y z" "sessions_ok y" "custody_inv (abs_sys y)" for y z
    using server_step_refines [OF that(1,2)] custody.along [OF _ that(3)] by (simp add: refines_def)
qed

lemma custody_facts:
  assumes "server_reachable y"
  shows "held (sess y i) = Some (r, b) \<Longrightarrow> rooms y r = RLive"
    and "rooms y r = RLive \<Longrightarrow> \<exists>i b. held (sess y i) = Some (r, b)"
    and "held (sess y i) = Some (r, b) \<Longrightarrow> held (sess y j) = Some (r, d) \<Longrightarrow> i = j"
    and "held (sess y i) = Some (r, b) \<Longrightarrow> destroys y r = (if b then 1 else 0)"
    and "rooms y r = RPaused k \<Longrightarrow> destroys y r = 0"
    and "destroys y r \<le> 1"
proof -
  note D = custody_invD [OF custodians.holds [OF assms]]
  have c: "calls (abs_sys y) = destroys y" by (simp add: abs_sys_def)
  show "held (sess y i) = Some (r, b) \<Longrightarrow> rooms y r = RLive" using D(1) [of i r b] by simp
  show "rooms y r = RLive \<Longrightarrow> \<exists>i b. held (sess y i) = Some (r, b)" using D(2) [of r] by simp
  show "held (sess y i) = Some (r, b) \<Longrightarrow> held (sess y j) = Some (r, d) \<Longrightarrow> i = j"
    using D(3) [of i r b j d] by simp
  show "held (sess y i) = Some (r, b) \<Longrightarrow> destroys y r = (if b then 1 else 0)"
    using D(4) [of i r b] c by simp
  show "rooms y r = RPaused k \<Longrightarrow> destroys y r = 0" using D(6) [of r k] c by simp
  show "destroys y r \<le> 1" using D(7) [of r] c by simp
qed

definition hello :: "event list" where
  "hello = [Made 0, Alone 0 Started, Pump_Start 0, Pump_Opened 0 (Opened 0 True) True]"

text \<open>
  Property C1. Whatever the order of callbacks, tasks, cancellations and backend answers, each
  step of the server is a sequence of steps of the custody specification: rooms are acquired
  fresh, destroyed only by their holder, and given up only once their fate is settled.
\<close>

theorem server_refines_custody:
  assumes "server_reachable y" "server_step y z"
  shows "custody_step\<^sup>*\<^sup>* (abs_sys y) (abs_sys z) \<and> custody_inv (abs_sys z)"
proof -
  have "refines y z" using server_step_refines [OF assms(2) sessions.everywhere [OF assms(1)]] .
  moreover have "server_reachable z" using assms by (rule reachable.after)
  ultimately show ?thesis using custodians.holds by (simp add: refines_def)
qed

theorem server_refines_custody_witness:
  "custody_step\<^sup>*\<^sup>* (abs_sys (plain_server True)) (abs_sys (connection_made 0 (plain_server True)))"
  using server_refines_custody [OF plain_reachable server_step.made,
      of True 0]
  by (simp add: plain_server_def init_sys_def new_session_def)

text \<open>
  Property C2. In every reachable state a room is live exactly if one session, and only one, has
  it in its hands; \<open>destroy\<close> is called at most once on any room, and never on a paused one.
\<close>

theorem live_rooms_have_one_holder:
  assumes "server_reachable y"
  shows "(rooms y r = RLive \<longleftrightarrow> (\<exists>!i. \<exists>b. held (sess y i) = Some (r, b)))
    \<and> destroys y r \<le> 1 \<and> (\<forall>k. rooms y r = RPaused k \<longrightarrow> destroys y r = 0)"
  using custody_facts [OF assms] by (metis (no_types, lifting))

theorem live_rooms_have_one_holder_witness:
  "\<exists>z. run hello (plain_server True) = Some z \<and> rooms z 0 = RLive
     \<and> (\<exists>!i. \<exists>b. held (sess z i) = Some (0, b)) \<and> destroys z 0 \<le> 1"
proof -
  have "run hello (plain_server True) \<noteq> None \<and> rooms (the (run hello (plain_server True))) 0 = RLive"
    by code_simp
  then obtain z where z: "run hello (plain_server True) = Some z" "rooms z 0 = RLive" by auto
  then show ?thesis using live_rooms_have_one_holder [OF run_reachable [OF z(1)], of 0] by blast
qed

lemma late_only:
  assumes "server_reachable y" "\<forall>i. has_active (sess y i)" "empty_event y" "rooms y r = RLive"
  shows "\<exists>i. pump (sess y i) = PLate r \<and> destroys y r = 1"
proof -
  obtain i b where h: "held (sess y i) = Some (r, b)" using custody_facts(2) [OF assms(1,4)] by blast
  have ok: "active_ok y" and u: "unborn_ok (sess y i)"
    using actives.holds [OF assms(1)] unborn.server.everywhere [OF assms(1)] by auto
  have "chan (sess y i) \<noteq> NoChan" using u h by (auto simp: unborn_ok_def held_def)
  then have f: "finished (sess y i)" using ok assms(2,3) by (auto simp: active_ok_def registered_def)
  then have "pump_holds (pump (sess y i)) = Some (r, b)"
    using h by (auto simp: finished_def teardown_over_def held_def)
  then have "pump (sess y i) = PLate r \<and> b" by (cases "pump (sess y i)") auto
  then show ?thesis using custody_facts(4) [OF assms(1) h] by auto
qed

text \<open>
  When the event the drain waits for is set, no session holds a room any more,
  except a pump that is destroying a room which opened after its session had ended: its call of
  \<open>destroy\<close> may still be running.
\<close>

theorem drained_rooms:
  assumes "server_reachable y" "\<forall>i. has_active (sess y i)" "empty_event y" "rooms y r = RLive"
  shows "\<exists>i. pump (sess y i) = PLate r \<and> destroys y r = 1"
  by (rule late_only [OF assms])

definition shut_while_opening :: "event list" where
  "shut_while_opening = [Made 0, Alone 0 Started, Pump_Start 0, Close_Start 0 True, Teardown_Start 0,
     Pump_Opened 0 (Opened 0 True) True]"

lemma plain_active: "\<forall>i. has_active (sess (plain_server kept) i)"
  by (simp add: plain_server_def init_sys_def new_session_def)

theorem drained_rooms_witness:
  "\<exists>z. run shut_while_opening (plain_server True) = Some z \<and> empty_event z \<and> rooms z 0 = RLive
     \<and> (\<exists>i. pump (sess z i) = PLate 0 \<and> destroys z 0 = 1)"
proof -
  have "run shut_while_opening (plain_server True) \<noteq> None
      \<and> empty_event (the (run shut_while_opening (plain_server True)))
      \<and> rooms (the (run shut_while_opening (plain_server True))) 0 = RLive" by code_simp
  then obtain z where z: "run shut_while_opening (plain_server True) = Some z" "empty_event z"
    "rooms z 0 = RLive" by auto
  have "\<forall>i. has_active (sess z i)"
    using steps_has_active [OF run_steps [OF z(1)]] plain_active by simp
  then show ?thesis using z drained_rooms [OF run_reachable [OF z(1)], of 0] by blast
qed

lemma rooms_same:
  "pump_cleaned i good w y = Some z \<Longrightarrow> rooms z = rooms y"
  "pump_finish i w y = Some z \<Longrightarrow> rooms z = rooms y"
  "watchdog_wake i w y = Some z \<Longrightarrow> rooms z = rooms y"
  "watchdog_finish i y = Some z \<Longrightarrow> rooms z = rooms y"
  "close_start i w y = Some z \<Longrightarrow> rooms z = rooms y"
  "close_finish i y = Some z \<Longrightarrow> rooms z = rooms y"
  "close_cancel i y = Some z \<Longrightarrow> rooms z = rooms y"
  "expire_wake k y = Some z \<Longrightarrow> rooms z = rooms y"
  "expire_end k good y = Some z \<Longrightarrow> rooms z = rooms y"
  "sweep_start u k y = Some z \<Longrightarrow> rooms z = rooms y"
  "sweep_end k good y = Some z \<Longrightarrow> rooms z = rooms y"
  by (auto simp: pump_cleaned_def pump_finish_def Let_def split: if_splits pump_pc.splits)
    (auto simp: watchdog_wake_def watchdog_finish_def close_start_def close_finish_def
      close_cancel_def Let_def expire_wake_def expire_end_def sweep_start_def sweep_end_def
      split: if_splits expire_pc.splits)

lemma rooms_made [simp]: "rooms (connection_made i y) = rooms y"
  by (simp add: connection_made_def Let_def)

lemma paused_by:
  assumes "server_step y z" "rooms y r = RLive" "rooms z r = RPaused k"
  shows "\<exists>i. teardown (sess y i) = TPausing r \<and> sess z i = (sess y i)\<lparr>teardown := TDone\<rparr>"
  using assms
proof (cases rule: server_step.cases)
  case (teardown_paused i res)
  then show ?thesis using assms(2,3)
    by (cases res) (auto simp: teardown_paused_def Let_def split: teardown_pc.splits if_splits)
next
  case (pump_opened i res w)
  then show ?thesis using assms(2,3)
    by (induction i res w y rule: pump_opened.induct)
      (auto simp: Let_def pump_attached_def split: if_splits)
next
  case (pump_resumed i res w)
  then show ?thesis using assms(2,3)
    by (induction i res w y rule: pump_resumed.induct)
      (auto simp: Let_def pump_attached_def split: if_splits pump_pc.splits)
next
  case (pump_late i res)
  then show ?thesis using assms(2,3) checkout_room_cases [of res]
    by (cases res) (auto simp: pump_late_def Let_def split: if_splits pump_pc.splits)
next
  case (teardown_destroyed i res)
  then show ?thesis using assms(2,3) checkout_room_cases [of res]
    by (cases res) (auto simp: teardown_destroyed_def Let_def split: if_splits teardown_pc.splits)
next
  case (pump_start i)
  then show ?thesis using assms(2,3)
    by (auto simp: pump_start_def Let_def dest: kept_take_frame split: if_splits prod.splits option.splits)
next
  case (pump_read i res)
  then show ?thesis using assms(2,3)
    by (cases res) (auto simp: pump_read_def Let_def split: if_splits pump_pc.splits)
next
  case (teardown_start i)
  then show ?thesis using assms(2,3)
    by (auto simp: teardown_start_def Let_def split: if_splits teardown_pc.splits option.splits)
qed (use assms(2,3) in \<open>auto dest: rooms_same\<close>)

text \<open>
  Property C13. A room is paused only while the session that holds it tears down after its
  connection was lost, with a registry of kept rooms, and only if the room was not destroyed
  before: a typed exit, the idle reaper and a shutdown never pause one on their own.
\<close>

theorem pausing_needs_hangup:
  assumes "server_reachable y" "server_step y z" "rooms y r = RLive" "rooms z r = RPaused k"
  shows "\<exists>i. held (sess y i) = Some (r, False) \<and> hung_up (sess y i) \<and> has_kept (sess y i)
    \<and> destroys y r = 0 \<and> destroys z r = 0"
proof -
  obtain i where tr: "teardown (sess y i) = TPausing r" using paused_by [OF assms(2-4)] by blast
  have "pause_ok (sess y i)" "keep_ok (sess y i)" "session_ok (sess y i)"
    using pause.server.everywhere [OF assms(1)] keep.server.everywhere [OF assms(1)]
      ok_get [OF sessions.everywhere [OF assms(1)]] by auto
  then have "hung_up (sess y i) \<and> has_kept (sess y i)" "held (sess y i) = Some (r, False)"
    using tr by (auto simp: pause_ok_def keep_ok_def session_ok_def held_def)
  then show ?thesis
    using custody_facts(4) [OF assms(1)] custody_facts(5) [OF reachable.after [OF assms(1,2)] assms(4)]
    by fastforce
qed

definition hang_up :: "event list" where
  "hang_up = hello @ [Alone 0 Lost, Pump_Read 0 Ended, Teardown_Start 0]"

theorem pausing_needs_hangup_witness:
  "\<exists>y z i. run hang_up (plain_server True) = Some y \<and> happen (Teardown_Paused 0 (Returned 5)) y = Some z
     \<and> rooms z 0 = RPaused 5 \<and> held (sess y i) = Some (0, False) \<and> hung_up (sess y i)"
proof -
  let ?y = "the (run hang_up (plain_server True))"
  let ?z = "the (happen (Teardown_Paused 0 (Returned 5)) ?y)"
  have "run hang_up (plain_server True) \<noteq> None \<and> happen (Teardown_Paused 0 (Returned 5)) ?y \<noteq> None
      \<and> rooms ?y 0 = RLive \<and> rooms ?z 0 = RPaused 5" by code_simp
  then obtain y z where y: "run hang_up (plain_server True) = Some y"
    "happen (Teardown_Paused 0 (Returned 5)) y = Some z" "rooms y 0 = RLive" "rooms z 0 = RPaused 5" by auto
  show ?thesis using y pausing_needs_hangup [OF run_reachable [OF y(1)] happen_step [OF y(2)] y(3,4)] by blast
qed

end
