(* ===== verification/Session_Outcomes.thy ===== *)
theory Session_Outcomes
  imports Session_Props
begin

section \<open>How sessions end, and what reaches the room\<close>

text \<open>
  Input in order, a typed exit from beginning to end, and what a cancellation does to a teardown
  that has not started.
\<close>


definition typing :: "event list" where
  "typing = [Made 0, Alone 0 Started, Alone 0 (Data_In ''ls''), Pump_Start 0, Alone 0 (Data_In ''pwd''),
     Pump_Opened 0 (Opened 0 True) True, Alone 0 Feeder_Got, Alone 0 Feeder_Got, Alone 0 (Feeder_Wrote True),
     Alone 0 Feeder_Got]"


definition exit_run :: "sid \<Rightarrow> int room_result \<Rightarrow> event list" where
  "exit_run i res = [Pump_Read i Ended, Teardown_Start i, Teardown_Destroyed i res, Pump_Finish i True]"

text \<open>
  Property C20. A typed exit: when the read of the room comes back empty and nothing else has
  ended the session, the room is destroyed (one call), the session leaves the registry, and the
  client sees the goodbye and the shell's exit status, or status 1 if the destruction failed.
\<close>

theorem typed_exit:
  assumes s: "pump (sess y i) = PReading r" "room (sess y i) = Some r" "teardown (sess y i) = TNone"
      "\<not> tcancel (sess y i)" "chan (sess y i) = ChanOpen" "has_active (sess y i)"
    and res: "res = Raised \<or> res = Returned st"
  shows "\<exists>z. run (exit_run i res) y = Some z \<and> rooms z r = checkout_room res
    \<and> destroys z r = Suc (destroys y r) \<and> i \<notin> active z \<and> pump (sess z i) = PDone
    \<and> out (sess z i) = out (sess y i) @ [OWrite (destroyed ''checked out''), OExit (checkout_status res)]"
  using s res
  by (auto simp: exit_run_def pump_read_def pump_finally_def begin_teardown_def teardown_start_def
      teardown_destroyed_def pump_finish_def goodbye_def open_chan_def stop_feeder_def emit_def Let_def
      release_def active_discard_def put_def set_room_def count_destroy_def)

theorem typed_exit_witness:
  "\<exists>y z. run hello (plain_server True) = Some y \<and> run (exit_run 0 (Returned 3)) y = Some z
     \<and> rooms z 0 = RDestroyed \<and> last (out (sess z 0)) = OExit 3 \<and> 0 \<notin> active z"
proof -
  let ?y = "the (run hello (plain_server True))"
  have "run hello (plain_server True) \<noteq> None \<and> pump (sess ?y 0) = PReading 0 \<and> room (sess ?y 0) = Some 0
      \<and> teardown (sess ?y 0) = TNone \<and> \<not> tcancel (sess ?y 0) \<and> chan (sess ?y 0) = ChanOpen
      \<and> has_active (sess ?y 0)" by code_simp
  then obtain y where y: "run hello (plain_server True) = Some y" "pump (sess y 0) = PReading 0"
    "room (sess y 0) = Some 0" "teardown (sess y 0) = TNone" "\<not> tcancel (sess y 0)"
    "chan (sess y 0) = ChanOpen" "has_active (sess y 0)" by auto
  obtain z where "run (exit_run 0 (Returned 3)) y = Some z" "rooms z 0 = checkout_room (Returned 3)"
    "0 \<notin> active z"
    "out (sess z 0) = out (sess y 0) @ [OWrite (destroyed ''checked out''), OExit (checkout_status (Returned 3))]"
    using typed_exit [OF y(2-7), of "Returned 3" 3] by auto
  then show ?thesis using y(1) by auto
qed

subsection \<open>A teardown that is cancelled before it starts\<close>

definition stuck :: "rid \<Rightarrow> session \<Rightarrow> bool" where
  "stuck r s \<longleftrightarrow> teardown s = TCancelled \<and> room s = Some r \<and> \<not> early (pump s)"

lemma local_stuck: "local_step now s t \<Longrightarrow> stuck r s \<Longrightarrow> stuck r t"
  by (induction rule: local_step.induct)
    (auto simp: stuck_def life_defs split: option.splits feeder_pc.splits list.splits if_splits)

lemma change_stuck: "session_change s t \<Longrightarrow> stuck r s \<Longrightarrow> stuck r t"
proof (induction rule: session_change.induct)
  case (alone now s t)
  then show ?case by (simp add: local_stuck)
qed (auto simp: stuck_def life_defs goodbye_def split: option.splits)

lemma step_stuck: "server_step y z \<Longrightarrow> stuck r (sess y i) \<Longrightarrow> stuck r (sess z i)"
proof -
  assume "server_step y z" and s: "stuck r (sess y i)"
  then consider "changes y z" | j where "z = connection_made j y"
    using server_step_change by blast
  then show "stuck r (sess z i)"
  proof cases
    case 1
    then show ?thesis using s change_stuck by (cases rule: changes_cases [where i = i]) auto
  next
    case 2
    then show ?thesis using s by (auto simp: stuck_def)
  qed
qed

lemma run_stuck: "server_step\<^sup>*\<^sup>* y z \<Longrightarrow> stuck r (sess y i) \<Longrightarrow> stuck r (sess z i)"
  by (induction rule: rtranclp_induct) (auto intro: step_stuck)

lemma stuck_leaks:
  assumes "server_reachable y" "teardown (sess y i) = TCancelled" "room (sess y i) = Some r"
    "has_active (sess y i)" "server_step\<^sup>*\<^sup>* y z"
  shows "rooms z r = RLive \<and> destroys z r = 0 \<and> room (sess z i) = Some r \<and> i \<in> active z \<and> \<not> empty_event z"
proof -
  have "session_ok (sess y i)" using sessions.everywhere [OF assms(1)] by (rule ok_get)
  then have "stuck r (sess y i)" using assms(2,3) by (auto simp: stuck_def session_ok_def)
  then have st: "stuck r (sess z i)" by (rule run_stuck [OF assms(5)])
  have rz: "server_reachable z" using reachable_run [OF assms(5,1)] .
  have h: "held (sess z i) = Some (r, False)" using st by (simp add: stuck_def held_def)
  have "has_active (sess z i) = has_active (sess y i)" using assms(5) by (rule steps_has_active)
  moreover have "chan (sess z i) \<noteq> NoChan"
    using unborn.server.everywhere [OF rz] st by (auto simp: unborn_ok_def stuck_def)
  moreover have "\<not> finished (sess z i)" using st by (simp add: finished_def stuck_def)
  moreover have ok: "active_ok z" using actives.holds [OF rz] .
  ultimately have "i \<in> active z" using assms(4) by (auto simp: active_ok_def registered_def)
  then show ?thesis using st ok custody_facts(1,4) [OF rz h] by (auto simp: stuck_def active_ok_def)
qed

text \<open>
  Property C12. If the teardown task is cancelled before it has run, the room is never destroyed
  and the session never leaves the registry, whatever happens next: the cancellation of a pump
  or watchdog that awaits the task reaches the task itself, which nothing shields.
\<close>

theorem cancelled_teardown_leaks:
  assumes "server_reachable y" "teardown (sess y i) = TCancelled" "room (sess y i) = Some r"
    "has_active (sess y i)" "server_step\<^sup>*\<^sup>* y z"
  shows "rooms z r = RLive \<and> destroys z r = 0 \<and> room (sess z i) = Some r \<and> i \<in> active z \<and> \<not> empty_event z"
  using assms by (rule stuck_leaks)

definition exit_then_drop :: "event list" where
  "exit_then_drop = hello @ [Pump_Read 0 Ended, Alone 0 Lost, Teardown_Start 0]"

theorem cancelled_teardown_leaks_witness:
  "\<exists>y. run exit_then_drop (plain_server True) = Some y
     \<and> (\<forall>z. server_step\<^sup>*\<^sup>* y z \<longrightarrow> rooms z 0 = RLive \<and> \<not> empty_event z)"
proof -
  let ?y = "the (run exit_then_drop (plain_server True))"
  have "run exit_then_drop (plain_server True) \<noteq> None \<and> teardown (sess ?y 0) = TCancelled
      \<and> room (sess ?y 0) = Some 0 \<and> has_active (sess ?y 0)" by code_simp
  then obtain y where y: "run exit_then_drop (plain_server True) = Some y" "teardown (sess y 0) = TCancelled"
    "room (sess y 0) = Some 0" "has_active (sess y 0)" by auto
  show ?thesis using y cancelled_teardown_leaks [OF run_reachable [OF y(1)] y(2-4)] by blast
qed

end
