(* ===== verification/Session_Kept.thy ===== *)
theory Session_Kept
  imports Session_Outcomes
begin

section \<open>Where a kept room is\<close>

text \<open>
  A paused room is a handle in one of five places: stored under a username, claimed by the pump
  that resumes it or cleans it up, being destroyed by its expiry, being destroyed by the sweep at
  shutdown, or lost: paused, and known to nobody. The invariant says that it is in exactly one.
\<close>

datatype place = Stored string | Claimed sid | Expiring | Swept | Forgotten

fun claims :: "pump_pc \<Rightarrow> kid option" where
  "claims (PResuming k) = Some k"
| "claims (PCleanup k) = Some k"
| "claims other = None"

fun placed :: "sys \<Rightarrow> kid \<Rightarrow> place \<Rightarrow> bool" where
  "placed y k (Stored u) = (dget (by_username y) u = Some k)"
| "placed y k (Claimed i) = (claims (pump (sess y i)) = Some k)"
| "placed y k Expiring = (expiry y k = EDestroying)"
| "placed y k Swept = (k \<in> sweeping y)"
| "placed y k Forgotten = (k \<in> lost_kept y)"

definition kept_ok :: "sys \<Rightarrow> bool" where
  "kept_ok y \<longleftrightarrow> (\<forall>k. if kepts y k = KPaused then \<exists>p. \<forall>q. placed y k q \<longleftrightarrow> q = p
     else \<forall>q. \<not> placed y k q)"

lemma kept_ok_place: "kept_ok y \<Longrightarrow> placed y k p \<Longrightarrow> placed y k q \<longleftrightarrow> q = p"
  unfolding kept_ok_def by metis

lemma kept_ok_paused: "kept_ok y \<Longrightarrow> placed y k p \<Longrightarrow> kepts y k = KPaused"
  unfolding kept_ok_def by metis

lemma kept_ok_same:
  "kept_ok y \<Longrightarrow> (\<And>k p. placed z k p = placed y k p) \<Longrightarrow> kepts z = kepts y \<Longrightarrow> kept_ok z"
  by (simp add: kept_ok_def)

text \<open>The three ways a place changes: a handle moves, is used up, or is new.\<close>

lemma kept_ok_move:
  assumes ok: "kept_ok y" and k: "placed y k p0"
    and z: "\<And>j p. placed z j p \<longleftrightarrow> (if j = k then p = p1 else placed y j p)" "kepts z = kepts y"
  shows "kept_ok z"
  unfolding kept_ok_def
proof
  fix j
  show "if kepts z j = KPaused then \<exists>p. \<forall>q. placed z j q \<longleftrightarrow> q = p else \<forall>q. \<not> placed z j q"
    using ok kept_ok_paused [OF ok k] z by (cases "j = k") (auto simp: kept_ok_def)
qed

lemma kept_ok_use:
  assumes ok: "kept_ok y" and z: "\<And>j p. placed z j p \<longleftrightarrow> j \<noteq> k \<and> placed y j p"
    and kz: "kepts z = (kepts y)(k := v)" "v \<noteq> KPaused"
  shows "kept_ok z"
  unfolding kept_ok_def
proof
  fix j
  show "if kepts z j = KPaused then \<exists>p. \<forall>q. placed z j q \<longleftrightarrow> q = p else \<forall>q. \<not> placed z j q"
    using ok z kz by (cases "j = k") (auto simp: kept_ok_def)
qed

lemma kept_ok_add:
  assumes ok: "kept_ok y" and z: "\<And>j p. placed z j p \<longleftrightarrow> (if j = k then p = p1 else placed y j p)"
    and kz: "kepts z = (kepts y)(k := KPaused)"
  shows "kept_ok z"
  unfolding kept_ok_def
proof
  fix j
  show "if kepts z j = KPaused then \<exists>p. \<forall>q. placed z j q \<longleftrightarrow> q = p else \<forall>q. \<not> placed z j q"
    using ok z kz by (cases "j = k") (auto simp: kept_ok_def)
qed

subsection \<open>Steps that leave the registry alone\<close>

definition aside :: "sys \<Rightarrow> sys \<Rightarrow> bool" where
  "aside y z \<longleftrightarrow> by_username z = by_username y \<and> expiry z = expiry y \<and> sweeping z = sweeping y
     \<and> lost_kept z = lost_kept y \<and> kepts z = kepts y
     \<and> (\<forall>i. claims (pump (sess z i)) = claims (pump (sess y i)))"

lemma aside_ok: "aside y z \<Longrightarrow> kept_ok y \<Longrightarrow> kept_ok z"
proof (erule kept_ok_same)
  fix k p
  show "aside y z \<Longrightarrow> placed z k p = placed y k p" by (cases p) (auto simp: aside_def)
qed (simp add: aside_def)

lemma aside_put: "claims (pump s) = claims (pump (sess y i)) \<Longrightarrow> aside y (put i s y)"
  by (simp add: aside_def put_def)

lemma aside_frame [simp]:
  "aside y (set_room r v z) = aside y z" "aside y (count_destroy r z) = aside y z"
  "aside y (new_room r cp z) = aside y z" "aside y (release i z) = aside y z"
  "aside y (active_add i z) = aside y z"
  by (simp_all add: aside_def set_room_def count_destroy_def new_room_def release_def
      active_discard_def active_add_def Let_def)

lemma local_claims: "local_step now s t \<Longrightarrow> claims (pump t) = claims (pump s)"
  by (induction rule: local_step.induct)
    (auto simp: life_defs split: option.splits feeder_pc.splits list.splits if_splits)

lemma aside_pump:
  "pump_late i res y = Some z \<Longrightarrow> aside y z"
  "pump_read i rd y = Some z \<Longrightarrow> aside y z"
  "pump_finish i w y = Some z \<Longrightarrow> aside y z"
proof -
  show "pump_late i res y = Some z \<Longrightarrow> aside y z"
    by (cases res) (auto simp: pump_late_def Let_def split: if_splits pump_pc.splits intro!: aside_put)
  show "pump_read i rd y = Some z \<Longrightarrow> aside y z"
    by (cases rd) (auto simp: pump_read_def pump_finally_def Let_def split: if_splits pump_pc.splits
        intro!: aside_put)
  show "pump_finish i w y = Some z \<Longrightarrow> aside y z"
    by (auto simp: pump_finish_def Let_def split: if_splits pump_pc.splits intro!: aside_put)
qed

lemma aside_attached:
  "claims (pump (sess x i)) = None \<Longrightarrow> aside x (pump_attached i r g w x)"
  by (auto simp: pump_attached_def Let_def intro!: aside_put)

lemma aside_opened: "pump_opened i res w y = Some z \<Longrightarrow> aside y z"
proof (induction i res w y rule: pump_opened.induct)
  case (1 i r cp w y)
  then have "z = pump_attached i r (accepted (rc_name (room_cfg (sess y i))) (rc_image (room_cfg (sess y i)))) w
      (new_room r cp y)" "pump (sess y i) = POpening" by (auto simp: Let_def split: if_splits)
  then have "aside (new_room r cp y) z" using aside_attached [of "new_room r cp y" i] by simp
  then show ?case by (simp add: aside_def new_room_def set_room_def)
qed (auto simp: Let_def split: if_splits intro!: aside_put)

lemma aside_teardown:
  "teardown_start i y = Some z \<Longrightarrow> aside y z"
  "teardown_destroyed i res1 y = Some z \<Longrightarrow> aside y z"
proof -
  show "teardown_start i y = Some z \<Longrightarrow> aside y z"
    by (auto simp: teardown_start_def Let_def split: if_splits teardown_pc.splits option.splits
        intro!: aside_put)
  show "teardown_destroyed i res1 y = Some z \<Longrightarrow> aside y z"
    by (cases res1) (auto simp: teardown_destroyed_def Let_def split: if_splits teardown_pc.splits
        intro!: aside_put)
qed

lemma aside_others:
  "watchdog_wake i w y = Some z \<Longrightarrow> aside y z"
  "watchdog_finish i y = Some z \<Longrightarrow> aside y z"
  "close_start i w y = Some z \<Longrightarrow> aside y z"
  "close_finish i y = Some z \<Longrightarrow> aside y z"
  "close_cancel i y = Some z \<Longrightarrow> aside y z"
  by (auto simp: watchdog_wake_def watchdog_finish_def close_start_def close_finish_def
      close_cancel_def Let_def split: if_splits intro!: aside_put)

subsection \<open>Steps that move a handle\<close>

lemma registry_put [simp]:
  "placed (put i s y) k (Stored u) = placed y k (Stored u)" "placed (put i s y) k Expiring = placed y k Expiring"
  "placed (put i s y) k Swept = placed y k Swept" "placed (put i s y) k Forgotten = placed y k Forgotten"
  "kepts (put i s y) = kepts y"
  by (simp_all add: put_def)

lemma kepts_frame [simp]:
  "kepts (set_room r v y) = kepts y" "kepts (count_destroy r y) = kepts y"
  "kepts (new_room r cp y) = kepts y" "kepts (release i y) = kepts y"
  "kepts (set_kept j v' y) = (kepts y)(j := v')" "kepts (set_expiry j e y) = kepts y"
  "kepts (lose_kept j y) = kepts y"
  by (simp_all add: set_room_def count_destroy_def new_room_def release_def active_discard_def
      set_kept_def set_expiry_def lose_kept_def Let_def)

lemma placed_room [simp]: "placed (set_room r v y) k p = placed y k p"
  by (cases p) (simp_all add: set_room_def)

lemma placed_count [simp]: "placed (count_destroy r y) k p = placed y k p"
  by (cases p) (simp_all add: count_destroy_def)

lemma placed_new [simp]: "placed (new_room r cp y) k p = placed y k p"
  by (cases p) (simp_all add: new_room_def set_room_def)

lemma placed_release [simp]: "placed (release i y) k p = placed y k p"
  by (cases p) (simp_all add: release_def active_discard_def Let_def)

lemma placed_kept [simp]: "placed (set_kept j v' y) k p = placed y k p"
  by (cases p) (simp_all add: set_kept_def)

lemma kept_take_ok:
  assumes ok: "kept_ok y" and pc: "pump (sess y i) = PReady" and take: "kept_take u y = (ko, x)"
    and t: "claims (pump t) = ko"
  shows "kept_ok (put i t x)"
proof -
  have x: "x = y\<lparr>by_username := ddel u (by_username y)\<rparr>" and ko: "ko = dget (by_username y) u"
    using take by (auto simp: kept_take_def)
  show ?thesis
  proof (cases ko)
    case None
    have "placed (put i t x) j p = placed y j p" for j p
      using t ko pc None by (cases p) (auto simp: x put_def split: if_splits)
    then show ?thesis by (rule kept_ok_same [OF ok]) (simp add: x)
  next
    case (Some k)
    then have k: "placed y k (Stored u)" using ko by simp
    have "placed (put i t x) j p \<longleftrightarrow> (if j = k then p = Claimed i else placed y j p)" for j p
      using kept_ok_place [OF ok k, of p] t Some ko pc
      by (cases p) (auto simp: x put_def split: if_splits)
    then show ?thesis by (rule kept_ok_move [OF ok k]) (simp add: x put_def)
  qed
qed

lemma kept_pump_start: "pump_start i y = Some z \<Longrightarrow> kept_ok y \<Longrightarrow> kept_ok z"
proof -
  assume z: "pump_start i y = Some z" and ok: "kept_ok y"
  let ?s = "sess y i"
  consider (plain) p where "z = put i (?s\<lparr>pump := p\<rparr>) y" "claims p = None" "pump ?s = PReady"
    | (taken) ko x p where "kept_take (username ?s) y = (ko, x)" "z = put i (?s\<lparr>pump := p\<rparr>) x"
        "claims p = ko" "pump ?s = PReady"
    using z by (auto simp: pump_start_def Let_def split: if_splits prod.splits option.splits)
  then show "kept_ok z"
  proof cases
    case plain
    then show ?thesis using ok by (auto intro!: aside_ok [OF _ ok] aside_put)
  next
    case taken
    then show ?thesis using kept_take_ok [OF ok] by simp
  qed
qed

lemma claim_moves:
  assumes ok: "kept_ok y" and pc: "claims (pump (sess y i)) = Some k" and t: "claims (pump t) = None"
  shows "kept_ok (lose_kept k (put i t y))" "kept_ok (set_kept k KResumed (put i t y))"
    "kept_ok (destroy_kept_result k good (put i t y))"
proof -
  have k: "placed y k (Claimed i)" using pc by simp
  have gone: "placed (put i t y) j p \<longleftrightarrow> j \<noteq> k \<and> placed y j p" for j p
    using kept_ok_place [OF ok k, of p] t pc by (cases p) (auto simp: put_def split: if_splits)
  have lost: "placed (lose_kept k (put i t y)) j p \<longleftrightarrow> (if j = k then p = Forgotten else placed y j p)" for j p
    using gone [of j p] by (cases p) (auto simp: lose_kept_def)
  show l: "kept_ok (lose_kept k (put i t y))" by (rule kept_ok_move [OF ok k lost]) simp
  show "kept_ok (set_kept k KResumed (put i t y))"
    by (rule kept_ok_use [OF ok, of _ k KResumed]) (use gone in auto)
  have "kept_ok (set_kept k KDestroyed (put i t y))"
    by (rule kept_ok_use [OF ok, of _ k KDestroyed]) (use gone in auto)
  then show "kept_ok (destroy_kept_result k good (put i t y))"
    using l by (simp add: destroy_kept_result_def)
qed

lemma kept_resumed: "pump_resumed i res w y = Some z \<Longrightarrow> kept_ok y \<Longrightarrow> kept_ok z"
proof (induction i res w y rule: pump_resumed.induct)
  case (1 i r cp w y)
  let ?s = "sess y i"
  from 1(1) obtain k where pc: "pump ?s = PResuming k"
    and z: "z = pump_attached i r (resumed (rc_name (room_cfg ?s)) (rc_image (room_cfg ?s))) w
              (set_kept k KResumed (new_room r cp y))"
    by (auto simp: Let_def split: if_splits pump_pc.splits)
  have "kept_ok (set_kept k KResumed (put i (?s\<lparr>pump := PDone\<rparr>) y))"
    using claim_moves(2) [OF 1(2), of i k "?s\<lparr>pump := PDone\<rparr>"] pc by simp
  moreover have "aside (set_kept k KResumed (put i (?s\<lparr>pump := PDone\<rparr>) y)) z"
    by (auto simp: z pump_attached_def Let_def aside_def put_def set_kept_def new_room_def set_room_def
        count_destroy_def emit_def)
  ultimately show ?case by (rule aside_ok [rotated])
next
  case (2 i w y)
  from 2(1) obtain k where pc: "pump (sess y i) = PResuming k"
    and z: "z = put i ((sess y i)\<lparr>pump := PCleanup k\<rparr>) y"
    by (auto simp: Let_def split: if_splits pump_pc.splits)
  then have "aside y z" by (auto intro: aside_put)
  then show ?case using 2(2) by (rule aside_ok)
next
  case (3 i ro w y)
  then show ?case
    by (auto simp: Let_def split: if_splits pump_pc.splits intro!: claim_moves)
qed

lemma kept_cleaned: "pump_cleaned i good w y = Some z \<Longrightarrow> kept_ok y \<Longrightarrow> kept_ok z"
  by (auto simp: pump_cleaned_def Let_def split: if_splits pump_pc.splits intro!: claim_moves)

lemma placed_lose: "placed (lose_kept k y) j p \<longleftrightarrow> placed y j p \<or> (j = k \<and> p = Forgotten)"
  by (cases p) (auto simp: lose_kept_def)

lemma kept_displaced:
  assumes "kept_ok y"
  shows "kept_ok ((displaced u y)\<lparr>by_username := ddel u (by_username y)\<rparr>)"
proof (cases "dget (by_username y) u")
  case None
  have "placed ((displaced u y)\<lparr>by_username := ddel u (by_username y)\<rparr>) j p = placed y j p" for j p
    using None by (cases p) (auto simp: displaced_def)
  then show ?thesis by (rule kept_ok_same [OF assms]) (simp add: displaced_def None)
next
  case (Some old)
  then have k: "placed y old (Stored u)" by simp
  have "placed ((displaced u y)\<lparr>by_username := ddel u (by_username y)\<rparr>) j p
      \<longleftrightarrow> (if j = old then p = Forgotten else placed y j p)" for j p
    using kept_ok_place [OF assms k, of p] Some
    by (cases p) (auto simp: displaced_def lose_kept_def)
  then show ?thesis by (rule kept_ok_move [OF assms k]) (simp add: displaced_def Some)
qed

lemma kept_store_ok:
  assumes ok: "kept_ok y" and fresh: "kepts y k = KFresh"
  shows "kept_ok (kept_store u k (set_kept k KPaused y))"
proof (rule kept_ok_add [OF kept_displaced [OF ok, of u]])
  have none: "\<not> placed y k p" for p using ok fresh by (auto simp: kept_ok_def)
  note none [of "Stored v" for v] none [of "Claimed j" for j] none [of Expiring] none [of Swept] none [of Forgotten]
  then show "placed (kept_store u k (set_kept k KPaused y)) j p \<longleftrightarrow> (if j = k then p = Stored u
      else placed ((displaced u y)\<lparr>by_username := ddel u (by_username y)\<rparr>) j p)" for j p
    by (cases p) (auto simp: kept_store_def displaced_def Let_def lose_kept_def set_expiry_def set_kept_def
        split: option.splits)
  show "kepts (kept_store u k (set_kept k KPaused y))
      = (kepts ((displaced u y)\<lparr>by_username := ddel u (by_username y)\<rparr>))(k := KPaused)"
    by (auto simp: kept_store_def displaced_def Let_def lose_kept_def set_expiry_def set_kept_def
        split: option.splits)
qed

lemma aside_paused:
  "teardown_paused i res y = Some z \<Longrightarrow> (\<forall>k. res \<noteq> Returned k) \<Longrightarrow> aside y z"
  by (cases res) (auto simp: teardown_paused_def Let_def split: if_splits teardown_pc.splits
      intro!: aside_put)

lemma kept_paused: "teardown_paused i res y = Some z \<Longrightarrow> kept_ok y \<Longrightarrow> kept_ok z"
proof (cases res)
  case (Returned k)
  assume z: "teardown_paused i res y = Some z" and ok: "kept_ok y"
  from z Returned obtain r where fresh: "kepts y k = KFresh"
    and z: "z = release i (put i ((sess y i)\<lparr>teardown := TDone\<rparr>)
       (kept_store (username (sess y i)) k (set_kept k KPaused (set_room r (RPaused k) y))))"
    by (auto simp: teardown_paused_def Let_def split: if_splits teardown_pc.splits)
  have "kept_ok (set_room r (RPaused k) y)" by (rule kept_ok_same [OF ok]) auto
  then have "kept_ok (kept_store (username (sess y i)) k (set_kept k KPaused (set_room r (RPaused k) y)))"
    using fresh by (intro kept_store_ok) auto
  moreover have "aside (kept_store (username (sess y i)) k (set_kept k KPaused (set_room r (RPaused k) y))) z"
    by (auto simp: z intro!: aside_put)
  ultimately show "kept_ok z" by (rule aside_ok [rotated])
qed (auto dest: aside_paused intro: aside_ok)

lemma used_or_lost:
  assumes ok: "kept_ok y" and k: "placed y k p0"
    and x: "\<And>j p. placed x j p \<longleftrightarrow> j \<noteq> k \<and> placed y j p" "kepts x = kepts y"
  shows "kept_ok (destroy_kept_result k good x)"
proof (cases good)
  case True
  then show ?thesis
    using x by (auto simp: destroy_kept_result_def intro!: kept_ok_use [OF ok, of _ k KDestroyed])
next
  case False
  have "placed (lose_kept k x) j p \<longleftrightarrow> (if j = k then p = Forgotten else placed y j p)" for j p
    using x(1) [of j p] by (auto simp: placed_lose)
  from kept_ok_move [OF ok k this] show ?thesis using False x(2) by (simp add: destroy_kept_result_def)
qed

lemma kept_expire_wake: "expire_wake k y = Some z \<Longrightarrow> kept_ok y \<Longrightarrow> kept_ok z"
proof -
  assume z: "expire_wake k y = Some z" and ok: "kept_ok y"
  then obtain u where e: "expiry y k = ESleep u" by (auto simp: expire_wake_def split: expire_pc.splits)
  show "kept_ok z"
  proof (cases "dget (by_username y) u = Some k")
    case True
    then have k: "placed y k (Stored u)" by simp
    have zz: "z = set_expiry k EDestroying (y\<lparr>by_username := ddel u (by_username y)\<rparr>)"
      using z e True by (simp add: expire_wake_def)
    have "placed z j p \<longleftrightarrow> (if j = k then p = Expiring else placed y j p)" for j p
      using kept_ok_place [OF ok k, of p] True by (cases p) (auto simp: zz set_expiry_def)
    then show ?thesis by (rule kept_ok_move [OF ok k]) (simp add: zz)
  next
    case False
    have zz: "z = set_expiry k EDone y" using z e False by (simp add: expire_wake_def)
    have "placed z j p = placed y j p" for j p
      using e by (cases p) (auto simp: zz set_expiry_def)
    then show ?thesis by (rule kept_ok_same [OF ok]) (simp add: zz)
  qed
qed

lemma kept_expire_end: "expire_end k good y = Some z \<Longrightarrow> kept_ok y \<Longrightarrow> kept_ok z"
proof -
  assume z: "expire_end k good y = Some z" and ok: "kept_ok y"
  then have e: "placed y k Expiring" by (simp add: expire_end_def split: if_splits)
  have zz: "z = set_expiry k EDone (destroy_kept_result k good y)"
    using z by (simp add: expire_end_def split: if_splits)
  have "placed (set_expiry k EDone y) j p \<longleftrightarrow> j \<noteq> k \<and> placed y j p" for j p
    using kept_ok_place [OF ok e, of p] by (cases p) (auto simp: set_expiry_def)
  then have "kept_ok (destroy_kept_result k good (set_expiry k EDone y))"
    by (rule used_or_lost [OF ok e]) simp
  moreover have "z = destroy_kept_result k good (set_expiry k EDone y)"
    by (simp add: zz destroy_kept_result_def set_kept_def lose_kept_def set_expiry_def)
  ultimately show "kept_ok z" by simp
qed

lemma kept_sweep_start: "sweep_start u k y = Some z \<Longrightarrow> kept_ok y \<Longrightarrow> kept_ok z"
proof -
  assume z: "sweep_start u k y = Some z" and ok: "kept_ok y"
  then have k: "placed y k (Stored u)" by (simp add: sweep_start_def split: if_splits)
  have zz: "z = y\<lparr>by_username := ddel u (by_username y), sweeping := insert k (sweeping y)\<rparr>"
    using z by (simp add: sweep_start_def split: if_splits)
  have "placed z j p \<longleftrightarrow> (if j = k then p = Swept else placed y j p)" for j p
    using kept_ok_place [OF ok k, of p] k by (cases p) (auto simp: zz)
  then show "kept_ok z" by (rule kept_ok_move [OF ok k]) (simp add: zz)
qed

lemma kept_sweep_end: "sweep_end k good y = Some z \<Longrightarrow> kept_ok y \<Longrightarrow> kept_ok z"
proof -
  assume z: "sweep_end k good y = Some z" and ok: "kept_ok y"
  then have k: "placed y k Swept" by (simp add: sweep_end_def split: if_splits)
  have "placed (y\<lparr>sweeping := sweeping y - {k}\<rparr>) j p \<longleftrightarrow> j \<noteq> k \<and> placed y j p" for j p
    using kept_ok_place [OF ok k, of p] by (cases p) auto
  then have "kept_ok (destroy_kept_result k good (y\<lparr>sweeping := sweeping y - {k}\<rparr>))"
    by (rule used_or_lost [OF ok k]) simp
  then show "kept_ok z" using z by (simp add: sweep_end_def split: if_splits)
qed

lemma server_step_kept: "server_step y z \<Longrightarrow> kept_ok y \<Longrightarrow> kept_ok z"
proof (induction rule: server_step.induct)
  case (made y i)
  then show ?case by (auto simp: connection_made_def Let_def intro!: aside_ok [of y] aside_put)
next
  case (alone y i s)
  then show ?case using aside_ok [OF aside_put [OF local_claims]] by blast
next
  case (tick d y)
  then show ?case by (auto intro!: aside_ok [of y] simp: aside_def)
qed (auto intro: kept_pump_start kept_resumed kept_cleaned kept_paused kept_expire_wake kept_expire_end
    kept_sweep_start kept_sweep_end aside_ok [OF aside_opened] aside_ok [OF aside_pump(1)]
    aside_ok [OF aside_pump(2)] aside_ok [OF aside_pump(3)] aside_ok [OF aside_teardown(1)]
    aside_ok [OF aside_teardown(2)] aside_ok [OF aside_others(1)] aside_ok [OF aside_others(2)]
    aside_ok [OF aside_others(3)] aside_ok [OF aside_others(4)] aside_ok [OF aside_others(5)])

lemma kept_new: "new_server y \<Longrightarrow> kept_ok y"
proof -
  assume "new_server y"
  then obtain w ss where y: "y = init_sys w ss"
    and ss: "\<And>i. \<exists>rc idle act u k. ss i = new_session rc idle act u k" by (auto simp: new_server_def)
  have "pump (ss i) = PNone" for i using ss [of i] by (auto simp: new_session_def)
  then have "\<not> placed y k p" for k p by (cases p) (simp_all add: y init_sys_def)
  then show ?thesis by (simp add: kept_ok_def y init_sys_def)
qed

interpretation kepts: invariant new_server server_step kept_ok
  by (unfold_locales, erule kept_new, erule (1) server_step_kept)

text \<open>
  Property C6. A paused room is in exactly one place at any time: stored under one username,
  claimed by one reconnecting session, being destroyed by its expiry or by the sweep, or lost. So
  a room that a reconnect has claimed is destroyed neither by its timer nor by the sweep.
\<close>

theorem kept_rooms_in_one_place:
  assumes "server_reachable y"
  shows "if kepts y k = KPaused then \<exists>!p. placed y k p else \<forall>p. \<not> placed y k p"
  using kepts.everywhere [OF assms] unfolding kept_ok_def by metis

definition keep_and_return :: "event list" where
  "keep_and_return = hang_up @ [Teardown_Paused 0 (Returned 5), Made 1, Alone 1 Started, Pump_Start 1]"

theorem kept_rooms_in_one_place_witness:
  "\<exists>y. run keep_and_return (plain_server True) = Some y \<and> kepts y 5 = KPaused \<and> placed y 5 (Claimed 1)
     \<and> (\<exists>!p. placed y 5 p)"
proof -
  let ?y = "the (run keep_and_return (plain_server True))"
  have "run keep_and_return (plain_server True) \<noteq> None \<and> kepts ?y 5 = KPaused \<and> placed ?y 5 (Claimed 1)"
    by code_simp
  then obtain y where y: "run keep_and_return (plain_server True) = Some y" "kepts y 5 = KPaused"
    "placed y 5 (Claimed 1)" by auto
  then show ?thesis using kept_rooms_in_one_place [OF run_reachable [OF y(1)], of 5] by auto
qed

subsection \<open>Hanging up and coming back\<close>

definition return_run :: "sid \<Rightarrow> kid \<Rightarrow> sid \<Rightarrow> event list" where
  "return_run i k j = [Teardown_Start i, Teardown_Paused i (Returned k), Pump_Start j, Expire_Wake k]"

text \<open>
  Property C14. A client whose connection is lost while keeping is on finds its room again: the
  teardown pauses the room and stores the handle under the username, the next session of that
  username claims exactly this handle, and when the old expiry timer fires afterwards it destroys
  nothing.
\<close>

theorem hang_up_and_return:
  assumes i: "teardown (sess y i) = TReady True" "\<not> tcancel (sess y i)" "room (sess y i) = Some r"
      "has_kept (sess y i)" "kept_enabled y" "can_pause y r" "kepts y k = KFresh"
    and j: "j \<noteq> i" "pump (sess y j) = PReady" "\<not> pcancel (sess y j)" "has_kept (sess y j)"
      "username (sess y j) = username (sess y i)"
  shows "\<exists>z. run (return_run i k j) y = Some z \<and> pump (sess z j) = PResuming k \<and> kepts z k = KPaused
    \<and> rooms z r = RPaused k \<and> expiry z k = EDone \<and> dget (by_username z) (username (sess y i)) = None
    \<and> destroys z r = destroys y r"
proof -
  let ?y1 = "put i ((sess y i)\<lparr>room := None, teardown := TPausing r\<rparr>) y"
  have 1: "teardown_start i y = Some ?y1" using i by (simp add: teardown_start_def Let_def)
  let ?y2 = "release i (put i ((sess y i)\<lparr>room := None, teardown := TDone\<rparr>) (kept_store (username (sess y i)) k
      (set_kept k KPaused (set_room r (RPaused k) ?y1))))"
  have 2: "teardown_paused i (Returned k) ?y1 = Some ?y2"
    using i by (simp add: teardown_paused_def Let_def)
  have reg: "by_username (release a x) = by_username x" "expiry (release a x) = expiry x" for a x
    by (simp_all add: release_def active_discard_def Let_def)
  have st: "dget (by_username (kept_store u k x)) v = (if v = u then Some k else dget (by_username x) v)"
    "expiry (kept_store u k x) = (expiry x)(k := ESleep u)" "kepts (kept_store u k x) = kepts x"
    for u v x
    by (auto simp: kept_store_def displaced_def Let_def set_expiry_def lose_kept_def split: option.split)
  have y2: "dget (by_username ?y2) (username (sess y i)) = Some k" "kepts ?y2 k = KPaused"
    "expiry ?y2 k = ESleep (username (sess y i))" "rooms ?y2 r = RPaused k" "destroys ?y2 = destroys y"
    "sess ?y2 j = sess y j"
    using j by (simp_all add: reg st, simp_all add: put_def st set_kept_def)
  let ?y3 = "put j ((sess y j)\<lparr>pump := PResuming k\<rparr>) (?y2\<lparr>by_username := ddel (username (sess y i)) (by_username ?y2)\<rparr>)"
  have 3: "pump_start j ?y2 = Some ?y3"
    using y2 j by (simp add: pump_start_def Let_def kept_take_def)
  have 4: "expire_wake k ?y3 = Some (set_expiry k EDone ?y3)"
    using y2 by (simp add: expire_wake_def put_def)
  have "run (return_run i k j) y = Some (set_expiry k EDone ?y3)"
    using 1 2 3 4 by (simp add: return_run_def)
  then show ?thesis using y2 by (auto simp: put_def set_expiry_def)
qed

definition dropped :: "event list" where
  "dropped = hello @ [Alone 0 Lost, Made 1, Alone 1 Started]"

theorem hang_up_and_return_witness:
  "\<exists>y z. run dropped (plain_server True) = Some y \<and> run (return_run 0 5 1) y = Some z
     \<and> pump (sess z 1) = PResuming 5 \<and> kepts z 5 = KPaused"
proof -
  let ?y = "the (run dropped (plain_server True))"
  have "run dropped (plain_server True) \<noteq> None \<and> teardown (sess ?y 0) = TReady True
      \<and> \<not> tcancel (sess ?y 0) \<and> room (sess ?y 0) = Some 0 \<and> has_kept (sess ?y 0) \<and> kept_enabled ?y
      \<and> can_pause ?y 0 \<and> kepts ?y 5 = KFresh \<and> pump (sess ?y 1) = PReady \<and> \<not> pcancel (sess ?y 1)
      \<and> has_kept (sess ?y 1) \<and> username (sess ?y 1) = username (sess ?y 0)" by code_simp
  then obtain y where y: "run dropped (plain_server True) = Some y" "teardown (sess y 0) = TReady True"
    "\<not> tcancel (sess y 0)" "room (sess y 0) = Some 0" "has_kept (sess y 0)" "kept_enabled y"
    "can_pause y 0" "kepts y 5 = KFresh" "pump (sess y 1) = PReady" "\<not> pcancel (sess y 1)"
    "has_kept (sess y 1)" "username (sess y 1) = username (sess y 0)" by auto
  show ?thesis using y(1) hang_up_and_return [OF y(2-8) _ y(9-12)] by auto
qed

subsection \<open>Rooms that are lost\<close>

lemma lost_frame [simp]:
  "lost_kept (set_room r v y) = lost_kept y" "lost_kept (set_kept k u y) = lost_kept y"
  "lost_kept (set_expiry k e y) = lost_kept y" "lost_kept (count_destroy r y) = lost_kept y"
  "lost_kept (new_room r cp y) = lost_kept y" "lost_kept (put i s y) = lost_kept y"
  "lost_kept (lose_kept k y) = insert k (lost_kept y)"
  by (simp_all add: set_room_def set_kept_def set_expiry_def count_destroy_def new_room_def put_def lose_kept_def)

lemma lost_ops [simp]:
  "lost_kept (release i y) = lost_kept y" "lost_kept y \<subseteq> lost_kept (kept_store u k y)"
  "lost_kept y \<subseteq> lost_kept (destroy_kept_result k good y)"
  "lost_kept (pump_attached i r g w y) = lost_kept y" "lost_kept (connection_made i y) = lost_kept y"
  by (auto simp: release_def active_discard_def Let_def kept_store_def displaced_def
      destroy_kept_result_def pump_attached_def connection_made_def active_add_def split: option.split)

lemma lost_resumed: "pump_resumed i res w y = Some z \<Longrightarrow> lost_kept y \<subseteq> lost_kept z"
  by (induction i res w y rule: pump_resumed.induct) (auto simp: Let_def split: if_splits pump_pc.splits)

lemma lost_started: "pump_start i y = Some z \<Longrightarrow> lost_kept y \<subseteq> lost_kept z"
  by (auto simp: pump_start_def Let_def kept_take_def split: if_splits option.splits)

lemma lost_cleaned: "pump_cleaned i good w y = Some z \<Longrightarrow> lost_kept y \<subseteq> lost_kept z"
  using lost_ops(3) by (auto simp: pump_cleaned_def Let_def destroy_kept_result_def split: if_splits pump_pc.splits)

lemma lost_paused: "teardown_paused i res y = Some z \<Longrightarrow> lost_kept y \<subseteq> lost_kept z"
  by (cases res) (auto simp: teardown_paused_def Let_def kept_store_def displaced_def
      split: if_splits teardown_pc.splits option.splits)

lemma lost_registry:
  "expire_wake k y = Some z \<Longrightarrow> lost_kept y \<subseteq> lost_kept z"
  "expire_end k good y = Some z \<Longrightarrow> lost_kept y \<subseteq> lost_kept z"
  "sweep_start u k y = Some z \<Longrightarrow> lost_kept y \<subseteq> lost_kept z"
  "sweep_end k good y = Some z \<Longrightarrow> lost_kept y \<subseteq> lost_kept z"
  by (auto simp: expire_wake_def expire_end_def sweep_start_def sweep_end_def destroy_kept_result_def
      split: if_splits expire_pc.splits)

lemma aside_lost: "aside y z \<Longrightarrow> lost_kept y \<subseteq> lost_kept z"
  by (simp add: aside_def)

lemma step_lost: "server_step y z \<Longrightarrow> lost_kept y \<subseteq> lost_kept z"
proof (induction rule: server_step.induct)
  case (made y i)
  then show ?case by simp
qed (auto simp del: lost_ops dest: lost_resumed lost_started lost_cleaned lost_paused lost_registry
    aside_opened [THEN aside_lost] aside_pump [THEN aside_lost] aside_teardown [THEN aside_lost]
    aside_others [THEN aside_lost])


definition two_of_one_name :: "event list" where
  "two_of_one_name = hello @ [Made 1, Alone 1 Started, Pump_Start 1, Pump_Opened 1 (Opened 1 True) True,
     Alone 0 Lost, Alone 1 Lost, Teardown_Start 0, Teardown_Paused 0 (Returned 5),
     Teardown_Start 1, Teardown_Paused 1 (Returned 6)]"


end
