(* ===== verification/Effects.thy ===== *)
theory Effects
  imports Prelude
begin

section \<open>Calls that raise and change a state\<close>

text \<open>
  Straight-line code that calls out: a function from the state to a result and the new state.
  \<open>finally_io\<close> is \<open>try/finally\<close>, \<open>on_error\<close> is \<open>except BaseException\<close> that raises again, and
  \<open>catch_io\<close> is \<open>except\<close> for the errors that satisfy a predicate. What is changed before a raise
  stays changed.
\<close>

type_synonym ('s, 'a) io = "'s \<Rightarrow> 'a res \<times> 's"

definition ret_io :: "'a \<Rightarrow> ('s, 'a) io" where
  "ret_io x = (\<lambda>s. (Inr x, s))"

definition raise_io :: "py_exc \<Rightarrow> ('s, 'a) io" where
  "raise_io e = (\<lambda>s. (Inl e, s))"

definition bind_io :: "('s, 'a) io \<Rightarrow> ('a \<Rightarrow> ('s, 'b) io) \<Rightarrow> ('s, 'b) io" where
  "bind_io m f = (\<lambda>s. case m s of (Inl e, t) \<Rightarrow> (Inl e, t) | (Inr x, t) \<Rightarrow> f x t)"

definition then_io :: "('s, 'a) io \<Rightarrow> ('s, 'b) io \<Rightarrow> ('s, 'b) io" where
  "then_io m n = bind_io m (\<lambda>_. n)"

definition modify_io :: "('s \<Rightarrow> 's) \<Rightarrow> ('s, unit) io" where
  "modify_io f = (\<lambda>s. (Inr (), f s))"

definition get_io :: "('s \<Rightarrow> 'a) \<Rightarrow> ('s, 'a) io" where
  "get_io f = (\<lambda>s. (Inr (f s), s))"

text \<open>A call that fails with the given error, if there is one.\<close>

definition check_io :: "py_exc option \<Rightarrow> ('s, unit) io" where
  "check_io e = (case e of None \<Rightarrow> ret_io () | Some x \<Rightarrow> raise_io x)"

definition finally_io :: "('s, 'a) io \<Rightarrow> ('s, unit) io \<Rightarrow> ('s, 'a) io" where
  "finally_io m c = (\<lambda>s. case m s of (r, t) \<Rightarrow>
     (case c t of (Inl e, u) \<Rightarrow> (Inl e, u) | (Inr x, u) \<Rightarrow> (r, u)))"

definition on_error :: "('s, 'a) io \<Rightarrow> ('s, unit) io \<Rightarrow> ('s, 'a) io" where
  "on_error m c = (\<lambda>s. case m s of
     (Inl e, t) \<Rightarrow> (case c t of (Inl e', u) \<Rightarrow> (Inl e', u) | (Inr x, u) \<Rightarrow> (Inl e, u))
   | (Inr x, t) \<Rightarrow> (Inr x, t))"

definition catch_io :: "('s, 'a) io \<Rightarrow> (py_exc \<Rightarrow> bool) \<Rightarrow> (py_exc \<Rightarrow> ('s, 'a) io) \<Rightarrow> ('s, 'a) io" where
  "catch_io m p h = (\<lambda>s. case m s of
     (Inl e, t) \<Rightarrow> (if p e then h e t else (Inl e, t)) | (Inr x, t) \<Rightarrow> (Inr x, t))"

named_theorems io_simps \<open>running the effects on a state\<close>

lemma ret_io_run [io_simps]: "ret_io x s = (Inr x, s)"
  by (simp add: ret_io_def)

lemma raise_io_run [io_simps]: "raise_io e s = (Inl e, s)"
  by (simp add: raise_io_def)

lemma bind_io_run [io_simps]:
  "bind_io m f s = (case m s of (Inl e, t) \<Rightarrow> (Inl e, t) | (Inr x, t) \<Rightarrow> f x t)"
  by (simp add: bind_io_def)

lemma then_io_run [io_simps]:
  "then_io m n s = (case m s of (Inl e, t) \<Rightarrow> (Inl e, t) | (Inr x, t) \<Rightarrow> n t)"
  by (simp add: then_io_def bind_io_def)

lemma bind_io_ok: "bind_io m f s = (Inr y, t) \<Longrightarrow> \<exists>x u. m s = (Inr x, u) \<and> f x u = (Inr y, t)"
  by (auto simp: bind_io_def split: prod.splits sum.splits)

lemma modify_io_run [io_simps]: "modify_io f s = (Inr (), f s)"
  by (simp add: modify_io_def)

lemma get_io_run [io_simps]: "get_io f s = (Inr (f s), s)"
  by (simp add: get_io_def)

lemma check_io_run [io_simps]:
  "check_io e s = (case e of None \<Rightarrow> (Inr (), s) | Some x \<Rightarrow> (Inl x, s))"
  by (simp add: check_io_def ret_io_def raise_io_def split: option.split)

lemma finally_io_run [io_simps]:
  "finally_io m c s = (case m s of (r, t) \<Rightarrow>
     (case c t of (Inl e, u) \<Rightarrow> (Inl e, u) | (Inr x, u) \<Rightarrow> (r, u)))"
  by (simp add: finally_io_def)

lemma on_error_run [io_simps]:
  "on_error m c s = (case m s of
     (Inl e, t) \<Rightarrow> (case c t of (Inl e', u) \<Rightarrow> (Inl e', u) | (Inr x, u) \<Rightarrow> (Inl e, u))
   | (Inr x, t) \<Rightarrow> (Inr x, t))"
  by (simp add: on_error_def)

lemma catch_io_run [io_simps]:
  "catch_io m p h s = (case m s of
     (Inl e, t) \<Rightarrow> (if p e then h e t else (Inl e, t)) | (Inr x, t) \<Rightarrow> (Inr x, t))"
  by (simp add: catch_io_def)

subsection \<open>Properties that a call keeps\<close>

definition keeps :: "('s \<Rightarrow> bool) \<Rightarrow> ('s, 'a) io \<Rightarrow> bool" where
  "keeps P m \<longleftrightarrow> (\<forall>s. P s \<longrightarrow> P (snd (m s)))"

named_theorems keeps_intros \<open>what keeps a property, by the shape of the call\<close>

lemma keepsD: "keeps P m \<Longrightarrow> P s \<Longrightarrow> m s = (x, t) \<Longrightarrow> P t"
  by (auto simp: keeps_def dest: spec [of _ s])

lemma keepsI: "(\<And>s x t. P s \<Longrightarrow> m s = (x, t) \<Longrightarrow> P t) \<Longrightarrow> keeps P m"
  unfolding keeps_def by (metis prod.collapse)

lemma keeps_pure [keeps_intros]: "keeps P (ret_io x)" "keeps P (raise_io e)" "keeps P (get_io g)" "keeps P (check_io e')"
  by (auto simp: keeps_def io_simps split: option.split)

lemma keeps_modify: "(\<And>s. P s \<Longrightarrow> P (f s)) \<Longrightarrow> keeps P (modify_io f)"
  by (simp add: keeps_def io_simps)

lemma keeps_bind [keeps_intros]: "keeps P m \<Longrightarrow> (\<And>x. keeps P (f x)) \<Longrightarrow> keeps P (bind_io m f)"
  by (auto simp: keeps_def io_simps split: prod.split sum.split dest: spec)

lemma keeps_then [keeps_intros]: "keeps P m \<Longrightarrow> keeps P n \<Longrightarrow> keeps P (then_io m n)"
  by (auto simp: then_io_def intro: keeps_bind)

lemma keeps_finally [keeps_intros]: "keeps P m \<Longrightarrow> keeps P c \<Longrightarrow> keeps P (finally_io m c)"
  by (fastforce simp: keeps_def io_simps split: prod.split sum.split)

lemma keeps_on_error [keeps_intros]: "keeps P m \<Longrightarrow> keeps P c \<Longrightarrow> keeps P (on_error m c)"
  by (fastforce simp: keeps_def io_simps split: prod.split sum.split)

lemma keeps_catch [keeps_intros]: "keeps P m \<Longrightarrow> (\<And>e. keeps P (h e)) \<Longrightarrow> keeps P (catch_io m p h)"
  by (fastforce simp: keeps_def io_simps split: prod.split sum.split)

end
