(* ===== verification/Backend.thy ===== *)
theory Backend
  imports Effects Config
begin

section \<open>The seam between sessions and backends (src/keycard/backends/base.py)\<close>

text \<open>
  An object of the classes \<open>Room\<close> and \<open>Backend\<close> is the record of its methods over the state of the
  host. A method is a call that raises or returns and changes the state; \<open>destroy\<close> may also never
  return, which is None. \<open>Kept\<close> is opaque: a type parameter.

  The promises that the docstrings of the seam make to everything above it are two locales:
  \<open>room_contract\<close>, that \<open>destroy\<close> may be called again, and \<open>backend_contract\<close>, that a backend and
  its rooms give the same answer to \<open>can_pause\<close>.
\<close>

record ('s, 'k) room_ops =
  rm_can_pause :: bool
  rm_read :: "('s, string) io"
  rm_write :: "string \<Rightarrow> ('s, unit) io"
  rm_resize :: "int \<Rightarrow> int \<Rightarrow> ('s, unit) io"
  rm_destroy :: "'s \<Rightarrow> (int res \<times> 's) option"
  rm_pause :: "('s, 'k) io"

record ('s, 'k) backend =
  bk_can_pause :: bool
  bk_open :: "room_config \<Rightarrow> int \<Rightarrow> int \<Rightarrow> ('s, ('s, 'k) room_ops) io"
  bk_resume :: "'k \<Rightarrow> int \<Rightarrow> int \<Rightarrow> ('s, ('s, 'k) room_ops) io"
  bk_destroy_kept :: "'k \<Rightarrow> ('s, unit) io"
  bk_close :: "('s, unit) io"

text \<open>A room that the backend has handed out, from either of its two constructors.\<close>

definition hands_out :: "('s, 'k) backend \<Rightarrow> ('s, 'k) room_ops \<Rightarrow> 's \<Rightarrow> bool" where
  "hands_out b r t \<longleftrightarrow> (\<exists>rc w h s. bk_open b rc w h s = (Inr r, t)) \<or> (\<exists>k w h s. bk_resume b k w h s = (Inr r, t))"

text \<open>Calling \<open>destroy\<close> \<open>n\<close> times in a row; None if a call never returns.\<close>

fun destroy_times :: "nat \<Rightarrow> ('s, 'k) room_ops \<Rightarrow> 's \<Rightarrow> 's option" where
  "destroy_times 0 r s = Some s"
| "destroy_times (Suc n) r s =
     (case rm_destroy r s of None \<Rightarrow> None | Some (x, t) \<Rightarrow> destroy_times n r t)"

lemma hands_out_open: "bk_open b rc w h s = (Inr r, t) \<Longrightarrow> hands_out b r t"
  and hands_out_resume: "bk_resume b k w h s = (Inr r, t) \<Longrightarrow> hands_out b r t"
  unfolding hands_out_def by blast+

locale room_contract =
  fixes r :: "('s, 'k) room_ops"
  assumes again: "rm_destroy r s = Some (x, t) \<Longrightarrow> rm_destroy r t = Some (Inr 0, t)"
begin

lemma times_after: "rm_destroy r s = Some (x, t) \<Longrightarrow> destroy_times n r t = Some t"
  by (induction n) (auto dest: again)

lemma times: "rm_destroy r s = Some (x, t) \<Longrightarrow> destroy_times (Suc n) r s = Some t"
  by (simp add: times_after)

end

locale backend_contract =
  fixes b :: "('s, 'k) backend"
  assumes same_answer: "hands_out b r t \<Longrightarrow> rm_can_pause r = bk_can_pause b"
    and rooms: "hands_out b r t \<Longrightarrow> room_contract r"
begin

lemma opened: "bk_open b rc w h s = (Inr r, t) \<Longrightarrow> rm_can_pause r = bk_can_pause b \<and> room_contract r"
  by (drule hands_out_open) (simp add: same_answer rooms)

lemma resumed: "bk_resume b k w h s = (Inr r, t) \<Longrightarrow> rm_can_pause r = bk_can_pause b \<and> room_contract r"
  by (drule hands_out_resume) (simp add: same_answer rooms)

end

subsection \<open>Effects on a part of the state\<close>

text \<open>A call on a component of a larger state: how to read the component and how to put it back.\<close>

definition on_part :: "('t \<Rightarrow> 's) \<Rightarrow> ('s \<Rightarrow> 't \<Rightarrow> 't) \<Rightarrow> ('s, 'a) io \<Rightarrow> ('t, 'a) io" where
  "on_part get put m = (\<lambda>t. case m (get t) of (r, s) \<Rightarrow> (r, put s t))"

definition on_part_opt ::
  "('t \<Rightarrow> 's) \<Rightarrow> ('s \<Rightarrow> 't \<Rightarrow> 't) \<Rightarrow> ('s \<Rightarrow> (int res \<times> 's) option) \<Rightarrow> 't \<Rightarrow> (int res \<times> 't) option" where
  "on_part_opt get put m = (\<lambda>t. case m (get t) of None \<Rightarrow> None | Some (r, s) \<Rightarrow> Some (r, put s t))"

lemma on_part_run [io_simps]: "on_part get put m t = (case m (get t) of (r, s) \<Rightarrow> (r, put s t))"
  by (simp add: on_part_def)

text \<open>
  The objects a backend has made: the state of its service, how many rooms it has built, and those
  whose flag \<open>_destroyed\<close> is set.
\<close>

record 'd objects =
  service :: 'd
  made :: nat
  spent :: "nat set"

definition put_service :: "'d \<Rightarrow> 'd objects \<Rightarrow> 'd objects" where
  "put_service d s = s\<lparr>service := d\<rparr>"

definition on_service :: "('d, 'a) io \<Rightarrow> ('d objects, 'a) io" where
  "on_service m = on_part service put_service m"

definition new_object :: "('d objects, nat) io" where
  "new_object = (\<lambda>s. (Inr (made s), s\<lparr>made := Suc (made s)\<rparr>))"

text \<open>
  \<open>destroy\<close> of both rooms: \<open>work\<close> is told whether the flag of the object is set, and sets it
  under the lock, before anything else happens.
\<close>

definition flagged_destroy ::
  "nat \<Rightarrow> (bool \<Rightarrow> 'd objects \<Rightarrow> ('d, int) io option) \<Rightarrow> 'd objects \<Rightarrow> (int res \<times> 'd objects) option" where
  "flagged_destroy ob work s = (case work (ob \<in> spent s) s of None \<Rightarrow> None
     | Some act \<Rightarrow> Some (on_service act (s\<lparr>spent := insert ob (spent s)\<rparr>)))"

lemma put_service_same [simp]: "spent (put_service d s) = spent s" "put_service (service s) s = s"
  by (simp_all add: put_service_def)

lemma on_service_spent: "on_service m s = (r, t) \<Longrightarrow> spent t = spent s"
  by (auto simp: on_service_def io_simps split: prod.splits)

lemma flagged_destroy_again:
  assumes "\<And>s. work True s = Some (ret_io 0)" and "flagged_destroy ob work s = Some (x, t)"
  shows "flagged_destroy ob work t = Some (Inr 0, t)"
proof -
  have "ob \<in> spent t"
    using assms(2) on_service_spent by (fastforce simp: flagged_destroy_def split: option.splits)
  then have "t\<lparr>spent := insert ob (spent t)\<rparr> = t" by (cases t) (simp add: insert_absorb)
  moreover have "flagged_destroy ob work t = Some (on_service (ret_io 0) (t\<lparr>spent := insert ob (spent t)\<rparr>))"
    using \<open>ob \<in> spent t\<close> assms(1) by (simp add: flagged_destroy_def)
  ultimately have "flagged_destroy ob work t = Some (on_service (ret_io 0) t)" by (simp only:)
  then show ?thesis by (simp add: on_service_def io_simps)
qed

end
