(* ===== verification/Polling.thy ===== *)
theory Polling
  imports PyFloat
begin

section \<open>Loops that poll until something happens or time is up\<close>

text \<open>
  The program waits in the same way in several places: try, stop if it worked or failed for good,
  give up if a deadline has passed, otherwise sleep and try again. The contract is the equation
  of such a loop; its lemmas say which round ends it. A loop is a partial function: not ending
  is \<open>None\<close>.
\<close>

locale polling =
  fixes loop :: "nat \<Rightarrow> 'r option"
    and stops :: "nat \<Rightarrow> bool"
    and result :: "nat \<Rightarrow> 'r"
  assumes round: "loop n = (if stops n then Some (result n) else loop (Suc n))"
begin

lemma skip: "k \<le> n \<Longrightarrow> (\<And>m. k \<le> m \<Longrightarrow> m < n \<Longrightarrow> \<not> stops m) \<Longrightarrow> loop k = loop n"
proof (induction "n - k" arbitrary: k)
  case 0
  then show ?case by simp
next
  case (Suc d)
  then have "loop (Suc k) = loop n" by (intro Suc.hyps(1)) auto
  then show ?case using Suc.hyps(2) Suc.prems round [of k] by simp
qed

lemma first_stop:
  assumes "stops n" "\<And>m. m < n \<Longrightarrow> \<not> stops m"
  shows "loop 0 = Some (result n)"
  using skip [of 0 n] round [of n] assms by simp

lemma returns:
  assumes "stops n"
  obtains m where "m \<le> n" "stops m" "\<forall>j<m. \<not> stops j" "loop 0 = Some (result m)"
proof -
  define m where "m = (LEAST j. stops j)"
  have m: "stops m" "m \<le> n" unfolding m_def
    using assms by (rule LeastI, rule Least_le)
  have before: "\<not> stops j" if "j < m" for j using that unfolding m_def by (rule not_less_Least)
  show thesis using that [of m] m before first_stop [of m] by simp
qed

end

text \<open>\<open>now >= start + timeout\<close> for the time since the start.\<close>

fun time_up :: "f64 \<Rightarrow> rat \<Rightarrow> bool" where
  "time_up (Fin t) elapsed = (t \<le> elapsed)"
| "time_up (Inf neg) elapsed = neg"
| "time_up NaN elapsed = False"

text \<open>Errors that \<open>except OSError\<close> catches.\<close>

definition is_oserror :: "py_exc \<Rightarrow> bool" where
  "is_oserror e \<longleftrightarrow> e \<in> {OSError, FileNotFoundError, TimeoutError}"

end
