(* ===== verification/Docker.thy ===== *)
theory Docker
  imports Effects Config Polling
begin

section \<open>The Docker backend (src/keycard/backends/docker.py)\<close>

text \<open>
  The docker SDK is not under src/: what each call answers is an argument, and where it succeeds
  it has the documented effect on the containers. An answer is the error of the call, if any.
\<close>

subsection \<open>The arguments of a container\<close>

datatype dval = DStr string | DInt int | DBool bool | DList "string list" | DMap "(string \<times> string) list"

type_synonym kwargs = "(string, dval) dict"

definition ROOM_DEFAULTS :: kwargs where
  "ROOM_DEFAULTS = [(''entrypoint'', DList []), (''command'', DList [''/bin/bash'', ''--login'']),
     (''environment'', DMap [(''TERM'', ''xterm-256color''),
        (''PS1'', [CHR 0x5C] @ ''u@'' @ [CHR 0x5C] @ ''h:'' @ [CHR 0x5C] @ ''w# '')]),
     (''tty'', DBool True), (''stdin_open'', DBool True), (''detach'', DBool True),
     (''network_disabled'', DBool False), (''cap_drop'', DList [''ALL'']),
     (''security_opt'', DList [''no-new-privileges:true'']), (''mem_limit'', DStr ''1g''),
     (''pids_limit'', DInt 512)]"

definition room_overrides :: "room_config \<Rightarrow> kwargs" where
  "room_overrides room =
     [(''pids_limit'', DInt (rc_pids_limit room))]
     @ (if rc_memory room \<noteq> [] then [(''mem_limit'', DStr (rc_memory room))] else [])
     @ (if rc_cpus room \<noteq> 0 then [(''nano_cpus'', DInt (rc_cpus room * 1000000000))] else [])
     @ (if rc_network room \<noteq> [] then [(''network_mode'', DStr (rc_network room))] else [])"

text \<open>\<open>{**ROOM_DEFAULTS, **overrides}\<close>\<close>

definition run_kwargs :: "room_config \<Rightarrow> kwargs" where
  "run_kwargs room = doverlay ROOM_DEFAULTS (room_overrides room)"

subsection \<open>Containers\<close>

type_synonym cid = nat

datatype cstate = Running | Frozen | Removed

record daemon =
  containers :: "cid \<Rightarrow> cstate option"
  started_with :: "cid \<Rightarrow> (string \<times> kwargs) option"

definition put_container :: "cid \<Rightarrow> cstate \<Rightarrow> daemon \<Rightarrow> daemon" where
  "put_container c v d = d\<lparr>containers := (containers d)(c \<mapsto> v)\<rparr>"

definition is_docker :: "py_exc \<Rightarrow> bool" where
  "is_docker e \<longleftrightarrow> e = DockerException \<or> e = NotFound"

text \<open>A call of the SDK: its error, or its effect.\<close>

definition sdk :: "py_exc option \<Rightarrow> (daemon \<Rightarrow> daemon) \<Rightarrow> (daemon, unit) io" where
  "sdk answer effect = then_io (check_io answer) (modify_io effect)"

definition attach :: "py_exc option \<Rightarrow> py_exc option \<Rightarrow> (daemon, unit) io" where
  "attach on_resize on_attach =
     then_io (catch_io (sdk on_resize id) is_docker (\<lambda>_. ret_io ())) (sdk on_attach id)"

definition open_room ::
  "room_config \<Rightarrow> cid \<Rightarrow> py_exc option \<Rightarrow> py_exc option \<Rightarrow> py_exc option \<Rightarrow> (daemon, cid) io" where
  "open_room room c on_run on_resize on_attach =
     then_io (sdk on_run (\<lambda>d. put_container c Running
         (d\<lparr>started_with := (started_with d)(c \<mapsto> (rc_image room, run_kwargs room))\<rparr>)))
       (then_io (attach on_resize on_attach) (ret_io c))"

definition resume_room ::
  "cid \<Rightarrow> py_exc option \<Rightarrow> py_exc option \<Rightarrow> py_exc option \<Rightarrow> py_exc option \<Rightarrow> (daemon, cid) io" where
  "resume_room c on_get on_unpause on_resize on_attach =
     then_io (sdk on_get id) (then_io (sdk on_unpause (put_container c Running))
       (then_io (attach on_resize on_attach) (ret_io c)))"

definition pause_room :: "cid \<Rightarrow> py_exc option \<Rightarrow> (daemon, cid) io" where
  "pause_room c on_pause =
     then_io (catch_io (sdk on_pause (put_container c Frozen)) is_docker (\<lambda>_. ret_io ())) (ret_io c)"

definition destroy_kept_container :: "cid \<Rightarrow> py_exc option \<Rightarrow> py_exc option \<Rightarrow> (daemon, unit) io" where
  "destroy_kept_container c on_get on_remove =
     catch_io (then_io (sdk on_get id) (sdk on_remove (put_container c Removed))) is_docker (\<lambda>_. ret_io ())"

subsection \<open>destroy\<close>

definition EXIT_GRACE :: f64 where
  "EXIT_GRACE = Fin 1"

text \<open>
  What \<open>reload\<close> shows in round \<open>n\<close>, if it does not raise: whether the container runs, and its exit
  code. The loop ends with the status, whether \<open>kill\<close> was called, or the exception.
\<close>

partial_function (option) await_exit ::
  "(nat \<Rightarrow> (bool \<times> int) res) \<Rightarrow> (nat \<Rightarrow> rat) \<Rightarrow> py_exc option \<Rightarrow> nat \<Rightarrow> (int \<times> bool) res option" where
  "await_exit reload elapsed on_kill n = (case reload n of
     Inl e \<Rightarrow> Some (Inl e)
   | Inr st \<Rightarrow> if \<not> fst st then Some (Inr (snd st, False))
       else if time_up EXIT_GRACE (elapsed n) then
         Some (case on_kill of None \<Rightarrow> Inr (0, True) | Some e \<Rightarrow> Inl e)
       else await_exit reload elapsed on_kill (Suc n))"

definition exit_stops :: "(nat \<Rightarrow> (bool \<times> int) res) \<Rightarrow> (nat \<Rightarrow> rat) \<Rightarrow> nat \<Rightarrow> bool" where
  "exit_stops reload elapsed n \<longleftrightarrow> (case reload n of Inl e \<Rightarrow> True
     | Inr st \<Rightarrow> \<not> fst st \<or> time_up EXIT_GRACE (elapsed n))"

definition exit_result :: "(nat \<Rightarrow> (bool \<times> int) res) \<Rightarrow> py_exc option \<Rightarrow> nat \<Rightarrow> (int \<times> bool) res" where
  "exit_result reload on_kill n = (case reload n of Inl e \<Rightarrow> Inl e
     | Inr st \<Rightarrow> if \<not> fst st then Inr (snd st, False)
         else (case on_kill of None \<Rightarrow> Inr (0, True) | Some e \<Rightarrow> Inl e))"

interpretation exiting: polling "await_exit reload elapsed on_kill" "exit_stops reload elapsed"
    "exit_result reload on_kill" for reload elapsed on_kill
  by unfold_locales
    (subst await_exit.simps, auto simp: exit_stops_def exit_result_def split: sum.splits)

definition exit_status :: "(int \<times> bool) res \<Rightarrow> int res" where
  "exit_status r = (case r of Inr sk \<Rightarrow> Inr (fst sk) | Inl e \<Rightarrow> if is_docker e then Inr 0 else Inl e)"

text \<open>\<open>_destroy\<close>, in its thread; None if the loop never ends.\<close>

definition destroy_container ::
  "cid \<Rightarrow> (nat \<Rightarrow> (bool \<times> int) res) \<Rightarrow> (nat \<Rightarrow> rat) \<Rightarrow> py_exc option \<Rightarrow> py_exc option \<Rightarrow>
     (daemon, int) io option" where
  "destroy_container c reload elapsed on_kill on_remove =
     (case await_exit reload elapsed on_kill 0 of None \<Rightarrow> None
      | Some r \<Rightarrow> Some (case exit_status r of
          Inl e \<Rightarrow> raise_io e
        | Inr st \<Rightarrow> then_io (catch_io (sdk on_remove (put_container c Removed)) is_docker (\<lambda>_. ret_io ()))
            (ret_io st)))"

text \<open>\<open>DockerRoom.destroy\<close>: the flag is set before the thread starts.\<close>

definition destroy_room ::
  "bool \<Rightarrow> cid \<Rightarrow> (nat \<Rightarrow> (bool \<times> int) res) \<Rightarrow> (nat \<Rightarrow> rat) \<Rightarrow> py_exc option \<Rightarrow> py_exc option \<Rightarrow>
     (bool \<times> (daemon, int) io option)" where
  "destroy_room destroyed c reload elapsed on_kill on_remove =
     (if destroyed then (True, Some (ret_io 0))
      else (True, destroy_container c reload elapsed on_kill on_remove))"

definition room_read :: "string res \<Rightarrow> string res" where
  "room_read recv = (case recv of Inr d \<Rightarrow> Inr d
     | Inl e \<Rightarrow> if is_oserror e \<or> e = CancelledError then Inr [] else Inl e)"

definition room_write :: "py_exc option \<Rightarrow> unit res" where
  "room_write send = (case send of None \<Rightarrow> Inr () | Some e \<Rightarrow> if is_oserror e then Inr () else Inl e)"

subsection \<open>Properties\<close>

text \<open>
  Property C31. Whatever a room configures, its container is started with all capabilities
  dropped, no new privileges, a terminal and detached; the process limit is the room's own, and
  memory, CPU and network are the configured values or the blanket defaults, never uncapped by an
  empty key.
\<close>

theorem room_hardening:
  "dget (run_kwargs room) ''cap_drop'' = Some (DList [''ALL''])
   \<and> dget (run_kwargs room) ''security_opt'' = Some (DList [''no-new-privileges:true''])
   \<and> dget (run_kwargs room) ''tty'' = Some (DBool True) \<and> dget (run_kwargs room) ''detach'' = Some (DBool True)
   \<and> dget (run_kwargs room) ''pids_limit'' = Some (DInt (rc_pids_limit room))
   \<and> dget (run_kwargs room) ''mem_limit'' =
       Some (DStr (if rc_memory room = [] then ''1g'' else rc_memory room))
   \<and> dget (run_kwargs room) ''nano_cpus'' =
       (if rc_cpus room = 0 then None else Some (DInt (rc_cpus room * 10 ^ 9)))
   \<and> dget (run_kwargs room) ''network_mode'' =
       (if rc_network room = [] then None else Some (DStr (rc_network room)))"
proof -
  let ?o = "\<lambda>k. dget (rev (room_overrides room)) k"
  have get: "dget (run_kwargs room) k = (case ?o k of None \<Rightarrow> dget ROOM_DEFAULTS k | Some v \<Rightarrow> Some v)" for k
    by (simp add: run_kwargs_def dget_doverlay)
  have kept: "?o k = None"
    if "k \<notin> {''pids_limit'', ''mem_limit'', ''nano_cpus'', ''network_mode''}" for k
    using that by (simp add: room_overrides_def)
  have fixed: "dget (run_kwargs room) ''cap_drop'' = Some (DList [''ALL''])"
    "dget (run_kwargs room) ''security_opt'' = Some (DList [''no-new-privileges:true''])"
    "dget (run_kwargs room) ''tty'' = Some (DBool True)" "dget (run_kwargs room) ''detach'' = Some (DBool True)"
    by (simp_all add: get kept) (simp_all add: ROOM_DEFAULTS_def)
  have set: "?o ''pids_limit'' = Some (DInt (rc_pids_limit room))"
    "?o ''mem_limit'' = (if rc_memory room = [] then None else Some (DStr (rc_memory room)))"
    "?o ''nano_cpus'' = (if rc_cpus room = 0 then None else Some (DInt (rc_cpus room * 10 ^ 9)))"
    "?o ''network_mode'' = (if rc_network room = [] then None else Some (DStr (rc_network room)))"
    by (simp_all add: room_overrides_def)
  have "dget ROOM_DEFAULTS ''mem_limit'' = Some (DStr ''1g'')" "dget ROOM_DEFAULTS ''nano_cpus'' = None"
    "dget ROOM_DEFAULTS ''network_mode'' = None" by (simp_all add: ROOM_DEFAULTS_def)
  with fixed set show ?thesis by (simp add: get)
qed

lemma sdk_run: "sdk a f d = (case a of None \<Rightarrow> (Inr (), f d) | Some e \<Rightarrow> (Inl e, d))"
  by (simp add: sdk_def io_simps split: option.split)

lemma attach_run:
  "attach ar aa d = (case ar of Some e \<Rightarrow> if is_docker e then (case aa of None \<Rightarrow> (Inr (), d) | Some x \<Rightarrow> (Inl x, d))
       else (Inl e, d) | None \<Rightarrow> (case aa of None \<Rightarrow> (Inr (), d) | Some x \<Rightarrow> (Inl x, d)))"
  by (simp add: attach_def io_simps sdk_run split: option.split)

text \<open>
  Opening a room that fails after the container was started leaves the container
  running: nothing removes it, and its id is not returned. It leaves none exactly if \<open>run\<close> itself
  failed.
\<close>

theorem failed_open_leaves_container:
  assumes "open_room room c on_run on_resize on_attach d = (Inl e, t)" "containers d c = None"
  shows "containers t c = (if on_run = None then Some Running else None)
    \<and> (on_run = None \<longrightarrow> started_with t c = Some (rc_image room, run_kwargs room))"
  using assms
  by (auto simp: open_room_def io_simps sdk_run attach_run put_container_def split: option.splits if_splits)

theorem failed_open_leaves_container_witness:
  "\<exists>t. open_room (mk_room ''r'' ''i'') 7 None None (Some DockerException)
       \<lparr>containers = (\<lambda>_. None), started_with = (\<lambda>_. None)\<rparr> = (Inl DockerException, t)
     \<and> containers t 7 = Some Running"
proof -
  let ?d = "\<lparr>containers = (\<lambda>_. None), started_with = (\<lambda>_. None)\<rparr> :: daemon"
  obtain t where t: "open_room (mk_room ''r'' ''i'') 7 None None (Some DockerException) ?d = (Inl DockerException, t)"
    by (simp add: open_room_def io_simps sdk_run attach_run)
  then show ?thesis using failed_open_leaves_container [OF t] by simp
qed

text \<open>
  \<open>pause\<close> never reports a failure of the daemon: it returns the handle also when the
  container is still running, so the caller keeps a room that was never frozen.
\<close>

theorem pause_hides_failure:
  assumes "is_docker e"
  shows "pause_room c (Some e) d = (Inr c, d)
    \<and> pause_room c None d = (Inr c, put_container c Frozen d)"
  using assms by (simp add: pause_room_def io_simps sdk_run)

theorem pause_hides_failure_witness:
  "pause_room 7 (Some NotFound) \<lparr>containers = [7 \<mapsto> Running], started_with = (\<lambda>_. None)\<rparr>
     = (Inr 7, \<lparr>containers = [7 \<mapsto> Running], started_with = (\<lambda>_. None)\<rparr>)"
  using pause_hides_failure [of NotFound 7] by (simp add: is_docker_def)

text \<open>
  Property C32. Destroying a room returns, and its container is removed with force whatever the
  daemon answered before: the status is the exit code of the shell if the container stopped on
  its own within the grace period, and 0 if it had to be killed or was already gone. A second
  call returns 0 and touches nothing.
\<close>

theorem destroy_removes_container:
  assumes "\<And>n e. reload n = Inl e \<Longrightarrow> is_docker e" "\<And>e. on_kill = Some e \<Longrightarrow> is_docker e"
    and "exit_stops reload elapsed n"
  shows "\<exists>m\<le>n. \<exists>act. destroy_room False c reload elapsed on_kill None = (True, Some act)
    \<and> act d = (Inr (case reload m of Inr (False, x) \<Rightarrow> x | _ \<Rightarrow> 0), put_container c Removed d)
    \<and> exit_stops reload elapsed m \<and> (\<forall>j<m. \<not> exit_stops reload elapsed j)
    \<and> destroy_room True c reload elapsed on_kill None = (True, Some (ret_io 0))"
proof -
  obtain m where m: "m \<le> n" "exit_stops reload elapsed m" "\<forall>j<m. \<not> exit_stops reload elapsed j"
    "await_exit reload elapsed on_kill 0 = Some (exit_result reload on_kill m)"
    using exiting.returns [OF assms(3)] .
  have "exit_status (exit_result reload on_kill m) = Inr (case reload m of Inr (False, x) \<Rightarrow> x | _ \<Rightarrow> 0)"
    using assms(1) [of m] assms(2)
    by (auto simp: exit_status_def exit_result_def split: sum.split option.split bool.split)
  then have "\<exists>act. destroy_room False c reload elapsed on_kill None = (True, Some act)
    \<and> act d = (Inr (case reload m of Inr (False, x) \<Rightarrow> x | _ \<Rightarrow> 0), put_container c Removed d)"
    using m(4) by (simp add: destroy_room_def destroy_container_def io_simps sdk_run)
  then show ?thesis using m by (auto simp: destroy_room_def intro!: exI [of _ m])
qed

definition slow_exit :: "nat \<Rightarrow> (bool \<times> int) res" where
  "slow_exit n = (if n < 4 then Inr (True, 0) else Inr (False, 3))"

theorem destroy_removes_container_witness:
  "\<exists>m\<le>4::nat. \<exists>act. destroy_room False 7 slow_exit (\<lambda>n. of_nat n / 20) None None = (True, Some act)
     \<and> snd (act \<lparr>containers = [7 \<mapsto> Running], started_with = (\<lambda>_. None)\<rparr>)
         = put_container 7 Removed \<lparr>containers = [7 \<mapsto> Running], started_with = (\<lambda>_. None)\<rparr>"
proof -
  let ?d = "\<lparr>containers = [7 \<mapsto> Running], started_with = (\<lambda>_. None)\<rparr> :: daemon"
  have "exit_stops slow_exit (\<lambda>n. of_nat n / 20) 4" by (simp add: exit_stops_def slow_exit_def)
  moreover have "is_docker e" if "slow_exit n = Inl e" for n e using that by (simp add: slow_exit_def split: if_splits)
  ultimately have "\<exists>m\<le>4::nat. \<exists>act. destroy_room False 7 slow_exit (\<lambda>n. of_nat n / 20) None None = (True, Some act)
    \<and> act ?d = (Inr (case slow_exit m of Inr (False, x) \<Rightarrow> x | _ \<Rightarrow> 0), put_container 7 Removed ?d)"
    using destroy_removes_container [where d = ?d and c = 7 and on_kill = None and reload = slow_exit] by blast
  then show ?thesis by fastforce
qed

end
