(* ===== verification/Guest_Wire.thy ===== *)
theory Guest_Wire
  imports PyFloat "HOL-Library.Word"
begin

section \<open>The control channel between host and guest\<close>

text \<open>
  The two verbs of the control channel, from both ends: \<open>resize\<close> and \<open>_watch_exit\<close> of
  src/keycard/backends/firecracker.py on the host, \<open>parse_resize\<close> and the exit line of
  guest-agent/src/session.rs in the guest.
\<close>

subsection \<open>The host\<close>

definition resize_line :: "int \<Rightarrow> int \<Rightarrow> string" where
  "resize_line w h = ''resize '' @ show_int w @ '' '' @ show_int h @ [LF]"

definition parse_exit :: "string \<Rightarrow> int option" where
  "parse_exit line = (case words is_bspace line of
     [verb, n] \<Rightarrow> (if verb = ''exit'' then
        (case py_int is_bspace n of Inl e \<Rightarrow> None | Inr st \<Rightarrow> Some st) else None)
   | _ \<Rightarrow> None)"

text \<open>The inner loop: take lines off the buffer until one is a status or none is left.\<close>

function scan :: "string \<Rightarrow> int option \<times> string" where
  "scan buf = (case cut LF buf of
     (line, None) \<Rightarrow> (None, buf)
   | (line, Some rest) \<Rightarrow> (case parse_exit line of Some st \<Rightarrow> (Some st, rest) | None \<Rightarrow> scan rest))"
  by auto

lemma cut_shorter: "cut d s = (a, Some t) \<Longrightarrow> length t < length s"
proof -
  assume "cut d s = (a, Some t)"
  then have "dropWhile (\<lambda>c. c \<noteq> d) s = d # t \<or> (\<exists>c. dropWhile (\<lambda>c. c \<noteq> d) s = c # t)"
    by (auto simp: cut_def split: list.splits)
  then show ?thesis using length_dropWhile_le [of "\<lambda>c. c \<noteq> d" s] by auto
qed

termination scan
  by (relation "measure length") (auto dest: cut_shorter [OF sym])

declare scan.simps [simp del]

text \<open>
  \<open>_watch_exit\<close> on the chunks that the socket delivers; an empty one, or the end of the list for
  an error or a cancellation, ends it without a status.
\<close>

fun watch_exit :: "string \<Rightarrow> string list \<Rightarrow> int option" where
  "watch_exit buf [] = None"
| "watch_exit buf (chunk # chunks) =
     (if chunk = [] then None
      else (case scan (buf @ chunk) of (Some st, rest) \<Rightarrow> Some st | (None, rest) \<Rightarrow> watch_exit rest chunks))"

subsection \<open>The guest\<close>

definition exit_line :: "int \<Rightarrow> string" where
  "exit_line n = ''exit '' @ show_int n @ [LF]"

text \<open>\<open>str::parse::<u16>\<close>: an optional plus sign and digits, in range.\<close>

definition rust_u16 :: "string \<Rightarrow> 16 word option" where
  "rust_u16 s = (let t = (if starts_with ''+'' s then tl s else s) in
     if t \<noteq> [] \<and> list_all is_digit t \<and> digits_val t < 2 ^ 16 then Some (of_nat (digits_val t)) else None)"

definition parse_resize :: "string \<Rightarrow> (16 word \<times> 16 word) option" where
  "parse_resize line = (case words is_bspace line of
     verb # c # r # more \<Rightarrow> (if verb = ''resize'' then
        (case rust_u16 c of None \<Rightarrow> None | Some cols \<Rightarrow>
          (case rust_u16 r of None \<Rightarrow> None | Some rows \<Rightarrow> Some (cols, rows))) else None)
   | _ \<Rightarrow> None)"

subsection \<open>Facts\<close>

lemma show_int_token: "c \<in> set (show_int n) \<Longrightarrow> \<not> is_bspace c \<and> c \<noteq> LF"
  using digits_show_nat [of c] not_digit_facts(2) [of c]
  by (auto simp: show_int_def is_bspace_def is_digit_def code_def split: if_splits)

lemma show_int_ne [simp]: "show_int n \<noteq> []"
  by (simp add: show_int_def)

lemma parse_exit_line: "\<bar>n\<bar> < 10 ^ 20 \<Longrightarrow> parse_exit (''exit '' @ show_int n) = Some n"
proof -
  assume n: "\<bar>n\<bar> < 10 ^ 20"
  have "words is_bspace (''exit'' @ CHR '' '' # show_int n) = ''exit'' # words is_bspace (show_int n)"
    by (rule words_cons) (auto simp: is_bspace_def code_def)
  moreover have "words is_bspace (show_int n) = [show_int n]"
    by (rule words_token) (auto dest: show_int_token)
  ultimately show ?thesis
    using py_int_show_int_small [OF space_like_is_bspace n] by (simp add: parse_exit_def)
qed

lemma scan_no_line: "LF \<notin> set s \<Longrightarrow> scan s = (None, s)"
  by (subst scan.simps) (simp add: cut_none)

lemma scan_line: "LF \<notin> set l \<Longrightarrow>
    scan (l @ LF # s) = (case parse_exit l of Some st \<Rightarrow> (Some st, s) | None \<Rightarrow> scan s)"
  by (subst scan.simps) (simp add: cut_append)

lemma scan_append:
  "fst (scan (b @ s)) = (case scan b of (Some st, r) \<Rightarrow> Some st | (None, r) \<Rightarrow> fst (scan (r @ s)))"
proof (induction "length b" arbitrary: b rule: less_induct)
  case less
  show ?case
  proof (cases "LF \<in> set b")
    case False
    then show ?thesis by (simp add: scan_no_line)
  next
    case True
    then obtain l t where b: "b = l @ LF # t" "LF \<notin> set l" by (meson split_list_first)
    show ?thesis
      using less [of t] b by (cases "parse_exit l") (simp_all add: scan_line)
  qed
qed

lemma watch_exit_scan:
  "(\<forall>c\<in>set chunks. c \<noteq> []) \<Longrightarrow> LF \<notin> set buf \<Longrightarrow> watch_exit buf chunks = fst (scan (buf @ concat chunks))"
proof (induction chunks arbitrary: buf)
  case Nil
  then show ?case by (simp add: scan_no_line)
next
  case (Cons c cs)
  have no_lf: "LF \<notin> set r" if "scan s = (None, r)" for s r
    using that
  proof (induction "length s" arbitrary: s rule: less_induct)
    case less
    show ?case
    proof (cases "LF \<in> set s")
      case False
      then show ?thesis using less(2) by (simp add: scan_no_line)
    next
      case True
      then obtain l t where s: "s = l @ LF # t" "LF \<notin> set l" by (meson split_list_first)
      then have "scan t = (None, r)" using less(2) by (auto simp: scan_line split: option.splits)
      then show ?thesis using less(1) [of t] s by simp
    qed
  qed
  show ?case
    using Cons no_lf [of "buf @ c"] scan_append [of "buf @ c" "concat cs"]
    by (auto split: prod.split option.split)
qed

text \<open>
  Property C40. The host's reading of the exit status does not depend on how the bytes of the
  control channel are cut into chunks; and whatever non-status lines precede it, the guest's line
  for any 32-bit exit code is read back as that code.
\<close>

theorem exit_status_over_the_wire:
  assumes "\<forall>c\<in>set chunks. c \<noteq> []" "concat chunks = noise @ exit_line n @ more"
    and "scan noise = (None, [])"
    and "- (2 ^ 31) \<le> n" "n < 2 ^ 31"
  shows "watch_exit [] chunks = Some n"
proof -
  have n: "\<bar>n\<bar> < 10 ^ 20" using assms(4,5) by simp
  have l: "LF \<notin> set (''exit '' @ show_int n)" using show_int_token [of LF n] by auto
  have "scan (exit_line n @ more) = (Some n, more)"
    using scan_line [OF l, of more] parse_exit_line [OF n] by (simp add: exit_line_def)
  then have "fst (scan (noise @ exit_line n @ more)) = Some n"
    using scan_append [of noise "exit_line n @ more"] assms(3) by simp
  then show ?thesis using watch_exit_scan [of chunks "[]"] assms(1,2) by simp
qed

theorem exit_status_over_the_wire_witness:
  "watch_exit [] [''he'', ''llo'' @ [LF] @ ''ex'', ''it 1'', ''37'' @ [LF]] = Some 137"
proof (rule exit_status_over_the_wire [where noise = "''hello'' @ [LF]" and more = "[]"])
  show "concat [''he'', ''llo'' @ [LF] @ ''ex'', ''it 1'', ''37'' @ [LF]] = (''hello'' @ [LF]) @ exit_line 137 @ []"
    by code_simp
  show "scan (''hello'' @ [LF]) = (None, [])" by code_simp
qed simp_all

lemma rust_u16_show: "n < 2 ^ 16 \<Longrightarrow> rust_u16 (show_nat n) = Some (of_nat n)"
proof -
  assume n: "n < 2 ^ 16"
  have "\<not> starts_with ''+'' (show_nat n)"
    using digits_show_nat [of "hd (show_nat n)" n] is_digit_not_sign by (cases "show_nat n") auto
  moreover have "list_all is_digit (show_nat n)" by (auto simp: list_all_iff dest: digits_show_nat)
  ultimately show ?thesis using n by (simp add: rust_u16_def Let_def)
qed

text \<open>
  A terminal size that fits 16 bits reaches the guest unchanged: the line that
  \<open>resize\<close> writes, without its newline, is parsed by the guest agent to the same columns and
  rows.
\<close>

theorem resize_over_the_wire:
  assumes "0 \<le> w" "w < 2 ^ 16" "0 \<le> h" "h < 2 ^ 16"
  shows "parse_resize (butlast (resize_line w h)) = Some (of_int w, of_int h) \<and> last (resize_line w h) = LF"
proof -
  let ?w = "show_int w" and ?h = "show_int h"
  have "words is_bspace (''resize'' @ CHR '' '' # ?w @ CHR '' '' # ?h) = ''resize'' # words is_bspace (?w @ CHR '' '' # ?h)"
    by (rule words_cons) (auto simp: is_bspace_def code_def)
  moreover have "words is_bspace (?w @ CHR '' '' # ?h) = ?w # words is_bspace ?h"
    by (rule words_cons) (auto dest: show_int_token simp: is_bspace_def code_def)
  moreover have "words is_bspace ?h = [?h]" by (rule words_token) (auto dest: show_int_token)
  moreover have "rust_u16 ?w = Some (of_int w)" "rust_u16 ?h = Some (of_int h)"
    using rust_u16_show [of "nat w"] rust_u16_show [of "nat h"] assms by (simp_all add: show_int_def nat_less_iff)
  ultimately have "parse_resize (''resize'' @ CHR '' '' # ?w @ CHR '' '' # ?h) = Some (of_int w, of_int h)"
    by (simp add: parse_resize_def)
  moreover have "resize_line w h = (''resize'' @ CHR '' '' # ?w @ CHR '' '' # ?h) @ [LF]"
    by (simp add: resize_line_def)
  ultimately show ?thesis by (simp only: butlast_snoc last_snoc)
qed

theorem resize_over_the_wire_witness:
  "parse_resize (butlast (resize_line 120 40)) = Some (120, 40)"
  using resize_over_the_wire [of 120 40] by simp

end
