(* ===== verification/Confine.thy ===== *)
theory Confine
  imports Effects PyPath "HOL-Library.Word"
begin

unbundle bit_operations_syntax

section \<open>Confinement of the VMM (src/keycard/backends/confine.py)\<close>

text \<open>
  The access rights are words; the kernel is a record of what its calls answer. The state is what
  the process holds: its open file descriptors and the rules given to the ruleset under
  construction.
\<close>

subsection \<open>Rights\<close>

type_synonym access = "64 word"

definition X_EXECUTE :: access where "X_EXECUTE = push_bit 0 1"
definition X_WRITE_FILE :: access where "X_WRITE_FILE = push_bit 1 1"
definition X_READ_FILE :: access where "X_READ_FILE = push_bit 2 1"
definition X_READ_DIR :: access where "X_READ_DIR = push_bit 3 1"
definition X_REMOVE_DIR :: access where "X_REMOVE_DIR = push_bit 4 1"
definition X_REMOVE_FILE :: access where "X_REMOVE_FILE = push_bit 5 1"
definition X_MAKE_CHAR :: access where "X_MAKE_CHAR = push_bit 6 1"
definition X_MAKE_DIR :: access where "X_MAKE_DIR = push_bit 7 1"
definition X_MAKE_REG :: access where "X_MAKE_REG = push_bit 8 1"
definition X_MAKE_SOCK :: access where "X_MAKE_SOCK = push_bit 9 1"
definition X_MAKE_FIFO :: access where "X_MAKE_FIFO = push_bit 10 1"
definition X_MAKE_BLOCK :: access where "X_MAKE_BLOCK = push_bit 11 1"
definition X_MAKE_SYM :: access where "X_MAKE_SYM = push_bit 12 1"
definition X_REFER :: access where "X_REFER = push_bit 13 1"
definition X_TRUNCATE :: access where "X_TRUNCATE = push_bit 14 1"

definition NEWEST_ABI :: int where "NEWEST_ABI = 3"

definition handled_by_abi :: "int \<Rightarrow> access" where
  "handled_by_abi abi = (if abi = 1 then push_bit 13 1 - 1 else if abi = 2 then push_bit 14 1 - 1
     else push_bit 15 1 - 1)"

definition A_READ :: access where "A_READ = X_READ_FILE OR X_READ_DIR"

definition A_EXECUTE :: access where "A_EXECUTE = X_EXECUTE OR X_READ_FILE"

definition A_WRITE :: access where
  "A_WRITE = A_READ OR X_WRITE_FILE OR X_TRUNCATE OR X_REMOVE_DIR OR X_REMOVE_FILE OR X_MAKE_DIR
     OR X_MAKE_REG OR X_MAKE_SOCK OR X_MAKE_FIFO OR X_MAKE_SYM"

definition FILE_ACCESS :: access where
  "FILE_ACCESS = X_EXECUTE OR X_READ_FILE OR X_WRITE_FILE OR X_TRUNCATE"

definition KVM :: path where "KVM = mk_path ''/dev/kvm''"

definition NOFILE :: int where "NOFILE = 1024"

definition FSIZE_HEADROOM :: int where "FSIZE_HEADROOM = 256 * 1024 * 1024"

subsection \<open>Plans\<close>

record plan =
  executable :: "path list"
  readable :: "path list"
  writable :: "path list"

definition plan_rules :: "plan \<Rightarrow> (path \<times> access) list" where
  "plan_rules p = List.map (\<lambda>x. (x, A_EXECUTE)) (executable p) @ List.map (\<lambda>x. (x, A_READ)) (readable p)
     @ List.map (\<lambda>x. (x, A_WRITE)) (writable p)"

definition plan_for :: "path \<Rightarrow> path \<Rightarrow> path \<Rightarrow> path list \<Rightarrow> plan" where
  "plan_for binary guest_kernel instance_dir extra_readable =
     \<lparr>executable = [binary], readable = guest_kernel # extra_readable, writable = [instance_dir, KVM]\<rparr>"

subsection \<open>Building the ruleset\<close>

record kernel =
  version_answer :: int
  create_answer :: int
  path_fd :: "path \<Rightarrow> int option"
  is_directory :: "path \<Rightarrow> bool"
  accepts :: "path \<Rightarrow> access \<Rightarrow> bool"

record process =
  fds :: "int list"
  rules :: "(path \<times> access) list"

definition abi_version :: "kernel \<Rightarrow> int" where
  "abi_version k = (if 0 < version_answer k then version_answer k else 0)"

definition open_fd :: "int \<Rightarrow> (process, unit) io" where
  "open_fd fd = modify_io (\<lambda>p. p\<lparr>fds := fd # fds p\<rparr>)"

definition close_fd :: "int \<Rightarrow> (process, unit) io" where
  "close_fd fd = modify_io (\<lambda>p. p\<lparr>fds := remove1 fd (fds p)\<rparr>)"

definition narrowed :: "kernel \<Rightarrow> path \<Rightarrow> access \<Rightarrow> access" where
  "narrowed k path access = (if is_directory k path then access else access AND FILE_ACCESS)"

definition add_rule :: "kernel \<Rightarrow> path \<Rightarrow> access \<Rightarrow> (process, unit) io" where
  "add_rule k path access = (case path_fd k path of
     None \<Rightarrow> raise_io ConfinementError
   | Some fd \<Rightarrow> then_io (open_fd fd) (finally_io
       (let a = narrowed k path access in
        if accepts k path a then modify_io (\<lambda>p. p\<lparr>rules := rules p @ [(path, a)]\<rparr>)
        else raise_io ConfinementError)
       (close_fd fd)))"

fun add_rules :: "kernel \<Rightarrow> access \<Rightarrow> (path \<times> access) list \<Rightarrow> (process, unit) io" where
  "add_rules k handled [] = ret_io ()"
| "add_rules k handled (r # rs) =
     then_io (add_rule k (fst r) (snd r AND handled)) (add_rules k handled rs)"

definition build_ruleset :: "kernel \<Rightarrow> plan \<Rightarrow> (process, int option) io" where
  "build_ruleset k p = (let abi = abi_version k in
     if abi = 0 then ret_io None
     else if create_answer k < 0 then raise_io ConfinementError
     else then_io (open_fd (create_answer k))
       (then_io (on_error (add_rules k (handled_by_abi (min abi NEWEST_ABI)) (plan_rules p))
           (close_fd (create_answer k)))
         (ret_io (Some (create_answer k)))))"

definition fsize_limit :: "int list \<Rightarrow> int" where
  "fsize_limit sizes = (if sizes = [] then 0 else Max (set sizes)) + FSIZE_HEADROOM"

subsection \<open>The child between fork and exec\<close>

datatype child_call = Set_Fsize int int | Set_Nofile int int | No_New_Privs | Restrict_Self int | Close_Ruleset int

text \<open>\<open>answer c\<close>: the error of call \<open>c\<close>, if it fails. The calls made and how the setup ends.\<close>

fun child_calls :: "(child_call \<Rightarrow> py_exc option) \<Rightarrow> child_call list \<Rightarrow> child_call list \<times> unit res" where
  "child_calls answer [] = ([], Inr ())"
| "child_calls answer (c # cs) = (case answer c of Some e \<Rightarrow> ([c], Inl e)
     | None \<Rightarrow> (case child_calls answer cs of (done, r) \<Rightarrow> (c # done, r)))"

definition child_setup ::
  "(child_call \<Rightarrow> py_exc option) \<Rightarrow> int option \<Rightarrow> int \<Rightarrow> int \<Rightarrow> child_call list \<times> unit res" where
  "child_setup answer ruleset fsize nofile = child_calls answer
     ([Set_Fsize fsize fsize, Set_Nofile nofile nofile]
      @ (case ruleset of None \<Rightarrow> [] | Some fd \<Rightarrow> [No_New_Privs, Restrict_Self fd, Close_Ruleset fd]))"

subsection \<open>Facts\<close>

lemma add_rule_run:
  "add_rule k path access s = (case path_fd k path of None \<Rightarrow> (Inl ConfinementError, s)
     | Some fd \<Rightarrow> if accepts k path (narrowed k path access)
        then (Inr (), s\<lparr>rules := rules s @ [(path, narrowed k path access)]\<rparr>)
        else (Inl ConfinementError, s))"
  by (auto simp: add_rule_def open_fd_def close_fd_def io_simps Let_def split: option.split)

definition rule_set :: "kernel \<Rightarrow> access \<Rightarrow> (path \<times> access) list \<Rightarrow> (path \<times> access) list" where
  "rule_set k handled rs = List.map (\<lambda>r. (fst r, narrowed k (fst r) (snd r AND handled))) rs"

lemma add_rules_run:
  "(\<exists>done. add_rules k h rs s = (Inl ConfinementError, s\<lparr>rules := rules s @ done\<rparr>))
   \<or> add_rules k h rs s = (Inr (), s\<lparr>rules := rules s @ rule_set k h rs\<rparr>)"
proof (induction rs arbitrary: s)
  case Nil
  then show ?case by (simp add: io_simps rule_set_def)
next
  case (Cons r rs)
  obtain p a where r: "r = (p, a)" by (cases r)
  show ?case
  proof (cases "path_fd k p \<noteq> None \<and> accepts k p (narrowed k p (a AND h))")
    case True
    let ?t = "s\<lparr>rules := rules s @ [(p, narrowed k p (a AND h))]\<rparr>"
    have "add_rules k h (r # rs) s = add_rules k h rs ?t"
      using True by (auto simp: r io_simps add_rule_run)
    then show ?thesis using Cons [of ?t] by (auto simp: rule_set_def r)
  next
    case False
    then have "add_rules k h (r # rs) s = (Inl ConfinementError, s\<lparr>rules := rules s @ []\<rparr>)"
      by (auto simp: r io_simps add_rule_run split: option.splits)
    then show ?thesis by blast
  qed
qed

lemma build_ruleset_run:
  "(abi_version k = 0 \<and> build_ruleset k p s = (Inr None, s))
   \<or> (abi_version k \<noteq> 0 \<and> create_answer k \<ge> 0 \<and> build_ruleset k p s = (Inr (Some (create_answer k)),
        s\<lparr>fds := create_answer k # fds s,
          rules := rules s @ rule_set k (handled_by_abi (min (abi_version k) NEWEST_ABI)) (plan_rules p)\<rparr>))
   \<or> (\<exists>done. abi_version k \<noteq> 0 \<and> build_ruleset k p s = (Inl ConfinementError, s\<lparr>rules := rules s @ done\<rparr>))"
proof -
  let ?fd = "create_answer k" and ?h = "handled_by_abi (min (abi_version k) NEWEST_ABI)"
  consider "abi_version k = 0" | "abi_version k \<noteq> 0" "?fd < 0" | "abi_version k \<noteq> 0" "\<not> ?fd < 0" by blast
  then show ?thesis
  proof cases
    case 1
    then show ?thesis by (simp add: build_ruleset_def io_simps)
  next
    case 2
    then have "build_ruleset k p s = (Inl ConfinementError, s\<lparr>rules := rules s @ []\<rparr>)"
      by (simp add: build_ruleset_def io_simps)
    then show ?thesis using 2 by blast
  next
    case 3
    have "(\<exists>done. build_ruleset k p s = (Inl ConfinementError, s\<lparr>rules := rules s @ done\<rparr>))
      \<or> build_ruleset k p s = (Inr (Some ?fd), s\<lparr>fds := ?fd # fds s, rules := rules s @ rule_set k ?h (plan_rules p)\<rparr>)"
      using add_rules_run [of k ?h "plan_rules p" "s\<lparr>fds := ?fd # fds s\<rparr>"] 3
      by (auto simp: build_ruleset_def io_simps open_fd_def close_fd_def Let_def)
    then show ?thesis using 3 by auto
  qed
qed

text \<open>
  Building the ruleset leaks no file descriptor: it returns None and changes nothing
  exactly if the kernel has no Landlock; it returns a descriptor and leaves just that one open; or
  it raises \<open>ConfinementError\<close> and leaves the descriptors as they were.
\<close>

theorem build_ruleset_keeps_fds:
  "case build_ruleset k p s of
     (Inr None, t) \<Rightarrow> abi_version k = 0 \<and> t = s
   | (Inr (Some fd), t) \<Rightarrow> abi_version k \<noteq> 0 \<and> fd = create_answer k \<and> fds t = fd # fds s
   | (Inl e, t) \<Rightarrow> abi_version k \<noteq> 0 \<and> e = ConfinementError \<and> fds t = fds s"
  using build_ruleset_run [of k p s] by auto

lemma narrowed_facts:
  "narrowed k p (x AND h) AND h = narrowed k p (x AND h)"
  "is_directory k p \<or> narrowed k p y AND FILE_ACCESS = narrowed k p y"
  by (auto simp: narrowed_def bit_and_iff intro!: bit_eqI)

text \<open>
  Every rule of a finished ruleset is for a path of the plan, in its order, asks for
  no right that this ABI of the kernel does not know, and for anything but a directory for no
  right that Landlock refuses on a file.
\<close>

theorem rules_are_acceptable:
  assumes "build_ruleset k p s = (Inr (Some fd), t)" "rules s = []"
  shows "List.map fst (rules t) = executable p @ readable p @ writable p
    \<and> (\<forall>r\<in>set (rules t). snd r AND handled_by_abi (min (abi_version k) NEWEST_ABI) = snd r
        \<and> (is_directory k (fst r) \<or> snd r AND FILE_ACCESS = snd r))"
proof -
  let ?h = "handled_by_abi (min (abi_version k) NEWEST_ABI)"
  have rs: "rules t = rule_set k ?h (plan_rules p)"
    using build_ruleset_run [of k p s] assms by auto
  have "List.map fst (rules t) = executable p @ readable p @ writable p"
    by (simp add: rs rule_set_def plan_rules_def comp_def)
  moreover have "snd r AND ?h = snd r \<and> (is_directory k (fst r) \<or> snd r AND FILE_ACCESS = snd r)"
    if mem: "r \<in> set (rules t)" for r
  proof -
    obtain q a where r: "r = (q, narrowed k q (a AND ?h))" using mem by (auto simp: rs rule_set_def)
    show ?thesis using narrowed_facts(1) [of k q a ?h] narrowed_facts(2) [of k q "a AND ?h"] by (simp add: r)
  qed
  ultimately show ?thesis by blast
qed

definition sample_kernel :: kernel where
  "sample_kernel = \<lparr>version_answer = 6, create_answer = 9, path_fd = (\<lambda>_. Some 10),
     is_directory = (\<lambda>p. length (parts p) = 3), accepts = (\<lambda>_ _. True)\<rparr>"

definition sample_plan :: plan where
  "sample_plan = plan_for (mk_path ''/usr/bin/firecracker'') (mk_path ''/boot/vmlinux'') (mk_path ''/tmp/keycard/a-1'') []"

theorem rules_are_acceptable_witness:
  "\<exists>t. build_ruleset sample_kernel sample_plan \<lparr>fds = [], rules = []\<rparr> = (Inr (Some 9), t)
     \<and> length (rules t) = 4 \<and> List.map fst (rules t) = executable sample_plan @ readable sample_plan @ writable sample_plan"
proof -
  have "fst (build_ruleset sample_kernel sample_plan \<lparr>fds = [], rules = []\<rparr>) = Inr (Some 9)
    \<and> length (rules (snd (build_ruleset sample_kernel sample_plan \<lparr>fds = [], rules = []\<rparr>))) = 4"
    by code_simp
  then obtain t where "build_ruleset sample_kernel sample_plan \<lparr>fds = [], rules = []\<rparr> = (Inr (Some 9), t)"
    "length (rules t) = 4" by (metis fst_conv snd_conv surj_pair)
  then show ?thesis using rules_are_acceptable [of sample_kernel sample_plan "\<lparr>fds = [], rules = []\<rparr>" 9] by auto
qed

text \<open>
  The plan of one microVM reaches nothing of another room: no rule names a directory
  above a file of a sibling instance, as long as the binary and the guest kernel are not
  themselves above it, and the only rules with a right beyond reading and executing are those for
  the room's own directory and \<open>/dev/kvm\<close>.
\<close>

theorem plan_isolates_rooms:
  assumes "plain_name own" "plain_name other" "own \<noteq> other" "beneath (path_join rt other) q"
    and "\<not> beneath binary q" "\<not> beneath guest_kernel q" "\<not> beneath KVM q"
  shows "(\<forall>r\<in>set (plan_rules (plan_for binary guest_kernel (path_join rt own) [])). \<not> beneath (fst r) q)
    \<and> (\<forall>r\<in>set (plan_rules (plan_for binary guest_kernel (path_join rt own) [])).
         snd r AND X_WRITE_FILE \<noteq> 0 \<longrightarrow> fst r = path_join rt own \<or> fst r = KVM)"
proof -
  have "\<not> beneath (path_join rt own) q"
    using siblings_not_beneath [OF assms(2,1) _ assms(4)] assms(3) by auto
  moreover have "A_EXECUTE AND X_WRITE_FILE = 0" "A_READ AND X_WRITE_FILE = 0" by code_simp+
  ultimately show ?thesis using assms by (auto simp: plan_rules_def plan_for_def)
qed

theorem plan_isolates_rooms_witness:
  "\<not> beneath (path_join (mk_path ''/tmp/keycard'') ''a-1'') (mk_path ''/tmp/keycard/b-2/memory'') \<and>
   (\<forall>r\<in>set (plan_rules (plan_for (mk_path ''/usr/bin/firecracker'') (mk_path ''/boot/vmlinux'')
        (path_join (mk_path ''/tmp/keycard'') ''a-1'') [])). \<not> beneath (fst r) (mk_path ''/tmp/keycard/b-2/memory''))"
proof -
  let ?rt = "mk_path ''/tmp/keycard''" and ?q = "mk_path ''/tmp/keycard/b-2/memory''"
  have "plain_name ''a-1''" "plain_name ''b-2''" "beneath (path_join ?rt ''b-2'') ?q"
    "\<not> beneath (mk_path ''/usr/bin/firecracker'') ?q" "\<not> beneath (mk_path ''/boot/vmlinux'') ?q" "\<not> beneath KVM ?q"
    by code_simp+
  from plan_isolates_rooms [OF this(1,2) _ this(3-6)] show ?thesis
    by (auto simp: plan_rules_def plan_for_def)
qed

lemma child_calls_ok:
  "snd (child_calls answer cs) = Inr u \<longleftrightarrow> (\<forall>c\<in>set cs. answer c = None)"
  by (induction cs) (auto split: option.splits prod.splits)

lemma child_calls_all:
  "\<forall>c\<in>set cs. answer c = None \<Longrightarrow> fst (child_calls answer cs) = cs"
  by (induction cs) (auto split: option.splits prod.splits)

text \<open>
  The child gets as far as exec only if every call of the setup succeeded: the two
  limits, and with a ruleset first \<open>no_new_privs\<close>, then the restriction, then closing the ruleset.
  A VMM with a ruleset never runs unrestricted.
\<close>

theorem child_setup_restricts:
  "(snd (child_setup answer ruleset fsize nofile) = Inr u \<longleftrightarrow>
     answer (Set_Fsize fsize fsize) = None \<and> answer (Set_Nofile nofile nofile) = None
     \<and> (case ruleset of None \<Rightarrow> True | Some fd \<Rightarrow> answer No_New_Privs = None
          \<and> answer (Restrict_Self fd) = None \<and> answer (Close_Ruleset fd) = None))
   \<and> (snd (child_setup answer (Some fd) fsize nofile) = Inr v \<longrightarrow>
        fst (child_setup answer (Some fd) fsize nofile) = [Set_Fsize fsize fsize, Set_Nofile nofile nofile,
          No_New_Privs, Restrict_Self fd, Close_Ruleset fd])"
proof -
  have "fst (child_setup answer (Some fd) fsize nofile) = [Set_Fsize fsize fsize, Set_Nofile nofile nofile,
          No_New_Privs, Restrict_Self fd, Close_Ruleset fd]"
    if "snd (child_setup answer (Some fd) fsize nofile) = Inr v"
    using that unfolding child_setup_def child_calls_ok by (subst child_calls_all) simp_all
  moreover have "snd (child_setup answer ruleset fsize nofile) = Inr u \<longleftrightarrow>
     answer (Set_Fsize fsize fsize) = None \<and> answer (Set_Nofile nofile nofile) = None
     \<and> (case ruleset of None \<Rightarrow> True | Some fd \<Rightarrow> answer No_New_Privs = None
          \<and> answer (Restrict_Self fd) = None \<and> answer (Close_Ruleset fd) = None)"
    unfolding child_setup_def child_calls_ok by (cases ruleset) simp_all
  ultimately show ?thesis by blast
qed

theorem child_setup_restricts_witness:
  "child_setup (\<lambda>c. if c = No_New_Privs then Some OSError else None) (Some 9) 5 6
     = ([Set_Fsize 5 5, Set_Nofile 6 6, No_New_Privs], Inl OSError) \<and>
   snd (child_setup (\<lambda>c. if c = No_New_Privs then Some OSError else None) (Some 9) 5 6) \<noteq> Inr ()"
  using child_setup_restricts [of "\<lambda>c. if c = No_New_Privs then Some OSError else None" "Some 9" 5 6 "()" 9 "()"]
  by (simp add: child_setup_def)

end
