(* ===== verification/Microvm.thy ===== *)
theory Microvm
  imports Guest_Wire Config Confine "HOL-Library.List_Lexorder" "HOL-Library.Char_ord"
begin

section \<open>Configuration of a microVM (src/keycard/backends/firecracker.py, the pure part)\<close>

text \<open>
  Sizes, paths of an instance, the startup checks, and the sweep of what a crash left behind.
\<close>

subsection \<open>Memory and machine configuration\<close>

definition DATA_PORT :: int where "DATA_PORT = 10000"
definition CTRL_PORT :: int where "CTRL_PORT = 10001"
definition GUEST_CID :: int where "GUEST_CID = 3"
definition DEFAULT_MEM_MIB :: int where "DEFAULT_MEM_MIB = 1024"
definition MIN_MEM_MIB :: int where "MIN_MEM_MIB = 16"
definition MAX_VCPUS :: int where "MAX_VCPUS = 32"
definition DEFAULT_VCPUS :: int where "DEFAULT_VCPUS = 1"

definition memory_unit :: "char \<Rightarrow> rat option" where
  "memory_unit c = (if c = CHR ''b'' then Some (1 / 2 ^ 20) else if c = CHR ''k'' then Some (1 / 2 ^ 10)
     else if c = CHR ''m'' then Some 1 else if c = CHR ''g'' then Some 1024 else None)"

definition parse_memory_mib :: "string \<Rightarrow> int \<Rightarrow> int res" where
  "parse_memory_mib spec dflt = (let s = lower (strip_by is_space spec) in
     if s = [] then Inr dflt
     else (let u = memory_unit (last s); number = (if u = None then s else butlast s);
             factor = (case u of None \<Rightarrow> 1 / 2 ^ 20 | Some x \<Rightarrow> x) in
       case py_float number of
         Inl e \<Rightarrow> if e = ValueError then Inr dflt else Inl e
       | Inr f \<Rightarrow> bind_res (f_to_int (fscale f factor)) (\<lambda>v. Inr (max MIN_MEM_MIB v))))"

definition machine_config :: "room_config \<Rightarrow> (int \<times> int) res" where
  "machine_config room = bind_res (parse_memory_mib (rc_memory room) DEFAULT_MEM_MIB) (\<lambda>mem.
     Inr (max 1 (min (if rc_cpus room = 0 then DEFAULT_VCPUS else rc_cpus room) MAX_VCPUS), mem))"

subsection \<open>Instances\<close>

record vm_instance =
  inst_id :: string
  inst_dir :: path

text \<open>\<open>u\<close>: the twelve hexadecimal digits that \<open>uuid4\<close> gave.\<close>

definition instance_for :: "path \<Rightarrow> string \<Rightarrow> string \<Rightarrow> vm_instance" where
  "instance_for runtime_dir room_name u = (let i = room_name @ ''-'' @ u in
     \<lparr>inst_id = i, inst_dir = path_join runtime_dir i\<rparr>)"

definition owner_pid :: "vm_instance \<Rightarrow> path" where "owner_pid i = path_join (inst_dir i) ''owner.pid''"
definition vmm_pid :: "vm_instance \<Rightarrow> path" where "vmm_pid i = path_join (inst_dir i) ''vmm.pid''"
definition api_sock :: "vm_instance \<Rightarrow> path" where "api_sock i = path_join (inst_dir i) ''api.sock''"
definition vsock_sock :: "vm_instance \<Rightarrow> path" where "vsock_sock i = path_join (inst_dir i) ''vsock.sock''"
definition inst_rootfs :: "vm_instance \<Rightarrow> path" where "inst_rootfs i = path_join (inst_dir i) ''rootfs.ext4''"
definition inst_snapshot :: "vm_instance \<Rightarrow> path" where "inst_snapshot i = path_join (inst_dir i) ''snapshot''"
definition mem_file :: "vm_instance \<Rightarrow> path" where "mem_file i = path_join (inst_dir i) ''memory''"
definition console_log :: "vm_instance \<Rightarrow> path" where "console_log i = path_join (inst_dir i) ''console.log''"

definition firecracker_argv :: "string \<Rightarrow> path \<Rightarrow> string list" where
  "firecracker_argv binary sock = [binary, ''--api-sock'', str_path sock]"

subsection \<open>Startup checks\<close>

record host =
  which :: "string \<Rightarrow> string option"
  is_file :: "path \<Rightarrow> bool"
  is_dir :: "path \<Rightarrow> bool"
  has_kvm :: bool
  landlock :: int

definition check_confinement :: "int \<Rightarrow> string \<Rightarrow> unit res" where
  "check_confinement abi mode = (if mode = ''off'' then Inr () else if abi \<noteq> 0 then Inr ()
     else if mode = ''required'' then Inl FirecrackerError else Inr ())"

definition preflight :: "host \<Rightarrow> firecracker_config \<Rightarrow> string res" where
  "preflight h fc = (case which h (fc_binary fc) of
     None \<Rightarrow> Inl FirecrackerError
   | Some binary \<Rightarrow> (case fc_kernel fc of
       None \<Rightarrow> Inl FirecrackerError
     | Some k \<Rightarrow>
        if \<not> is_file h k then Inl FirecrackerError
        else if \<not> is_dir h (fc_rootfs_dir fc) then Inl FirecrackerError
        else if \<not> has_kvm h then Inl FirecrackerError
        else bind_res (check_confinement (landlock h) (fc_confinement fc)) (\<lambda>_. Inr binary)))"

definition rootfs_for :: "env \<Rightarrow> firecracker_config \<Rightarrow> room_config \<Rightarrow> path res" where
  "rootfs_for ev fc room = (if rc_rootfs room \<noteq> [] then expanduser ev (mk_path (rc_rootfs room))
     else Inr (path_join (fc_rootfs_dir fc) (rc_name room @ ''.ext4'')))"

definition ruleset_for :: "kernel \<Rightarrow> string \<Rightarrow> firecracker_config \<Rightarrow> vm_instance \<Rightarrow> (process, int option) io" where
  "ruleset_for k binary fc i = (if fc_confinement fc = ''off'' then ret_io None
     else (case fc_kernel fc of None \<Rightarrow> raise_io RuntimeError
       | Some g \<Rightarrow> build_ruleset k (plan_for (mk_path binary) g (inst_dir i) [])))"

definition fsize_for :: "int option \<Rightarrow> int \<Rightarrow> int" where
  "fsize_for rootfs_size mem_mib =
     fsize_limit [case rootfs_size of None \<Rightarrow> 0 | Some n \<Rightarrow> n, mem_mib * 1024 * 1024]"

subsection \<open>The sweep at startup\<close>

text \<open>
  An entry of the runtime directory: whether it is a directory and what its two pid files hold
  (None: it cannot be read). \<open>alive\<close> and \<open>cmdline\<close> are the process table.
\<close>

record entry =
  e_dir :: bool
  e_owner :: "string option"
  e_vmm :: "string option"

definition read_pid :: "string option \<Rightarrow> int option" where
  "read_pid content = (case content of None \<Rightarrow> None
     | Some t \<Rightarrow> (case py_int is_space (strip_by is_space t) of Inl e \<Rightarrow> None | Inr n \<Rightarrow> Some n))"

definition pid_is_alive :: "(int \<Rightarrow> bool) \<Rightarrow> string option \<Rightarrow> bool" where
  "pid_is_alive alive content = (case read_pid content of None \<Rightarrow> False | Some n \<Rightarrow> alive n)"

definition process_is :: "(int \<Rightarrow> string option) \<Rightarrow> string option \<Rightarrow> string \<Rightarrow> bool" where
  "process_is cmdline content program = (case read_pid content of
     None \<Rightarrow> False
   | Some n \<Rightarrow> (case cmdline n of None \<Rightarrow> False
       | Some raw \<Rightarrow> (let argv0 = fst (cut (CHR 0x00) raw) in
           argv0 \<noteq> [] \<and> path_name (mk_path argv0) = program)))"

definition instance_is_debris :: "(int \<Rightarrow> bool) \<Rightarrow> (int \<Rightarrow> string option) \<Rightarrow> entry \<Rightarrow> bool" where
  "instance_is_debris alive cmdline x = (if \<not> e_dir x then False
     else if pid_is_alive alive (e_owner x) then False
     else \<not> process_is cmdline (e_vmm x) ''firecracker'')"

text \<open>
  The entries by name, None where there is none; \<open>gone\<close> tells for which \<open>rmtree\<close> really removes
  the directory, its errors are ignored. The names reaped and the entries that are left.
\<close>

fun reap_loop :: "(int \<Rightarrow> bool) \<Rightarrow> (int \<Rightarrow> string option) \<Rightarrow> (string \<Rightarrow> bool) \<Rightarrow> string list \<Rightarrow>
    (string \<Rightarrow> entry option) \<Rightarrow> string list \<times> (string \<Rightarrow> entry option)" where
  "reap_loop alive cmdline gone [] d = ([], d)"
| "reap_loop alive cmdline gone (n # ns) d = (case d n of
     None \<Rightarrow> reap_loop alive cmdline gone ns d
   | Some x \<Rightarrow> if \<not> instance_is_debris alive cmdline x then reap_loop alive cmdline gone ns d
       else (case reap_loop alive cmdline gone ns (if gone n then d(n := None) else d) of
         (reaped, d') \<Rightarrow> (n # reaped, d')))"

definition reap_debris :: "(int \<Rightarrow> bool) \<Rightarrow> (int \<Rightarrow> string option) \<Rightarrow> (string \<Rightarrow> bool) \<Rightarrow>
    string list option \<Rightarrow> (string \<Rightarrow> entry option) \<Rightarrow> string list \<times> (string \<Rightarrow> entry option)" where
  "reap_debris alive cmdline gone listing d = (case listing of
     None \<Rightarrow> ([], d) | Some names \<Rightarrow> reap_loop alive cmdline gone (sort names) d)"

end
