(* ===== verification/Microvm_Props.thy ===== *)
theory Microvm_Props
  imports Microvm
begin

section \<open>Properties of the microVM configuration\<close>

subsection \<open>Memory\<close>

lemma lower_token:
  "(\<And>c. c \<in> set s \<Longrightarrow> code c < 65 \<or> 90 < code c) \<Longrightarrow> lower s = s"
  unfolding lower_def by (rule map_idI) (fastforce simp: lower_char_def)

lemma digit_or_unit: "memory_unit c = Some x \<Longrightarrow> \<not> is_space c \<and> 90 < code c"
  by (auto simp: memory_unit_def is_space_def code_def split: if_splits)

lemma lower_mem: "c = [] \<or> memory_unit (hd c) \<noteq> None \<and> tl c = [] \<Longrightarrow>
    lower (strip_by is_space (show_nat n @ c)) = show_nat n @ c"
proof -
  assume c: "c = [] \<or> memory_unit (hd c) \<noteq> None \<and> tl c = []"
  have "strip_by is_space (show_nat n @ c) = show_nat n @ c"
    using c by (intro strip_by_none) (cases c; auto dest: digits_show_nat digit_or_unit simp: not_digit_facts)
  moreover have "lower (show_nat n @ c) = show_nat n @ c"
    using c by (intro lower_token)
      (cases c; auto dest!: digits_show_nat digit_or_unit simp: is_digit_def)
  ultimately show ?thesis by simp
qed

lemma fscale_pow2: "n < 2 ^ 53 \<Longrightarrow> - 1074 \<le> e \<Longrightarrow> e \<le> 900 \<Longrightarrow> fscale (Fin (of_nat n)) (pow2 e) = Fin (of_nat n * pow2 e)"
  using rnd_exact [of "int n" e] by simp

lemma memory_case:
  assumes n: "n < 2 ^ 53" and e: "- 20 \<le> e" "e \<le> 10"
    and c: "(c = [] \<and> e = - 20) \<or> (\<exists>u. c = [u] \<and> memory_unit u = Some (pow2 e))"
  shows "parse_memory_mib (show_nat n @ c) d = Inr (max 16 \<lfloor>of_nat n * pow2 e\<rfloor>)"
proof -
  have low: "lower (strip_by is_space (show_nat n @ c)) = show_nat n @ c"
    using c by (intro lower_mem) auto
  have none: "memory_unit (last (show_nat n)) = None"
    using last_show_nat [of n] digit_or_unit [of "last (show_nat n)"]
    by (cases "memory_unit (last (show_nat n))") (auto simp: is_digit_def)
  have fl: "f_to_int (fscale (Fin (of_nat n)) (pow2 e)) = Inr \<lfloor>of_nat n * pow2 e\<rfloor>"
  proof -
    have "0 \<le> (of_nat n :: rat) * pow2 e" by (intro mult_nonneg_nonneg less_imp_le [OF pow2_pos]) simp
    then show ?thesis using fscale_pow2 [OF n, of e] e by simp
  qed
  have p20: "1 / 2 ^ 20 = pow2 (- 20)" by (simp add: pow2_def)
  show ?thesis
    using c py_float_show_nat [OF n] none fl
    by (auto simp: parse_memory_mib_def Let_def low MIN_MEM_MIB_def p20 simp del: fscale.simps power_numeral)
qed

text \<open>
  A whole number of bytes, with a unit k, m or g or without one, is converted to
  mebibytes rounded down, and raised to the 16 MiB that Firecracker asks for; nothing is lost to
  floating point below 2^53.
\<close>

theorem parse_memory_exact:
  assumes "n < 2 ^ 53"
  shows "parse_memory_mib (show_nat n) d = Inr (max 16 (int (n div 2 ^ 20)))
    \<and> parse_memory_mib (show_nat n @ ''k'') d = Inr (max 16 (int (n div 2 ^ 10)))
    \<and> parse_memory_mib (show_nat n @ ''m'') d = Inr (max 16 (int n))
    \<and> parse_memory_mib (show_nat n @ ''g'') d = Inr (max 16 (1024 * int n))"
proof -
  have fl: "\<lfloor>(of_nat n :: rat) * pow2 (- 20)\<rfloor> = int (n div 2 ^ 20)"
    "\<lfloor>(of_nat n :: rat) * pow2 (- 10)\<rfloor> = int (n div 2 ^ 10)"
    using floor_divide_of_nat_eq [where ?'a = rat, of n "2 ^ 20"]
      floor_divide_of_nat_eq [where ?'a = rat, of n "2 ^ 10"] by (simp_all add: pow2_def)
  have up: "\<lfloor>(of_nat n :: rat) * pow2 0\<rfloor> = int n" "\<lfloor>(of_nat n :: rat) * pow2 10\<rfloor> = 1024 * int n"
  proof -
    show "\<lfloor>(of_nat n :: rat) * pow2 0\<rfloor> = int n" by simp
    have "(of_nat n :: rat) * pow2 10 = of_int (1024 * int n)" by (simp add: pow2_def)
    then show "\<lfloor>(of_nat n :: rat) * pow2 10\<rfloor> = 1024 * int n" by (simp only: floor_of_int)
  qed
  have units: "memory_unit (CHR ''k'') = Some (pow2 (- 10))" "memory_unit (CHR ''m'') = Some (pow2 0)"
    "memory_unit (CHR ''g'') = Some (pow2 10)" by (simp_all add: memory_unit_def pow2_def)
  show ?thesis
    using memory_case [OF assms, of "- 20" "[]" d] memory_case [OF assms _ _ disjI2, of "- 10" "''k''" d]
      memory_case [OF assms _ _ disjI2, of 0 "''m''" d] memory_case [OF assms _ _ disjI2, of 10 "''g''" d] units
    unfolding fl up by simp
qed

theorem parse_memory_exact_witness:
  "parse_memory_mib (show_nat 2 @ ''g'') 1024 = Inr 2048"
  using parse_memory_exact [of 2 1024] by simp

definition memory_number :: "string \<Rightarrow> string" where
  "memory_number spec = (let s = lower (strip_by is_space spec) in
     if s \<noteq> [] \<and> memory_unit (last s) \<noteq> None then butlast s else s)"

lemma py_float_error: "py_float s = Inl e \<Longrightarrow> e = ValueError"
  by (auto simp: py_float_def Let_def split: if_splits prod.splits option.splits)

lemma f_to_int_error: "f_to_int f = Inl e \<Longrightarrow> (\<forall>x. f \<noteq> Fin x) \<and> (e = OverflowError \<or> e = ValueError)"
  by (cases f) auto

lemma memory_raises:
  assumes "parse_memory_mib spec d = Inl e"
  shows "\<exists>f u. py_float (memory_number spec) = Inr f \<and> (\<forall>x. fscale f u \<noteq> Fin x)
    \<and> (e = OverflowError \<or> e = ValueError)"
proof -
  let ?s = "lower (strip_by is_space spec)"
  have ne: "?s \<noteq> []" using assms by (auto simp: parse_memory_mib_def Let_def)
  define u where "u = (case memory_unit (last ?s) of None \<Rightarrow> 1 / 2 ^ 20 | Some x \<Rightarrow> x)"
  have num: "memory_number spec = (if memory_unit (last ?s) = None then ?s else butlast ?s)"
    using ne by (simp add: memory_number_def Let_def)
  obtain f where f: "py_float (memory_number spec) = Inr f"
    using assms ne py_float_error by (cases "py_float (memory_number spec)")
      (auto simp: parse_memory_mib_def Let_def num split: if_splits)
  have "bind_res (f_to_int (fscale f u)) (\<lambda>v. Inr (max MIN_MEM_MIB v)) = Inl e"
    using assms ne f by (simp add: parse_memory_mib_def Let_def num u_def)
  then have "f_to_int (fscale f u) = Inl e" by (simp add: bind_res_Inl_iff)
  from f_to_int_error [OF this] f show ?thesis by blast
qed

lemma memory_at_least: "parse_memory_mib spec d = Inr n \<Longrightarrow> n = d \<or> 16 \<le> n"
  by (auto simp: parse_memory_mib_def Let_def bind_res_Inr_iff MIN_MEM_MIB_def split: sum.splits if_splits)

text \<open>
  A memory setting is not always shrugged at: infinity and not-a-number raise, and
  so the room fails to open; they are the only kind of text that does, every other one falls back
  to the default or gives at least 16 MiB.
\<close>

theorem parse_memory_raises:
  "parse_memory_mib ''inf'' d = Inl OverflowError \<and> parse_memory_mib ''nan'' d = Inl ValueError
   \<and> (\<forall>spec. (\<exists>f u. py_float (memory_number spec) = Inr f \<and> (\<forall>x. fscale f u \<noteq> Fin x))
        \<or> (\<exists>n. parse_memory_mib spec d = Inr n \<and> (n = d \<or> 16 \<le> n)))"
proof -
  have "py_float ''inf'' = Inr (Inf False)" "py_float ''nan'' = Inr NaN" by code_simp+
  moreover have "lower (strip_by is_space ''inf'') = ''inf''" "lower (strip_by is_space ''nan'') = ''nan''"
    "memory_unit (last ''inf'') = None" "memory_unit (last ''nan'') = None" by code_simp+
  ultimately have "parse_memory_mib ''inf'' d = Inl OverflowError" "parse_memory_mib ''nan'' d = Inl ValueError"
    by (simp_all add: parse_memory_mib_def Let_def)
  moreover have "(\<exists>f u. py_float (memory_number spec) = Inr f \<and> (\<forall>x. fscale f u \<noteq> Fin x))
        \<or> (\<exists>n. parse_memory_mib spec d = Inr n \<and> (n = d \<or> 16 \<le> n))" for spec
    using memory_raises [of spec d] memory_at_least [of spec d] by (cases "parse_memory_mib spec d") blast+
  ultimately show ?thesis by blast
qed



subsection \<open>Instance directories\<close>

text \<open>
  For a room name without a slash the instance directory lies directly in the runtime
  directory, is named by the instance's id, differs for different instances, and every file of an
  instance is beneath its own directory and beneath no other instance's.
\<close>

theorem instances_are_separate:
  assumes "plain_name (room @ ''-'' @ u)" "plain_name (room' @ ''-'' @ u')" "room @ ''-'' @ u \<noteq> room' @ ''-'' @ u'"
  shows "path_parent (inst_dir (instance_for rt room u)) = rt
    \<and> path_name (inst_dir (instance_for rt room u)) = inst_id (instance_for rt room u)
    \<and> (\<forall>f \<in> {owner_pid, vmm_pid, api_sock, vsock_sock, inst_rootfs, inst_snapshot, mem_file, console_log}.
         beneath (inst_dir (instance_for rt room u)) (f (instance_for rt room u))
         \<and> \<not> beneath (inst_dir (instance_for rt room' u')) (f (instance_for rt room u)))"
proof -
  have d: "inst_dir (instance_for rt r v) = path_join rt (r @ ''-'' @ v)" for r v
    by (simp add: instance_for_def Let_def)
  have plain: "plain_name n" if "n \<in> {''owner.pid'', ''vmm.pid'', ''api.sock'', ''vsock.sock'', ''rootfs.ext4'',
      ''snapshot'', ''memory'', ''console.log''}" for n
    using that by (auto simp: plain_name_def)
  have away: "\<not> beneath (path_join rt (room' @ ''-'' @ u')) (path_join (path_join rt (room @ ''-'' @ u)) n)"
    if "plain_name n" for n
    using siblings_not_beneath [OF assms(1,2,3) beneath_join [OF that]] .
  show ?thesis
    using assms(1) plain away
    by (simp add: d owner_pid_def vmm_pid_def api_sock_def vsock_sock_def inst_rootfs_def
        inst_snapshot_def mem_file_def console_log_def del: path_join_plain) (simp add: instance_for_def Let_def)
qed

theorem instances_are_separate_witness:
  "path_parent (inst_dir (instance_for (mk_path ''/tmp/keycard'') ''ubuntu'' ''0a1b'')) = mk_path ''/tmp/keycard''"
  using instances_are_separate [of "''ubuntu''" "''0a1b''" "''ubuntu''" "''ffff''" "mk_path ''/tmp/keycard''"]
  by (simp add: plain_name_def)

text \<open>
  A room name with a slash breaks this: its instance lies one level deeper, and the
  directory in between, which has no pid files, counts as debris to every other keycard, with the
  live instance inside it.
\<close>

theorem nested_instance_is_swept:
  assumes "plain_name a" "plain_name (b @ ''-'' @ u)"
  shows "path_parent (inst_dir (instance_for rt (a @ ''/'' @ b) u)) = path_join rt a
    \<and> inst_dir (instance_for rt (a @ ''/'' @ b) u) = path_join (path_join rt a) (b @ ''-'' @ u)
    \<and> instance_is_debris alive cmdline \<lparr>e_dir = True, e_owner = None, e_vmm = None\<rparr>"
proof -
  have split: "split_char d (x @ d # y) = x # split_char d y" if "d \<notin> set x" for d x y
    using that by (induction x) auto
  have "path_parts (a @ CHR ''/'' # b @ ''-'' @ u) = [a, b @ ''-'' @ u]"
    using assms split [of "CHR ''/''" a "b @ ''-'' @ u"] split_char_none [of "CHR ''/''" "b @ ''-'' @ u"]
    by (auto simp: path_parts_def plain_name_def)
  moreover have "path_root (a @ CHR ''/'' # b @ ''-'' @ u) = []"
    using assms(1) by (cases a) (auto simp: plain_name_def path_root_def)
  ultimately have "inst_dir (instance_for rt (a @ ''/'' @ b) u) = path_join (path_join rt a) (b @ ''-'' @ u)"
    using assms by (simp add: instance_for_def Let_def path_join_def path_root_plain path_parts_plain)
  then show ?thesis
    using assms(2) by (simp add: instance_is_debris_def pid_is_alive_def process_is_def read_pid_def del: path_join_plain)
qed

theorem nested_instance_is_swept_witness:
  "inst_dir (instance_for (mk_path ''/tmp/keycard'') ''team/py'' ''0a1b'') = mk_path ''/tmp/keycard/team/py-0a1b''
   \<and> path_parent (inst_dir (instance_for (mk_path ''/tmp/keycard'') ''team/py'' ''0a1b'')) = path_join (mk_path ''/tmp/keycard'') ''team''"
proof -
  have dir: "path_join (path_join (mk_path ''/tmp/keycard'') ''team'') (''py'' @ ''-'' @ ''0a1b'') = mk_path ''/tmp/keycard/team/py-0a1b''"
    and name: "''team'' @ ''/'' @ ''py'' = ''team/py''" and plain: "plain_name ''team''" "plain_name (''py'' @ ''-'' @ ''0a1b'')"
    by code_simp+
  show ?thesis
    using nested_instance_is_swept [OF plain, of "mk_path ''/tmp/keycard''"] unfolding dir name by blast
qed

subsection \<open>The sweep\<close>

lemma subseq_sorted: "subseq xs ys \<Longrightarrow> sorted ys \<Longrightarrow> sorted (xs :: string list)"
  by (induction rule: list_emb.induct) (auto dest: list_emb_set)

lemma reap_loop_exact:
  "reap_loop alive cmdline gone ns d = (r, d') \<Longrightarrow>
     set r = {n \<in> set ns. \<exists>x. d n = Some x \<and> instance_is_debris alive cmdline x}
     \<and> subseq r ns \<and> d' = (\<lambda>n. if n \<in> set r \<and> gone n then None else d n)"
proof (induction ns arbitrary: d r d')
  case (Cons n ns)
  show ?case
  proof (cases "\<exists>x. d n = Some x \<and> instance_is_debris alive cmdline x")
    case False
    then have "reap_loop alive cmdline gone ns d = (r, d')" using Cons.prems by (auto split: option.splits)
    from Cons.IH [OF this] False show ?thesis by auto
  next
    case True
    then obtain r0 where r: "r = n # r0"
      and step: "reap_loop alive cmdline gone ns (if gone n then d(n := None) else d) = (r0, d')"
      using Cons.prems by (auto split: prod.splits)
    from Cons.IH [OF step] True show ?thesis by (auto simp: r fun_eq_iff split: if_splits)
  qed
qed simp


definition two_entries :: "string \<Rightarrow> entry option" where
  "two_entries = [''b-1'' \<mapsto> \<lparr>e_dir = True, e_owner = Some (''12'' @ [LF]), e_vmm = None\<rparr>,
     ''a-1'' \<mapsto> \<lparr>e_dir = True, e_owner = Some (''99'' @ [LF]), e_vmm = Some ''100''\<rparr>]"


text \<open>
  The backend starts exactly if the binary is found, the kernel is configured and is
  a file, the image directory exists, the host has KVM, and confinement is possible or not
  required; every refusal is a \<open>FirecrackerError\<close>.
\<close>

theorem preflight_exact:
  "(preflight h fc = Inr b \<longleftrightarrow> which h (fc_binary fc) = Some b
      \<and> (\<exists>k. fc_kernel fc = Some k \<and> is_file h k) \<and> is_dir h (fc_rootfs_dir fc) \<and> has_kvm h
      \<and> (fc_confinement fc = ''required'' \<longrightarrow> landlock h \<noteq> 0))
   \<and> (preflight h fc = Inl e \<longrightarrow> e = FirecrackerError)"
  by (auto simp: preflight_def check_confinement_def bind_res_Inr_iff bind_res_Inl_iff
      split: option.splits if_splits)

theorem preflight_exact_witness:
  "preflight \<lparr>which = Some, is_file = (\<lambda>_. True), is_dir = (\<lambda>_. True), has_kvm = True, landlock = 0\<rparr>
     ((default_firecracker sample_env)\<lparr>fc_kernel := Some (mk_path ''/boot/vmlinux''), fc_confinement := ''required''\<rparr>)
   \<noteq> Inr ''firecracker''"
  using preflight_exact [of "\<lparr>which = Some, is_file = (\<lambda>_. True), is_dir = (\<lambda>_. True), has_kvm = True, landlock = 0\<rparr>"
     "(default_firecracker sample_env)\<lparr>fc_kernel := Some (mk_path ''/boot/vmlinux''), fc_confinement := ''required''\<rparr>"
     "''firecracker''"] by simp

end
