(* ===== verification/Vsock.thy ===== *)
theory Vsock
  imports Polling
begin

section \<open>Connections to the guest (src/keycard/backends/vsock.py)\<close>

text \<open>
  What a socket delivers is the list of bytes that arrive and how the connection goes on after
  them; an attempt to connect is that and how \<open>sock_connect\<close> and \<open>sock_sendall\<close> end.
\<close>

datatype net_end = Eof | Broken py_exc

definition MAX_ACK :: nat where
  "MAX_ACK = 64"

definition parse_ack :: "string \<Rightarrow> int option" where
  "parse_ack line =
     (if starts_with ''OK'' line then
        (case py_int is_bspace (strip_by is_bspace (after (CHR '' '') line)) of
           Inl e \<Rightarrow> None | Inr n \<Rightarrow> Some n)
      else None)"

text \<open>The bytes of the line so far, those still to come, and how the stream ends after them.\<close>

fun read_ack :: "string \<Rightarrow> string \<Rightarrow> net_end \<Rightarrow> (string \<times> string) res" where
  "read_ack line [] e =
     (if length line < MAX_ACK then (case e of Eof \<Rightarrow> Inr (line, []) | Broken x \<Rightarrow> Inl x)
      else Inr (line, []))"
| "read_ack line (c # cs) e =
     (if length line < MAX_ACK then
        (if c = LF then Inr (line, cs) else read_ack (line @ [c]) cs e)
      else Inr (line, c # cs))"

record attempt =
  on_connect :: "py_exc option"
  on_send :: "py_exc option"
  arrives :: string
  ends :: net_end

definition connect_request :: "int \<Rightarrow> string" where
  "connect_request port = ''CONNECT '' @ show_int port @ [LF]"

definition handshake :: "attempt \<Rightarrow> (string \<times> string) res" where
  "handshake a = (case on_connect a of Some e \<Rightarrow> Inl e
     | None \<Rightarrow> (case on_send a of Some e \<Rightarrow> Inl e | None \<Rightarrow> read_ack [] (arrives a) (ends a)))"

text \<open>The bytes left for the session or the exception raised, and whether the socket is still open.\<close>

definition connect :: "attempt \<Rightarrow> string res \<times> bool" where
  "connect a = (case handshake a of
     Inl e \<Rightarrow> (Inl (if is_oserror e then VsockError else e), False)
   | Inr (ack, rest) \<Rightarrow>
       (case parse_ack ack of None \<Rightarrow> (Inl VsockError, False) | Some port \<Rightarrow> (Inr rest, True)))"

text \<open>
  \<open>att n\<close> is what attempt \<open>n\<close> meets, \<open>elapsed n\<close> the time since the start when it has failed.
  The result is that of the last attempt and how many there were.
\<close>

partial_function (option) retry ::
  "(nat \<Rightarrow> attempt) \<Rightarrow> (nat \<Rightarrow> rat) \<Rightarrow> f64 \<Rightarrow> nat \<Rightarrow> (string res \<times> nat) option" where
  "retry att elapsed timeout n =
     (if fst (connect (att n)) = Inl VsockError then
        (if time_up timeout (elapsed n) then Some (Inl VsockError, Suc n)
         else retry att elapsed timeout (Suc n))
      else Some (fst (connect (att n)), Suc n))"

definition connect_with_retry ::
  "(nat \<Rightarrow> attempt) \<Rightarrow> (nat \<Rightarrow> rat) \<Rightarrow> f64 \<Rightarrow> (string res \<times> nat) option" where
  "connect_with_retry att elapsed timeout = retry att elapsed timeout 0"

definition last_attempt :: "(nat \<Rightarrow> attempt) \<Rightarrow> (nat \<Rightarrow> rat) \<Rightarrow> f64 \<Rightarrow> nat \<Rightarrow> bool" where
  "last_attempt att elapsed timeout n \<longleftrightarrow>
     fst (connect (att n)) \<noteq> Inl VsockError \<or> time_up timeout (elapsed n)"

interpretation retrying: polling "retry att elapsed timeout" "last_attempt att elapsed timeout"
    "\<lambda>n. (fst (connect (att n)), Suc n)" for att elapsed timeout
  by unfold_locales (subst retry.simps, auto simp: last_attempt_def)

subsection \<open>Facts\<close>

lemma read_ack_line:
  "LF \<notin> set ack \<Longrightarrow> length line + length ack < MAX_ACK \<Longrightarrow>
    read_ack line (ack @ LF # rest) e = Inr (line @ ack, rest)"
  by (induction ack arbitrary: line) auto

lemma read_ack_splits:
  "read_ack line cs e = Inr (ack, rest) \<Longrightarrow> length line \<le> MAX_ACK \<Longrightarrow>
    (line @ cs = ack @ rest \<or> line @ cs = ack @ LF # rest) \<and> length ack \<le> MAX_ACK"
  by (induction line cs e rule: read_ack.induct) (auto split: if_splits net_end.splits)

lemma parse_ack_ok: "\<bar>n\<bar> < 10 ^ 20 \<Longrightarrow> parse_ack (''OK '' @ show_int n) = Some n"
  using py_int_show_int_small [OF space_like_is_bspace, of n]
    strip_show_int [OF space_like_is_bspace, of n]
    cut_append [of "CHR '' ''" "''OK''" "show_int n"]
  by (simp add: parse_ack_def after_def)

lemma no_LF_show_int: "LF \<notin> set (show_int n)"
  using digits_show_nat [of LF] by (auto simp: show_int_def is_digit_def code_def)

lemma length_show_int_small: "\<bar>n\<bar> < 10 ^ 20 \<Longrightarrow> length (show_int n) \<le> 21"
proof -
  assume "\<bar>n\<bar> < 10 ^ 20"
  then have "nat \<bar>n\<bar> < 10 ^ Suc 19" by (simp add: nat_less_iff)
  from length_show_nat [OF this] show ?thesis by (cases "n < 0") (auto simp: show_int_def)
qed

text \<open>
  Property C39. The handshake takes exactly its own line off the stream: after a reply with any
  port number the connection is up and the bytes that follow the newline, whatever they are, are
  all left for the session; and in general no byte of the stream is dropped but one newline.
\<close>

theorem handshake_loses_no_bytes:
  assumes "on_connect a = None" "on_send a = None"
    and "arrives a = ''OK '' @ show_int n @ LF # rest" "\<bar>n\<bar> < 10 ^ 20"
  shows "connect a = (Inr rest, True)
    \<and> (\<forall>b ack out. handshake b = Inr (ack, out) \<longrightarrow>
          (arrives b = ack @ out \<or> arrives b = ack @ LF # out) \<and> length ack \<le> MAX_ACK)"
proof -
  have split: "(arrives b = ack @ out \<or> arrives b = ack @ LF # out) \<and> length ack \<le> MAX_ACK"
    if "handshake b = Inr (ack, out)" for b ack out
    using that read_ack_splits [of "[]" "arrives b" "ends b" ack out]
    by (auto simp: handshake_def split: option.splits)
  have "read_ack [] ((''OK '' @ show_int n) @ LF # rest) (ends a) = Inr (''OK '' @ show_int n, rest)"
    using assms(4) no_LF_show_int length_show_int_small [of n]
    by (subst read_ack_line) (auto simp: MAX_ACK_def)
  then have h: "handshake a = Inr (''OK '' @ show_int n, rest)" using assms by (simp add: handshake_def)
  show ?thesis
    using h parse_ack_ok [OF assms(4)] split by (auto simp: connect_def)
qed

theorem handshake_loses_no_bytes_witness:
  "connect \<lparr>on_connect = None, on_send = None, arrives = ''OK '' @ show_int 1073741824 @ LF # ''$ '',
     ends = Eof\<rparr> = (Inr ''$ '', True)"
  using handshake_loses_no_bytes [of "\<lparr>on_connect = None, on_send = None,
     arrives = ''OK '' @ show_int 1073741824 @ LF # ''$ '', ends = Eof\<rparr>"] by simp

text \<open>
  A connection attempt leaves its socket open exactly if it succeeds, and it fails
  with \<open>VsockError\<close> unless something other than an operating system error was raised, which
  passes unchanged.
\<close>

theorem connect_closes_on_failure:
  "snd (connect a) = is_ok (fst (connect a))
   \<and> (\<forall>e. fst (connect a) = Inl e \<longrightarrow> e = VsockError \<or> (handshake a = Inl e \<and> \<not> is_oserror e))"
  by (auto simp: connect_def split: sum.splits option.splits prod.splits if_splits)

theorem connect_closes_on_failure_witness:
  "connect \<lparr>on_connect = Some FileNotFoundError, on_send = None, arrives = [], ends = Eof\<rparr>
     = (Inl VsockError, False) \<and>
   snd (connect \<lparr>on_connect = Some FileNotFoundError, on_send = None, arrives = [], ends = Eof\<rparr>) = False"
  using connect_closes_on_failure [of "\<lparr>on_connect = Some FileNotFoundError, on_send = None, arrives = [], ends = Eof\<rparr>"]
  by (simp add: connect_def handshake_def is_oserror_def)

text \<open>
  Waiting for the guest returns as soon as one attempt does not fail with
  \<open>VsockError\<close> or fails after the deadline, with the result of exactly that attempt; as long as
  the clock eventually passes the deadline, it returns.
\<close>

theorem connect_with_retry_returns:
  assumes "last_attempt att elapsed timeout n"
  shows "\<exists>m\<le>n. connect_with_retry att elapsed timeout = Some (fst (connect (att m)), Suc m)
    \<and> last_attempt att elapsed timeout m
    \<and> (\<forall>j<m. fst (connect (att j)) = Inl VsockError \<and> \<not> time_up timeout (elapsed j))"
  using retrying.returns [OF assms] unfolding connect_with_retry_def
  by (metis last_attempt_def)

definition booting :: "nat \<Rightarrow> attempt" where
  "booting n = \<lparr>on_connect = None, on_send = None,
     arrives = (if n < 3 then [] else ''OK 5'' @ [LF] @ ''hi''), ends = Eof\<rparr>"

theorem connect_with_retry_returns_witness:
  "\<exists>m\<le>3. connect_with_retry booting (\<lambda>n. of_nat n / 20) (Fin 30)
     = Some (fst (connect (booting m)), Suc m)"
proof -
  have "fst (connect (booting 3)) \<noteq> Inl VsockError" by code_simp
  then have "last_attempt booting (\<lambda>n. of_nat n / 20) (Fin 30) 3" by (simp add: last_attempt_def)
  from connect_with_retry_returns [OF this] show ?thesis by blast
qed

end
