(* ===== verification/Fcapi.thy ===== *)
theory Fcapi
  imports Polling
begin

section \<open>Firecracker's control API (src/keycard/backends/fcapi.py)\<close>

text \<open>
  Requests are rendered and responses parsed byte for byte. The text of a response head is
  ISO 8859-1, so a character is a byte here and the white space and letters of that set count.
  What arrives on the socket is a list of bytes and how the stream ends after them. Decoding the
  JSON of an error body is an argument; encoding is modelled, on ASCII text.
\<close>

subsection \<open>JSON\<close>

datatype json = JNull | JBool bool | JInt int | JStr string | JObj "(string \<times> json) list"

definition hex_digit :: "nat \<Rightarrow> char" where
  "hex_digit d = (if d < 10 then char_of (48 + d) else char_of (87 + d))"

definition json_char :: "char \<Rightarrow> string" where
  "json_char c =
     (if c = CHR 0x22 then [CHR 0x5C, CHR 0x22] else if c = CHR 0x5C then [CHR 0x5C, CHR 0x5C]
      else if c = LF then [CHR 0x5C, CHR ''n''] else if c = CR then [CHR 0x5C, CHR ''r'']
      else if c = CHR 0x09 then [CHR 0x5C, CHR ''t''] else if c = CHR 0x0C then [CHR 0x5C, CHR ''f'']
      else if c = CHR 0x08 then [CHR 0x5C, CHR ''b'']
      else if code c < 32 \<or> 126 < code c
      then CHR 0x5C # ''u00'' @ [hex_digit (code c div 16), hex_digit (code c mod 16)]
      else [c])"

definition json_string :: "string \<Rightarrow> string" where
  "json_string s = CHR 0x22 # concat (List.map json_char s) @ [CHR 0x22]"

fun dumps :: "json \<Rightarrow> string" where
  "dumps JNull = ''null''"
| "dumps (JBool b) = (if b then ''true'' else ''false'')"
| "dumps (JInt i) = show_int i"
| "dumps (JStr s) = json_string s"
| "dumps (JObj kvs) =
     CHR ''{'' # join '', '' (List.map (\<lambda>kv. json_string (fst kv) @ '': '' @ dumps (snd kv)) kvs) @ ''}''"

text \<open>\<open>fault_message\<close>: \<open>loads\<close> is the JSON decoder.\<close>

definition fault_message :: "(string \<Rightarrow> json res) \<Rightarrow> string \<Rightarrow> string res" where
  "fault_message loads body = (case loads body of
     Inl e \<Rightarrow> (if e = ValueError \<or> e = TypeError then Inr [] else Inl e)
   | Inr (JObj kvs) \<Rightarrow> (case dget kvs ''fault_message'' of Some (JStr m) \<Rightarrow> Inr m | _ \<Rightarrow> Inr [])
   | Inr _ \<Rightarrow> Inr [])"

subsection \<open>Requests\<close>

definition HOST_HEADER :: string where
  "HOST_HEADER = ''localhost''"

definition REQUEST_TIMEOUT :: f64 where
  "REQUEST_TIMEOUT = Fin 10"

definition SNAPSHOT_TIMEOUT :: f64 where
  "SNAPSHOT_TIMEOUT = Fin 120"

definition payload_of :: "json option \<Rightarrow> string" where
  "payload_of body = (case body of None \<Rightarrow> [] | Some j \<Rightarrow> dumps j)"

definition request_lines :: "string \<Rightarrow> string \<Rightarrow> json option \<Rightarrow> string list" where
  "request_lines meth path body = (let payload = payload_of body in
     [meth @ '' '' @ path @ '' HTTP/1.1'', ''Host: '' @ HOST_HEADER, ''Accept: application/json'',
      ''Connection: close'', ''Content-Length: '' @ show_nat (length payload)]
     @ (if payload \<noteq> [] then [''Content-Type: application/json''] else []))"

definition encode_request :: "string \<Rightarrow> string \<Rightarrow> json option \<Rightarrow> string" where
  "encode_request meth path body =
     join CRLF (request_lines meth path body) @ CRLF @ CRLF @ payload_of body"

subsection \<open>Responses\<close>

record response =
  status :: int
  body :: string

definition resp_ok :: "response \<Rightarrow> bool" where
  "resp_ok r \<longleftrightarrow> 200 \<le> status r \<and> status r < 300"

definition is_lspace :: "char \<Rightarrow> bool" where
  "is_lspace c \<longleftrightarrow> is_space c \<or> code c = 133 \<or> code c = 160"

definition llower_char :: "char \<Rightarrow> char" where
  "llower_char c = (if (65 \<le> code c \<and> code c \<le> 90) \<or> (192 \<le> code c \<and> code c \<le> 222 \<and> code c \<noteq> 215)
     then char_of (code c + 32) else c)"

type_synonym headers = "(string, string) dict"

definition add_header :: "headers \<Rightarrow> string \<Rightarrow> headers" where
  "add_header hs line = (if line = [] then hs else
     (case cut (CHR '':'') line of (name, value) \<Rightarrow>
       dset (List.map llower_char (strip_by is_lspace name))
         (strip_by is_lspace (case value of None \<Rightarrow> [] | Some v \<Rightarrow> v)) hs))"

definition parse_head :: "string \<Rightarrow> (int \<times> headers) res" where
  "parse_head head = (let lines = split_crlf head; ps = split_max 2 (CHR '' '') (hd lines) in
     if length ps < 2 \<or> \<not> starts_with ''HTTP/'' (hd ps) then Inl ValueError
     else (case py_int is_lspace (ps ! 1) of
        Inl e \<Rightarrow> Inl ValueError
      | Inr st \<Rightarrow> Inr (st, foldl add_header [] (tl lines))))"

datatype stream_end = Eof | Broken py_exc

text \<open>\<open>readuntil\<close> of the blank line, with the reader's limit of 64 KiB, and \<open>readexactly\<close>.\<close>

definition STREAM_LIMIT :: nat where
  "STREAM_LIMIT = 65536"

fun find_blank :: "string \<Rightarrow> (string \<times> string) option" where
  "find_blank [] = None"
| "find_blank (c # cs) =
     (if starts_with (CRLF @ CRLF) (c # cs) then Some ([], drop 3 cs)
      else (case find_blank cs of None \<Rightarrow> None | Some (h, t) \<Rightarrow> Some (c # h, t)))"

definition out_of_bytes :: "stream_end \<Rightarrow> py_exc" where
  "out_of_bytes e = (case e of Eof \<Rightarrow> EOFError | Broken x \<Rightarrow> x)"

definition readuntil_blank :: "string \<Rightarrow> stream_end \<Rightarrow> (string \<times> string) res" where
  "readuntil_blank s e = (case find_blank s of
     Some (h, t) \<Rightarrow> (if STREAM_LIMIT < length h then Inl LimitOverrunError else Inr (h @ CRLF @ CRLF, t))
   | None \<Rightarrow> (if STREAM_LIMIT + 3 < length s then Inl LimitOverrunError else Inl (out_of_bytes e)))"

definition readexactly :: "int \<Rightarrow> string \<Rightarrow> stream_end \<Rightarrow> (string \<times> string) res" where
  "readexactly n s e = (if n < 0 then Inl ValueError
     else if nat n \<le> length s then Inr (take (nat n) s, drop (nat n) s) else Inl (out_of_bytes e))"

definition content_length :: "headers \<Rightarrow> int res" where
  "content_length hs = py_int is_lspace
     (case dget hs ''content-length'' of None \<Rightarrow> ''0'' | Some v \<Rightarrow> if v = [] then ''0'' else v)"

text \<open>The response and the bytes left on the stream.\<close>

definition read_response :: "string \<Rightarrow> stream_end \<Rightarrow> (response \<times> string) res" where
  "read_response s e =
     bind_res (readuntil_blank s e) (\<lambda>ht.
     bind_res (parse_head (fst ht)) (\<lambda>sh.
       if dhas (snd sh) ''transfer-encoding'' then Inl ValueError
       else bind_res (content_length (snd sh)) (\<lambda>n.
         if n = 0 then Inr (\<lparr>status = fst sh, body = []\<rparr>, snd ht)
         else bind_res (readexactly n (snd ht) e) (\<lambda>bt.
           Inr (\<lparr>status = fst sh, body = fst bt\<rparr>, snd bt)))))"

text \<open>
  \<open>_exchange\<close>: how opening the socket, writing and the closing of the writer end, and what arrives.
  The result and the bytes handed to the socket. An error of the closing is swallowed only if it is
  an \<open>OSError\<close>.
\<close>

record exchange_answers =
  xa_open :: "py_exc option"
  xa_write :: "py_exc option"
  xa_stream :: string
  xa_end :: stream_end
  xa_closed :: "py_exc option"

definition exchange :: "exchange_answers \<Rightarrow> string \<Rightarrow> string \<Rightarrow> json option \<Rightarrow> response res \<times> string" where
  "exchange a meth path j = (case xa_open a of Some e \<Rightarrow> (Inl e, [])
     | None \<Rightarrow>
        (let result = (case xa_write a of Some e \<Rightarrow> Inl e
               | None \<Rightarrow> bind_res (read_response (xa_stream a) (xa_end a)) (\<lambda>rb. Inr (fst rb)))
         in (case xa_closed a of None \<Rightarrow> result
               | Some e \<Rightarrow> if is_oserror e then result else Inl e), encode_request meth path j))"

text \<open>
  \<open>request\<close>: \<open>ended\<close> is how \<open>_exchange\<close> ended, \<open>TimeoutError\<close> included, whether raised
  by the timeout or by the socket.
\<close>

definition request :: "response res \<Rightarrow> response res" where
  "request ended = (case ended of
     Inl e \<Rightarrow> (if e = TimeoutError then Inl (ApiError 0) else Inl e)
   | Inr r \<Rightarrow> (if resp_ok r then Inr r else Inl (ApiError (status r))))"

subsection \<open>wait_ready\<close>

fun before_deadline :: "f64 \<Rightarrow> rat \<Rightarrow> bool" where
  "before_deadline (Fin t) elapsed = (elapsed < t)"
| "before_deadline (Inf neg) elapsed = (\<not> neg)"
| "before_deadline NaN elapsed = False"

text \<open>\<open>att n\<close>: how opening the socket ends in round \<open>n\<close>; \<open>elapsed n\<close>: the clock at its start.\<close>

partial_function (option) poll_ready ::
  "(nat \<Rightarrow> py_exc option) \<Rightarrow> (nat \<Rightarrow> rat) \<Rightarrow> f64 \<Rightarrow> nat \<Rightarrow> unit res option" where
  "poll_ready att elapsed timeout n =
     (if \<not> before_deadline timeout (elapsed n) then Some (Inl TimeoutError)
      else (case att n of None \<Rightarrow> Some (Inr ())
        | Some e \<Rightarrow> if is_oserror e then poll_ready att elapsed timeout (Suc n) else Some (Inl e)))"

definition wait_ready :: "(nat \<Rightarrow> py_exc option) \<Rightarrow> (nat \<Rightarrow> rat) \<Rightarrow> f64 \<Rightarrow> unit res option" where
  "wait_ready att elapsed timeout = poll_ready att elapsed timeout 0"

definition ready_stops :: "(nat \<Rightarrow> py_exc option) \<Rightarrow> (nat \<Rightarrow> rat) \<Rightarrow> f64 \<Rightarrow> nat \<Rightarrow> bool" where
  "ready_stops att elapsed timeout n \<longleftrightarrow> \<not> before_deadline timeout (elapsed n)
     \<or> (case att n of None \<Rightarrow> True | Some e \<Rightarrow> \<not> is_oserror e)"

definition ready_result :: "(nat \<Rightarrow> py_exc option) \<Rightarrow> (nat \<Rightarrow> rat) \<Rightarrow> f64 \<Rightarrow> nat \<Rightarrow> unit res" where
  "ready_result att elapsed timeout n = (if \<not> before_deadline timeout (elapsed n) then Inl TimeoutError
     else (case att n of None \<Rightarrow> Inr () | Some e \<Rightarrow> Inl e))"

interpretation readiness: polling "poll_ready att elapsed timeout" "ready_stops att elapsed timeout"
    "ready_result att elapsed timeout" for att elapsed timeout
  by unfold_locales
    (subst poll_ready.simps, auto simp: ready_stops_def ready_result_def split: option.splits)

end
