(* ===== verification/Microvm_Run.thy ===== *)
theory Microvm_Run
  imports Microvm_Props Vsock Fcapi
begin

section \<open>Running microVMs (src/keycard/backends/firecracker.py, the effects)\<close>

text \<open>
  The state is what the backend owns on the host: instance directories, running VMMs, open guest
  sockets, and the API calls that were made. A world says how each outside call ends; a call that
  succeeds has its effect on the state. \<open>i\<close> names the instance everywhere.
\<close>

subsection \<open>State and answers\<close>

record vm_state =
  dirs :: "string set"
  running :: "string set"
  socks :: nat
  api_log :: "(string \<times> string \<times> json) list"

text \<open>
  How stopping goes: the process had already exited, was gone at SIGTERM, how the bounded wait
  ended, whether it was gone at SIGKILL, and how the last wait ended.
\<close>

record stop_answers =
  had_exited :: bool
  gone_at_term :: bool
  on_wait :: "unit res"
  gone_at_kill :: bool
  on_last_wait :: "py_exc option"

record world =
  on_mkdir :: "py_exc option"
  on_owner :: "py_exc option"
  on_cp :: "py_exc option"
  on_copyfile :: "py_exc option"
  on_ruleset :: "int option res"
  on_exec :: "py_exc option"
  on_pidfile :: "py_exc option"
  on_ready :: "unit res"
  on_api :: "string \<Rightarrow> py_exc option"
  on_data :: "string res"
  on_ctrl :: "string res"
  on_resize :: "py_exc option"
  stopping :: stop_answers
  removable :: bool
  on_unlink :: "py_exc option"

definition set_dir :: "string \<Rightarrow> vm_state \<Rightarrow> vm_state" where
  "set_dir i s = s\<lparr>dirs := insert i (dirs s)\<rparr>"

definition drop_dir :: "string \<Rightarrow> vm_state \<Rightarrow> vm_state" where
  "drop_dir i s = s\<lparr>dirs := dirs s - {i}\<rparr>"

definition set_running :: "string \<Rightarrow> vm_state \<Rightarrow> vm_state" where
  "set_running i s = s\<lparr>running := insert i (running s)\<rparr>"

definition drop_running :: "string \<Rightarrow> vm_state \<Rightarrow> vm_state" where
  "drop_running i s = s\<lparr>running := running s - {i}\<rparr>"

definition add_socks :: "int \<Rightarrow> vm_state \<Rightarrow> vm_state" where
  "add_socks n s = s\<lparr>socks := nat (int (socks s) + n)\<rparr>"

definition log_api :: "string \<Rightarrow> string \<Rightarrow> json \<Rightarrow> vm_state \<Rightarrow> vm_state" where
  "log_api m p b s = s\<lparr>api_log := api_log s @ [(m, p, b)]\<rparr>"

subsection \<open>The process\<close>

text \<open>\<open>_stop\<close>\<close>

definition stop_vm :: "stop_answers \<Rightarrow> string \<Rightarrow> (vm_state, unit) io" where
  "stop_vm a i =
     (if had_exited a then modify_io (drop_running i)
      else if gone_at_term a then modify_io (drop_running i)
      else (case on_wait a of
          Inr u \<Rightarrow> modify_io (drop_running i)
        | Inl e \<Rightarrow> if e \<noteq> TimeoutError then raise_io e
            else if gone_at_kill a then modify_io (drop_running i)
            else then_io (modify_io (drop_running i)) (check_io (on_last_wait a))))"

definition remove_dir :: "bool \<Rightarrow> string \<Rightarrow> (vm_state, unit) io" where
  "remove_dir works i = modify_io (if works then drop_dir i else id)"

text \<open>\<open>_spawn\<close>: after exec, only a timeout of the readiness wait stops the process again.\<close>

definition spawn :: "world \<Rightarrow> string \<Rightarrow> (vm_state, unit) io" where
  "spawn w i = (case on_ruleset w of Inl e \<Rightarrow> raise_io e
     | Inr ruleset \<Rightarrow>
        then_io (check_io (on_exec w))
       (then_io (modify_io (set_running i))
       (then_io (check_io (on_pidfile w))
         (case on_ready w of Inr u \<Rightarrow> ret_io ()
          | Inl e \<Rightarrow> if e = TimeoutError
              then then_io (stop_vm (stopping w) i) (raise_io FirecrackerError) else raise_io e))))"

definition api_call :: "world \<Rightarrow> string \<Rightarrow> string \<Rightarrow> json \<Rightarrow> (vm_state, unit) io" where
  "api_call w m p b = then_io (modify_io (log_api m p b)) (check_io (on_api w p))"

definition api_put :: "world \<Rightarrow> string \<Rightarrow> json \<Rightarrow> (vm_state, unit) io" where
  "api_put w p b = api_call w ''PUT'' p b"

subsection \<open>Attaching\<close>

definition send_resize :: "world \<Rightarrow> (vm_state, unit) io" where
  "send_resize w = catch_io (check_io (on_resize w)) is_oserror (\<lambda>_. ret_io ())"

definition attach_vm :: "world \<Rightarrow> f64 res \<Rightarrow> (vm_state, unit) io" where
  "attach_vm w boot_timeout = (case boot_timeout of Inl e \<Rightarrow> raise_io e
     | Inr t \<Rightarrow> (case on_data w of Inl e \<Rightarrow> raise_io e
       | Inr d \<Rightarrow> then_io (modify_io (add_socks 1))
          (then_io (case on_ctrl w of Inr c \<Rightarrow> modify_io (add_socks 1)
             | Inl e \<Rightarrow> if e = VsockError then then_io (modify_io (add_socks (- 1))) (raise_io e) else raise_io e)
            (send_resize w))))"

subsection \<open>open\<close>

text \<open>\<open>_copy_rootfs\<close>: the error it ends with, if any. \<open>cp\<close> is tried first, then a plain copy.\<close>

definition copy_rootfs :: "world \<Rightarrow> py_exc option" where
  "copy_rootfs w = (case on_cp w of None \<Rightarrow> None
     | Some e \<Rightarrow> if is_oserror e \<or> e = CalledProcessError then on_copyfile w else Some e)"

text \<open>\<open>Instance.create\<close>: the directory, and in it the file that names its owner.\<close>

definition create_instance :: "world \<Rightarrow> string \<Rightarrow> (vm_state, unit) io" where
  "create_instance w i = then_io (check_io (on_mkdir w)) (then_io (modify_io (set_dir i)) (check_io (on_owner w)))"

definition boot_source :: "firecracker_config \<Rightarrow> path \<Rightarrow> json" where
  "boot_source fc k = JObj [(''kernel_image_path'', JStr (str_path k)), (''boot_args'', JStr (fc_boot_args fc))]"

definition root_drive :: "vm_instance \<Rightarrow> json" where
  "root_drive v = JObj [(''drive_id'', JStr ''rootfs''), (''path_on_host'', JStr (str_path (inst_rootfs v))),
     (''is_root_device'', JBool True), (''is_read_only'', JBool False)]"

definition machine_json :: "int \<times> int \<Rightarrow> json" where
  "machine_json m = JObj [(''vcpu_count'', JInt (fst m)), (''mem_size_mib'', JInt (snd m))]"

definition vsock_json :: "vm_instance \<Rightarrow> json" where
  "vsock_json v = JObj [(''guest_cid'', JInt GUEST_CID), (''uds_path'', JStr (str_path (vsock_sock v)))]"

definition lift_res :: "'a res \<Rightarrow> (vm_state, 'a) io" where
  "lift_res r = (case r of Inl e \<Rightarrow> raise_io e | Inr x \<Rightarrow> ret_io x)"

definition configure :: "world \<Rightarrow> firecracker_config \<Rightarrow> path \<Rightarrow> room_config \<Rightarrow> vm_instance \<Rightarrow> (vm_state, unit) io" where
  "configure w fc k room v =
     then_io (api_put w ''/boot-source'' (boot_source fc k))
    (then_io (api_put w ''/drives/rootfs'' (root_drive v))
    (bind_io (lift_res (machine_config room)) (\<lambda>m.
      then_io (api_put w ''/machine-config'' (machine_json m))
        (api_put w ''/vsock'' (vsock_json v)))))"

definition instance_start :: json where
  "instance_start = JObj [(''action_type'', JStr ''InstanceStart'')]"

text \<open>
  What follows the creation of the instance. \<open>vm\<close> is assigned only when \<open>_spawn\<close> has returned;
  \<open>_cleanup\<close> stops the VMM only then.
\<close>

definition cleanup :: "world \<Rightarrow> bool \<Rightarrow> string \<Rightarrow> (vm_state, unit) io" where
  "cleanup w have_vm i =
     then_io (if have_vm then stop_vm (stopping w) i else ret_io ()) (remove_dir (removable w) i)"

definition boot :: "world \<Rightarrow> firecracker_config \<Rightarrow> path \<Rightarrow> room_config \<Rightarrow> vm_instance \<Rightarrow> (vm_state, unit) io" where
  "boot w fc k room v =
     then_io (configure w fc k room v)
    (then_io (api_put w ''/actions'' instance_start)
       (attach_vm w (boot_timeout_seconds fc)))"

definition open_vm ::
  "world \<Rightarrow> firecracker_config \<Rightarrow> bool \<Rightarrow> path \<Rightarrow> room_config \<Rightarrow> vm_instance \<Rightarrow> (vm_state, vm_instance) io" where
  "open_vm w fc image_exists k room v = (let i = inst_id v in
     if \<not> image_exists then raise_io FirecrackerError
     else then_io (create_instance w i)
         (then_io (on_error
             (then_io (check_io (copy_rootfs w))
               (bind_io (lift_res (machine_config room)) (\<lambda>m. spawn w i)))
             (cleanup w False i))
           (then_io (on_error (boot w fc k room v) (cleanup w True i))
             (ret_io v))))"

lemmas open_vm_defs = open_vm_def create_instance_def

subsection \<open>resume, destroy, pause\<close>

definition load_snapshot :: "vm_instance \<Rightarrow> json" where
  "load_snapshot v = JObj [(''snapshot_path'', JStr (str_path (inst_snapshot v))),
     (''mem_backend'', JObj [(''backend_path'', JStr (str_path (mem_file v))), (''backend_type'', JStr ''File'')]),
     (''enable_diff_snapshots'', JBool False), (''resume_vm'', JBool True)]"

definition resume_vm :: "world \<Rightarrow> firecracker_config \<Rightarrow> vm_instance \<Rightarrow> (vm_state, vm_instance) io" where
  "resume_vm w fc v = (let i = inst_id v in
     then_io (check_io (on_unlink w))
    (then_io (spawn w i)
       (then_io (on_error (then_io (api_put w ''/snapshot/load'' (load_snapshot v))
             (attach_vm w (boot_timeout_seconds fc))) (stop_vm (stopping w) i))
         (ret_io v))))"

text \<open>
  \<open>destroyed\<close>: \<open>destroy\<close> was called before. \<open>heard\<close>: what the exit watcher had collected when the
  grace period was over or the wait was cancelled.
\<close>

definition destroy_vm :: "world \<Rightarrow> bool \<Rightarrow> int option \<Rightarrow> string \<Rightarrow> (vm_state, int) io" where
  "destroy_vm w was_destroyed heard i = (if was_destroyed then ret_io 0
     else then_io (modify_io (add_socks (- 2)))
       (then_io (stop_vm (stopping w) i)
         (then_io (remove_dir (removable w) i)
           (ret_io (case heard of None \<Rightarrow> 0 | Some st \<Rightarrow> st)))))"

definition create_snapshot :: "vm_instance \<Rightarrow> json" where
  "create_snapshot v = JObj [(''snapshot_type'', JStr ''Full''), (''snapshot_path'', JStr (str_path (inst_snapshot v))),
     (''mem_file_path'', JStr (str_path (mem_file v)))]"

definition pause_vm :: "world \<Rightarrow> vm_instance \<Rightarrow> (vm_state, vm_instance) io" where
  "pause_vm w v =
     then_io (modify_io (add_socks (- 2)))
    (then_io (api_call w ''PATCH'' ''/vm'' (JObj [(''state'', JStr ''Paused'')]))
    (then_io (api_put w ''/snapshot/create'' (create_snapshot v))
    (then_io (stop_vm (stopping w) (inst_id v)) (ret_io v))))"

definition destroy_kept_vm :: "world \<Rightarrow> vm_instance \<Rightarrow> (vm_state, unit) io" where
  "destroy_kept_vm w v = remove_dir (removable w) (inst_id v)"

end
