(* ===== verification/Backends.thy ===== *)
theory Backends
  imports Backend Docker Microvm_Run
begin

section \<open>The two backends behind the seam\<close>

text \<open>
  \<open>DockerBackend\<close> and \<open>FirecrackerBackend\<close> as objects of the seam, over the operations of
  \<open>Docker\<close> and \<open>Microvm_Run\<close>. What the daemon, the kernel and the sockets answer to the next call
  is a function of the state of the host. Both keep the two contracts of the seam.
\<close>

subsection \<open>Docker\<close>

record docker_answers =
  da_id :: cid
  da_run :: "py_exc option"
  da_size :: "py_exc option"
  da_attach :: "py_exc option"
  da_get :: "py_exc option"
  da_unpause :: "py_exc option"
  da_pause :: "py_exc option"
  da_remove :: "py_exc option"
  da_kill :: "py_exc option"
  da_close :: "py_exc option"
  da_reload :: "nat \<Rightarrow> (bool \<times> int) res"
  da_elapsed :: "nat \<Rightarrow> rat"
  da_recv :: "string res"
  da_send :: "py_exc option"

type_synonym docker_host = "daemon objects"

definition docker_destroy :: "(docker_host \<Rightarrow> docker_answers) \<Rightarrow> cid \<Rightarrow> bool \<Rightarrow> docker_host \<Rightarrow> (daemon, int) io option" where
  "docker_destroy A c flag s = (let a = A s in
     snd (destroy_room flag c (da_reload a) (da_elapsed a) (da_kill a) (da_remove a)))"

definition docker_room :: "(docker_host \<Rightarrow> docker_answers) \<Rightarrow> nat \<Rightarrow> cid \<Rightarrow> (docker_host, cid) room_ops" where
  "docker_room A ob c = \<lparr>rm_can_pause = True,
     rm_read = (\<lambda>s. (room_read (da_recv (A s)), s)),
     rm_write = (\<lambda>data s. (room_write (da_send (A s)), s)),
     rm_resize = (\<lambda>w h s. on_service (catch_io (sdk (da_size (A s)) id) is_docker (\<lambda>_. ret_io ())) s),
     rm_destroy = flagged_destroy ob (docker_destroy A c),
     rm_pause = (\<lambda>s. on_service (pause_room c (da_pause (A s))) s)\<rparr>"

definition docker_made :: "(docker_host \<Rightarrow> docker_answers) \<Rightarrow> cid \<Rightarrow> (docker_host, (docker_host, cid) room_ops) io" where
  "docker_made A c = bind_io new_object (\<lambda>ob. ret_io (docker_room A ob c))"

definition docker_backend :: "(docker_host \<Rightarrow> docker_answers) \<Rightarrow> (docker_host, cid) backend" where
  "docker_backend A = \<lparr>bk_can_pause = True,
     bk_open = (\<lambda>rc w h s. let a = A s in
       bind_io (on_service (open_room rc (da_id a) (da_run a) (da_size a) (da_attach a))) (docker_made A) s),
     bk_resume = (\<lambda>c w h s. let a = A s in
       bind_io (on_service (resume_room c (da_get a) (da_unpause a) (da_size a) (da_attach a))) (docker_made A) s),
     bk_destroy_kept = (\<lambda>c s. on_service (destroy_kept_container c (da_get (A s)) (da_remove (A s))) s),
     bk_close = (\<lambda>s. check_io (da_close (A s)) s)\<rparr>"

subsection \<open>Firecracker\<close>

record vm_answers =
  va_world :: world
  va_token :: string
  va_image :: bool
  va_heard :: "int option"
  va_recv :: "string res"
  va_send :: "py_exc option"

type_synonym vm_host = "vm_state objects"

definition vm_destroy :: "(vm_host \<Rightarrow> vm_answers) \<Rightarrow> vm_instance \<Rightarrow> bool \<Rightarrow> vm_host \<Rightarrow> (vm_state, int) io option" where
  "vm_destroy A v flag s = Some (destroy_vm (va_world (A s)) flag (va_heard (A s)) (inst_id v))"

definition vm_room :: "(vm_host \<Rightarrow> vm_answers) \<Rightarrow> nat \<Rightarrow> vm_instance \<Rightarrow> (vm_host, vm_instance) room_ops" where
  "vm_room A ob v = \<lparr>rm_can_pause = False,
     rm_read = (\<lambda>s. (case va_recv (A s) of Inr d \<Rightarrow> Inr d
        | Inl e \<Rightarrow> if is_oserror e \<or> e = CancelledError then Inr [] else Inl e, s)),
     rm_write = (\<lambda>data s. (case va_send (A s) of None \<Rightarrow> Inr ()
        | Some e \<Rightarrow> if is_oserror e then Inr () else Inl e, s)),
     rm_resize = (\<lambda>w h s. on_service (send_resize (va_world (A s))) s),
     rm_destroy = flagged_destroy ob (vm_destroy A v),
     rm_pause = (\<lambda>s. on_service (pause_vm (va_world (A s)) v) s)\<rparr>"

definition vm_made :: "(vm_host \<Rightarrow> vm_answers) \<Rightarrow> vm_instance \<Rightarrow> (vm_host, (vm_host, vm_instance) room_ops) io" where
  "vm_made A v = bind_io new_object (\<lambda>ob. ret_io (vm_room A ob v))"

definition microvm_backend ::
  "(vm_host \<Rightarrow> vm_answers) \<Rightarrow> firecracker_config \<Rightarrow> path \<Rightarrow> (vm_host, vm_instance) backend" where
  "microvm_backend A fc k = \<lparr>bk_can_pause = False,
     bk_open = (\<lambda>rc w h s. let a = A s in
       bind_io (on_service (open_vm (va_world a) fc (va_image a) k rc
         (instance_for (fc_runtime_dir fc) (rc_name rc) (va_token a)))) (vm_made A) s),
     bk_resume = (\<lambda>v w h s. bind_io (on_service (resume_vm (va_world (A s)) fc v)) (vm_made A) s),
     bk_destroy_kept = (\<lambda>v s. on_service (destroy_kept_vm (va_world (A s)) v) s),
     bk_close = ret_io ()\<rparr>"

text \<open>
  \<open>FirecrackerBackend.__init__\<close>: the binary, the names that the sweep of the runtime directory
  reaped, and what is left in it. The processes, the listing of the directory and which removals
  work are as for \<open>reap_debris\<close>.
\<close>

definition start_firecracker ::
  "host \<Rightarrow> py_exc option \<Rightarrow> py_exc option \<Rightarrow> (int \<Rightarrow> bool) \<Rightarrow> (int \<Rightarrow> string option) \<Rightarrow> (string \<Rightarrow> bool) \<Rightarrow>
     string list option \<Rightarrow> firecracker_config \<Rightarrow> (string \<Rightarrow> entry option, string \<times> string list) io" where
  "start_firecracker hs mk_error ch_error alive cmdline gone listing fc =
     bind_io (case preflight hs fc of Inl e \<Rightarrow> raise_io e | Inr binary \<Rightarrow> ret_io binary) (\<lambda>binary.
       then_io (check_io mk_error) (then_io (check_io ch_error)
         (\<lambda>d. case reap_debris alive cmdline gone listing d of (reaped, d') \<Rightarrow> (Inr (binary, reaped), d'))))"

subsection \<open>The contracts hold\<close>

interpretation docker_rooms: room_contract "docker_room A ob c" for A ob c
proof
  show "rm_destroy (docker_room A ob c) t = Some (Inr 0, t)"
    if "rm_destroy (docker_room A ob c) s = Some (x, t)" for s x t
    using that flagged_destroy_again [of "docker_destroy A c"]
    by (simp add: docker_room_def docker_destroy_def destroy_room_def Let_def)
qed

interpretation vm_rooms: room_contract "vm_room A ob v" for A ob v
proof
  show "rm_destroy (vm_room A ob v) t = Some (Inr 0, t)"
    if "rm_destroy (vm_room A ob v) s = Some (x, t)" for s x t
    using that flagged_destroy_again [of "vm_destroy A v"]
    by (simp add: vm_room_def vm_destroy_def destroy_vm_def Let_def)
qed

lemma docker_made_ok: "docker_made A c s = (Inr r, t) \<Longrightarrow> r = docker_room A (made s) c"
  by (auto simp: docker_made_def new_object_def io_simps)

lemma vm_made_ok: "vm_made A v s = (Inr r, t) \<Longrightarrow> r = vm_room A (made s) v"
  by (auto simp: vm_made_def new_object_def io_simps)

lemma docker_hands_out: "hands_out (docker_backend A) r t \<Longrightarrow> \<exists>ob c. r = docker_room A ob c"
  by (fastforce simp: hands_out_def docker_backend_def Let_def dest: bind_io_ok docker_made_ok)

lemma vm_hands_out: "hands_out (microvm_backend A fc k) r t \<Longrightarrow> \<exists>ob v. r = vm_room A ob v"
  by (fastforce simp: hands_out_def microvm_backend_def Let_def dest: bind_io_ok vm_made_ok)

interpretation docker: backend_contract "docker_backend A" for A
proof (rule backend_contract.intro)
  show "rm_can_pause r = bk_can_pause (docker_backend A)" if "hands_out (docker_backend A) r t" for r t
    using docker_hands_out [OF that] by (auto simp: docker_room_def docker_backend_def)
  show "room_contract r" if "hands_out (docker_backend A) r t" for r t
    using docker_hands_out [OF that] docker_rooms.room_contract_axioms by auto
qed

interpretation microvm: backend_contract "microvm_backend A fc k" for A fc k
proof (rule backend_contract.intro)
  show "rm_can_pause r = bk_can_pause (microvm_backend A fc k)" if "hands_out (microvm_backend A fc k) r t" for r t
    using vm_hands_out [OF that] by (auto simp: vm_room_def microvm_backend_def)
  show "room_contract r" if "hands_out (microvm_backend A fc k) r t" for r t
    using vm_hands_out [OF that] vm_rooms.room_contract_axioms by auto
qed

end
