(* ===== verification/Routing.thy ===== *)
theory Routing
  imports Backends "HOL-Library.List_Lexorder" "HOL-Library.Char_ord"
begin

section \<open>Routing between backends (src/keycard/backends/routing.py)\<close>

text \<open>
  \<open>RoutingBackend\<close> is a backend whose state is its dictionary of backends beside the state of the
  host. \<open>RoutedKept\<close> tags a handle with the name of the backend that made it; \<open>Foreign\<close> is any
  other handle. A factory builds a backend from the configuration and may raise.
\<close>

subsection \<open>State\<close>

datatype 'k handle = Routed string 'k | Foreign

record ('s, 'k) routing =
  rt_backends :: "(string, ('s, 'k) backend) dict"
  rt_world :: 's

type_synonym ('s, 'k) factory = "config \<Rightarrow> ('s, ('s, 'k) backend) io"

definition put_world :: "'s \<Rightarrow> ('s, 'k) routing \<Rightarrow> ('s, 'k) routing" where
  "put_world w t = t\<lparr>rt_world := w\<rparr>"

definition in_world :: "('s, 'a) io \<Rightarrow> (('s, 'k) routing, 'a) io" where
  "in_world m = on_part rt_world put_world m"

definition add_backend :: "string \<Rightarrow> ('s, 'k) backend \<Rightarrow> ('s, 'k) routing \<Rightarrow> ('s, 'k) routing" where
  "add_backend nm b s = s\<lparr>rt_backends := dset nm b (rt_backends s)\<rparr>"

subsection \<open>The registry\<close>

definition get_backend ::
  "(string, ('s, 'k) factory) dict \<Rightarrow> config \<Rightarrow> string \<Rightarrow> (('s, 'k) routing, ('s, 'k) backend) io" where
  "get_backend factories cfg nm = (\<lambda>s. case dget (rt_backends s) nm of
     Some b \<Rightarrow> (Inr b, s)
   | None \<Rightarrow> (case dget factories nm of
       None \<Rightarrow> (Inl ValueError, s)
     | Some f \<Rightarrow> bind_io (in_world (f cfg)) (\<lambda>b. then_io (modify_io (add_backend nm b)) (ret_io b)) s))"

definition names_in_use :: "config \<Rightarrow> string list" where
  "names_in_use cfg = remdups (cf_backend cfg #
     filter (\<lambda>x. x \<noteq> []) (List.map (\<lambda>nr. rc_backend (snd nr)) (cf_rooms cfg)))"

fun get_all ::
  "(string, ('s, 'k) factory) dict \<Rightarrow> config \<Rightarrow> string list \<Rightarrow> (('s, 'k) routing, unit) io" where
  "get_all factories cfg [] = ret_io ()"
| "get_all factories cfg (nm # nms) = then_io (get_backend factories cfg nm) (get_all factories cfg nms)"

definition new_routing :: "(string, ('s, 'k) factory) dict \<Rightarrow> config \<Rightarrow> 's \<Rightarrow> unit res \<times> ('s, 'k) routing" where
  "new_routing factories cfg w =
     get_all factories cfg (sort (names_in_use cfg)) \<lparr>rt_backends = [], rt_world = w\<rparr>"

definition name_for :: "config \<Rightarrow> room_config \<Rightarrow> string" where
  "name_for cfg room = (if rc_backend room \<noteq> [] then rc_backend room else cf_backend cfg)"

fun refusing ::
  "(string, ('s, 'k) factory) dict \<Rightarrow> config \<Rightarrow> room_config list \<Rightarrow> (('s, 'k) routing, string list) io" where
  "refusing factories cfg [] = ret_io []"
| "refusing factories cfg (room # rooms) =
     bind_io (get_backend factories cfg (name_for cfg room)) (\<lambda>b.
     bind_io (refusing factories cfg rooms) (\<lambda>ns.
       ret_io (if \<not> bk_can_pause b then rc_name room # ns else ns)))"

definition rooms_without_keep ::
  "(string, ('s, 'k) factory) dict \<Rightarrow> config \<Rightarrow> (('s, 'k) routing, string list) io" where
  "rooms_without_keep factories cfg =
     bind_io (refusing factories cfg (List.map snd (cf_rooms cfg))) (\<lambda>ns. ret_io (sort ns))"

subsection \<open>Rooms and the backend\<close>

definition routed_room :: "string \<Rightarrow> ('s, 'k) room_ops \<Rightarrow> (('s, 'k) routing, 'k handle) room_ops" where
  "routed_room nm r = \<lparr>rm_can_pause = rm_can_pause r,
     rm_read = in_world (rm_read r),
     rm_write = (\<lambda>data. in_world (rm_write r data)),
     rm_resize = (\<lambda>w h. in_world (rm_resize r w h)),
     rm_destroy = on_part_opt rt_world put_world (rm_destroy r),
     rm_pause = bind_io (in_world (rm_pause r)) (\<lambda>k. ret_io (Routed nm k))\<rparr>"

definition unrouted :: "'k handle \<Rightarrow> (('s, 'k) routing, string \<times> 'k) io" where
  "unrouted kept = (case kept of Routed nm k \<Rightarrow> ret_io (nm, k) | Foreign \<Rightarrow> raise_io TypeError)"

fun close_all :: "(string, ('s, 'k) backend) dict \<Rightarrow> (('s, 'k) routing, unit) io" where
  "close_all [] = ret_io ()"
| "close_all (nb # rest) =
     then_io (catch_io (in_world (bk_close (snd nb))) is_exception (\<lambda>_. ret_io ())) (close_all rest)"

definition routing_backend ::
  "(string, ('s, 'k) factory) dict \<Rightarrow> config \<Rightarrow> (('s, 'k) routing, 'k handle) backend" where
  "routing_backend factories cfg = \<lparr>bk_can_pause = True,
     bk_open = (\<lambda>room w h. let nm = name_for cfg room in
       bind_io (get_backend factories cfg nm) (\<lambda>b.
       bind_io (in_world (bk_open b room w h)) (\<lambda>r. ret_io (routed_room nm r)))),
     bk_resume = (\<lambda>kept w h. bind_io (unrouted kept) (\<lambda>nk.
       bind_io (get_backend factories cfg (fst nk)) (\<lambda>b.
       bind_io (in_world (bk_resume b (snd nk) w h)) (\<lambda>r. ret_io (routed_room (fst nk) r))))),
     bk_destroy_kept = (\<lambda>kept. bind_io (unrouted kept) (\<lambda>nk.
       bind_io (get_backend factories cfg (fst nk)) (\<lambda>b. in_world (bk_destroy_kept b (snd nk))))),
     bk_close = (\<lambda>s. close_all (rt_backends s) s)\<rparr>"

subsection \<open>Facts\<close>

lemma in_world_run [io_simps]:
  "in_world m s = (case m (rt_world s) of (r, w) \<Rightarrow> (r, put_world w s))"
  by (simp add: in_world_def io_simps)

lemma put_world_same [simp]: "rt_backends (put_world w s) = rt_backends s" "rt_world (put_world w s) = w"
  "put_world v (put_world w s) = put_world v s" "put_world (rt_world s) s = s"
  by (simp_all add: put_world_def)

lemma add_backend_same [simp]: "rt_backends (add_backend nm b s) = dset nm b (rt_backends s)"
  "rt_world (add_backend nm b s) = rt_world s"
  by (simp_all add: add_backend_def)

lemma name_for_effective: "name_for cfg room = effective_backend cfg room"
  by (simp add: name_for_def effective_backend_def)

lemma set_names_in_use: "set (names_in_use cfg) =
    insert (cf_backend cfg) ((\<lambda>nr. rc_backend (snd nr)) ` set (cf_rooms cfg) - {[]})"
  unfolding names_in_use_def set_remdups by (auto simp: image_iff)

lemma name_for_in_use: "nr \<in> set (cf_rooms cfg) \<Longrightarrow> name_for cfg (snd nr) \<in> set (names_in_use cfg)"
  unfolding name_for_def set_names_in_use by auto

lemma names_in_use_known: "wf_config cfg \<Longrightarrow> set (names_in_use cfg) \<subseteq> set KNOWN_BACKENDS"
proof
  fix x
  assume wf: "wf_config cfg" and x: "x \<in> set (names_in_use cfg)"
  have "rc_backend r \<in> set KNOWN_BACKENDS" if "(n, r) \<in> set (cf_rooms cfg)" "rc_backend r \<noteq> []" for n r
    using wf that by (auto simp: wf_config_def wf_rooms_def wf_room_def)
  then show "x \<in> set KNOWN_BACKENDS"
    using wf x by (auto simp: set_names_in_use wf_config_def)
qed

lemma get_backend_known: "dget (rt_backends s) nm = Some b \<Longrightarrow> get_backend factories cfg nm s = (Inr b, s)"
  by (simp add: get_backend_def)

lemma get_backend_new:
  assumes "dget (rt_backends s) nm = None"
  shows "get_backend factories cfg nm s = (case dget factories nm of None \<Rightarrow> (Inl ValueError, s)
    | Some f \<Rightarrow> (case f cfg (rt_world s) of (Inl e, w) \<Rightarrow> (Inl e, put_world w s)
        | (Inr b, w) \<Rightarrow> (Inr b, add_backend nm b (put_world w s))))"
  using assms by (auto simp: get_backend_def io_simps split: option.split prod.split sum.split)

lemma dkeys_dset_new: "dget d k = None \<Longrightarrow> dkeys (dset k v d) = dkeys d @ [k]"
  by (induction d) (auto split: if_splits)

subsection \<open>Startup\<close>

text \<open>The registry after the constructor: every name once, in order, each from its own factory.\<close>

definition built_by :: "(string, ('s, 'k) factory) dict \<Rightarrow> config \<Rightarrow> string \<times> ('s, 'k) backend \<Rightarrow> bool" where
  "built_by factories cfg nb \<longleftrightarrow> (\<exists>f u v. dget factories (fst nb) = Some f \<and> f cfg u = (Inr (snd nb), v))"

lemma get_all_ok:
  assumes "get_all factories cfg nms s = (Inr u, t)" "distinct (dkeys (rt_backends s) @ nms)"
  shows "dkeys (rt_backends t) = dkeys (rt_backends s) @ nms
    \<and> (\<forall>nb\<in>set (rt_backends t) - set (rt_backends s). built_by factories cfg nb)"
  using assms
proof (induction nms arbitrary: s)
  case Nil
  then show ?case by (simp add: io_simps)
next
  case (Cons nm nms)
  have new: "dget (rt_backends s) nm = None" using Cons.prems(2) by (auto simp: map_of_eq_None_iff)
  obtain b s' where g: "get_backend factories cfg nm s = (Inr b, s')" and rest: "get_all factories cfg nms s' = (Inr u, t)"
    using Cons.prems(1) by (auto simp: io_simps split: prod.splits sum.splits)
  obtain f w where f: "dget factories nm = Some f" "f cfg (rt_world s) = (Inr b, w)"
    and s': "s' = add_backend nm b (put_world w s)"
    using g by (auto simp: get_backend_new [OF new] split: option.splits prod.splits sum.splits)
  have bs: "dkeys (rt_backends s') = dkeys (rt_backends s) @ [nm]" by (simp add: s' dkeys_dset_new [OF new])
  have sub: "set (rt_backends s') = insert (nm, b) (set (rt_backends s))"
    using set_dset_distinct [of "rt_backends s" nm b] Cons.prems(2) by (force simp: s')
  have "built_by factories cfg (nm, b)" using f by (auto simp: built_by_def)
  moreover have "distinct (dkeys (rt_backends s') @ nms)" using Cons.prems(2) by (auto simp: bs)
  ultimately show ?case using Cons.IH [OF rest] by (auto simp: bs sub)
qed

lemma get_all_error:
  assumes "get_all factories cfg nms s = (Inl e, t)"
  shows "\<exists>nm\<in>set nms. (dget factories nm = None \<and> e = ValueError)
    \<or> (\<exists>f u. dget factories nm = Some f \<and> fst (f cfg u) = Inl e)"
  using assms
proof (induction nms arbitrary: s)
  case Nil
  then show ?case by (simp add: io_simps)
next
  case (Cons nm nms)
  consider s' where "get_backend factories cfg nm s = (Inl e, s')"
    | s' where "get_all factories cfg nms s' = (Inl e, t)"
    using Cons.prems by (auto simp: io_simps split: prod.splits sum.splits)
  then show ?case
  proof cases
    case 1
    then have "(dget factories nm = None \<and> e = ValueError)
      \<or> (\<exists>f. dget factories nm = Some f \<and> fst (f cfg (rt_world s)) = Inl e)"
      by (auto simp: get_backend_def io_simps split: option.splits prod.splits sum.splits)
    then show ?thesis by auto
  next
    case 2
    then show ?thesis using Cons.IH by auto
  qed
qed

subsection \<open>The two factories\<close>

text \<open>
  One host carries the Docker daemon, the microVMs and the entries of the runtime directory. A
  backend of one part is lifted to the whole; \<open>kind\<close> and \<open>unkind\<close> are the constructor of its
  handles and the \<open>cast\<close> back, which on a handle of the other class ends in an AttributeError.
\<close>

datatype any_kept = DockerKept cid | FirecrackerKept vm_instance

record site_state =
  docker_part :: docker_host
  vm_part :: vm_host
  entries :: "string \<Rightarrow> entry option"

definition put_docker :: "docker_host \<Rightarrow> site_state \<Rightarrow> site_state" where
  "put_docker d s = s\<lparr>docker_part := d\<rparr>"

definition put_vm :: "vm_host \<Rightarrow> site_state \<Rightarrow> site_state" where
  "put_vm d s = s\<lparr>vm_part := d\<rparr>"

definition put_entries :: "(string \<Rightarrow> entry option) \<Rightarrow> site_state \<Rightarrow> site_state" where
  "put_entries d s = s\<lparr>entries := d\<rparr>"

definition lift_room ::
  "(site_state \<Rightarrow> 's) \<Rightarrow> ('s \<Rightarrow> site_state \<Rightarrow> site_state) \<Rightarrow> ('k \<Rightarrow> any_kept) \<Rightarrow> ('s, 'k) room_ops \<Rightarrow>
     (site_state, any_kept) room_ops" where
  "lift_room get put kind r = \<lparr>rm_can_pause = rm_can_pause r,
     rm_read = on_part get put (rm_read r),
     rm_write = (\<lambda>data. on_part get put (rm_write r data)),
     rm_resize = (\<lambda>w h. on_part get put (rm_resize r w h)),
     rm_destroy = on_part_opt get put (rm_destroy r),
     rm_pause = bind_io (on_part get put (rm_pause r)) (\<lambda>k. ret_io (kind k))\<rparr>"

definition cast_kept :: "'k option \<Rightarrow> ('s, 'k) io" where
  "cast_kept k = (case k of None \<Rightarrow> raise_io AttributeError | Some x \<Rightarrow> ret_io x)"

definition lift_backend ::
  "(site_state \<Rightarrow> 's) \<Rightarrow> ('s \<Rightarrow> site_state \<Rightarrow> site_state) \<Rightarrow> ('k \<Rightarrow> any_kept) \<Rightarrow> (any_kept \<Rightarrow> 'k option) \<Rightarrow>
     ('s, 'k) backend \<Rightarrow> (site_state, any_kept) backend" where
  "lift_backend get put kind unkind b = \<lparr>bk_can_pause = bk_can_pause b,
     bk_open = (\<lambda>rc w h. bind_io (on_part get put (bk_open b rc w h)) (\<lambda>r. ret_io (lift_room get put kind r))),
     bk_resume = (\<lambda>k w h. bind_io (cast_kept (unkind k)) (\<lambda>x.
        bind_io (on_part get put (bk_resume b x w h)) (\<lambda>r. ret_io (lift_room get put kind r)))),
     bk_destroy_kept = (\<lambda>k. bind_io (cast_kept (unkind k)) (\<lambda>x. on_part get put (bk_destroy_kept b x))),
     bk_close = on_part get put (bk_close b)\<rparr>"

fun docker_kept :: "any_kept \<Rightarrow> cid option" where
  "docker_kept (DockerKept c) = Some c"
| "docker_kept (FirecrackerKept v) = None"

fun vm_kept :: "any_kept \<Rightarrow> vm_instance option" where
  "vm_kept (DockerKept c) = None"
| "vm_kept (FirecrackerKept v) = Some v"

text \<open>What the site answers, and how its two backends start.\<close>

record site =
  st_docker :: "docker_host \<Rightarrow> docker_answers"
  st_vm :: "vm_host \<Rightarrow> vm_answers"
  st_env :: "py_exc option"
  st_host :: host
  st_mkdir :: "py_exc option"
  st_chmod :: "py_exc option"
  st_alive :: "int \<Rightarrow> bool"
  st_cmdline :: "int \<Rightarrow> string option"
  st_gone :: "string \<Rightarrow> bool"
  st_listing :: "string list option"

definition docker_factory :: "site \<Rightarrow> (site_state, any_kept) factory" where
  "docker_factory st cfg = then_io (check_io (st_env st))
     (ret_io (lift_backend docker_part put_docker DockerKept docker_kept (docker_backend (st_docker st))))"

definition firecracker_factory :: "site \<Rightarrow> (site_state, any_kept) factory" where
  "firecracker_factory st cfg = (let fc = cf_firecracker cfg in
     bind_io (on_part entries put_entries (start_firecracker (st_host st) (st_mkdir st) (st_chmod st)
        (st_alive st) (st_cmdline st) (st_gone st) (st_listing st) fc))
       (\<lambda>_. case fc_kernel fc of None \<Rightarrow> raise_io RuntimeError
         | Some k \<Rightarrow> ret_io (lift_backend vm_part put_vm FirecrackerKept vm_kept
             (microvm_backend (st_vm st) fc k))))"

definition FACTORIES :: "site \<Rightarrow> (string, (site_state, any_kept) factory) dict" where
  "FACTORIES st = [(''docker'', docker_factory st), (''firecracker'', firecracker_factory st)]"

subsection \<open>The contracts through the wrappers\<close>

text \<open>Getting and putting a component of a state.\<close>

locale part =
  fixes get :: "'t \<Rightarrow> 's" and put :: "'s \<Rightarrow> 't \<Rightarrow> 't"
  assumes get_put: "get (put s t) = s"
    and put_put: "put s (put s' t) = put s t"
begin

lemma destroy_again:
  assumes "room_contract r" "on_part_opt get put (rm_destroy r) t = Some (x, u)"
  shows "on_part_opt get put (rm_destroy r) u = Some (Inr 0, u)"
proof -
  obtain s' where s': "rm_destroy r (get t) = Some (x, s')" "u = put s' t"
    using assms(2) by (auto simp: on_part_opt_def split: option.splits prod.splits)
  have "rm_destroy r s' = Some (Inr 0, s')" using room_contract.again [OF assms(1) s'(1)] .
  then show ?thesis by (simp add: on_part_opt_def s'(2) get_put put_put)
qed

end

locale site_part = part get put
  for get :: "site_state \<Rightarrow> 's" and put :: "'s \<Rightarrow> site_state \<Rightarrow> site_state"
begin

lemma lifted_room: "room_contract r \<Longrightarrow> room_contract (lift_room get put kind r)"
  by (rule room_contract.intro) (simp add: lift_room_def destroy_again)

lemma hands_out_lifted:
  "hands_out (lift_backend get put kind unkind b) r t \<Longrightarrow> \<exists>r' t'. hands_out b r' t' \<and> r = lift_room get put kind r'"
  unfolding hands_out_def
  by (fastforce simp: lift_backend_def on_part_def cast_kept_def io_simps
      split: prod.splits option.splits sum.splits dest!: bind_io_ok)

lemma lifted_backend: "backend_contract b \<Longrightarrow> backend_contract (lift_backend get put kind unkind b)"
proof (rule backend_contract.intro)
  assume b: "backend_contract b"
  fix r t assume "hands_out (lift_backend get put kind unkind b) r t"
  from hands_out_lifted [OF this] obtain r' t' where r: "hands_out b r' t'" "r = lift_room get put kind r'"
    by blast
  then show "rm_can_pause r = bk_can_pause (lift_backend get put kind unkind b)"
    using backend_contract.same_answer [OF b] by (auto simp: lift_room_def lift_backend_def)
  show "room_contract r"
    using r backend_contract.rooms [OF b] lifted_room by auto
qed

end

interpretation routing_part: part rt_world put_world
  by unfold_locales (simp_all add: put_world_def)

interpretation docker_side: site_part docker_part put_docker
  by unfold_locales (simp_all add: put_docker_def)

interpretation vm_side: site_part vm_part put_vm
  by unfold_locales (simp_all add: put_vm_def)

interpretation site_docker: backend_contract
    "lift_backend docker_part put_docker DockerKept docker_kept (docker_backend A)" for A
  by (rule docker_side.lifted_backend) (rule docker.backend_contract_axioms)

interpretation site_vm: backend_contract
    "lift_backend vm_part put_vm FirecrackerKept vm_kept (microvm_backend A fc k)" for A fc k
  by (rule vm_side.lifted_backend) (rule microvm.backend_contract_axioms)

lemma routed_contract: "room_contract r \<Longrightarrow> room_contract (routed_room nm r)"
  by (rule room_contract.intro) (simp add: routed_room_def routing_part.destroy_again)

subsection \<open>A site to try them on\<close>

definition calm_docker :: docker_answers where
  "calm_docker = \<lparr>da_id = 7, da_run = None, da_size = None, da_attach = None, da_get = None, da_unpause = None,
     da_pause = None, da_remove = None, da_kill = None, da_close = Some DockerException,
     da_reload = (\<lambda>n. Inr (False, 0)), da_elapsed = (\<lambda>n. 0), da_recv = Inr [], da_send = None\<rparr>"

lemma calm_docker_simps [simp]: "da_id calm_docker = 7" "da_run calm_docker = None" "da_size calm_docker = None"
  "da_attach calm_docker = None" "da_pause calm_docker = None" "da_close calm_docker = Some DockerException"
  by (simp_all add: calm_docker_def)

lemma calm_open:
  obtains v where "bk_open (docker_backend (\<lambda>_. calm_docker)) rc w h \<lparr>service = d, made = n, spent = sp\<rparr>
    = (Inr (docker_room (\<lambda>_. calm_docker) n 7), v)"
  by (simp add: docker_backend_def Let_def io_simps on_service_def open_room_def sdk_run attach_run
      docker_made_def new_object_def put_service_def)

definition calm_site :: site where
  "calm_site = \<lparr>st_docker = (\<lambda>_. calm_docker),
     st_vm = (\<lambda>_. \<lparr>va_world = \<lparr>on_mkdir = None, on_owner = None, on_cp = None, on_copyfile = None, on_ruleset = Inr None, on_exec = None,
          on_pidfile = None, on_ready = Inr (), on_api = (\<lambda>_. None), on_data = Inr [], on_ctrl = Inr [],
          on_resize = None, stopping = \<lparr>had_exited = True, gone_at_term = False, on_wait = Inr (),
            gone_at_kill = False, on_last_wait = None\<rparr>, removable = True, on_unlink = None\<rparr>,
        va_token = ''0a1b'', va_image = True, va_heard = None, va_recv = Inr [], va_send = None\<rparr>),
     st_env = None, st_host = \<lparr>which = Some, is_file = (\<lambda>_. True), is_dir = (\<lambda>_. True), has_kvm = True, landlock = 3\<rparr>,
     st_mkdir = None, st_chmod = None, st_alive = (\<lambda>_. False), st_cmdline = (\<lambda>_. None), st_gone = (\<lambda>_. True),
     st_listing = Some []\<rparr>"

definition calm_state :: site_state where
  "calm_state = \<lparr>docker_part = \<lparr>service = \<lparr>containers = (\<lambda>_. None), started_with = (\<lambda>_. None)\<rparr>, made = 0, spent = {}\<rparr>,
     vm_part = \<lparr>service = \<lparr>dirs = {}, running = {}, socks = 0, api_log = []\<rparr>, made = 0, spent = {}\<rparr>,
     entries = (\<lambda>_. None)\<rparr>"

definition docker_of :: "site \<Rightarrow> (site_state, any_kept) backend" where
  "docker_of st = lift_backend docker_part put_docker DockerKept docker_kept (docker_backend (st_docker st))"

text \<open>A registry with both backends, and a configuration with one room on each.\<close>

definition two_backends :: "(site_state, any_kept) routing" where
  "two_backends = \<lparr>rt_backends = [(''docker'', docker_of calm_site), (''firecracker'',
     lift_backend vm_part put_vm FirecrackerKept vm_kept
       (microvm_backend (st_vm calm_site) (default_firecracker sample_env) (mk_path ''/boot/vmlinux'')))],
     rt_world = calm_state\<rparr>"

definition mixed_config :: config where
  "mixed_config = (builtin_config sample_env)\<lparr>cf_rooms := [(''ubuntu'', mk_room ''ubuntu'' ''u''),
     (''vm'', (mk_room ''vm'' ''v'')\<lparr>rc_backend := ''firecracker''\<rparr>)]\<rparr>"

lemma mixed_wf: "wf_config mixed_config"
  using builtin_config_wf [of sample_env]
  by (simp add: mixed_config_def wf_config_def wf_rooms_def wf_room_def mk_room_def dhas_def
      builtin_config_def DEFAULT_ROOM_def KNOWN_BACKENDS_def)

subsection \<open>Startup\<close>

lemma new_routing_ok:
  assumes new: "new_routing factories cfg w = (Inr (), s)"
  shows "dkeys (rt_backends s) = sort (names_in_use cfg)" "\<forall>nb\<in>set (rt_backends s). built_by factories cfg nb"
    "\<forall>nr\<in>set (cf_rooms cfg). \<exists>b. dget (rt_backends s) (name_for cfg (snd nr)) = Some b"
proof -
  have dist: "distinct (dkeys [] @ sort (names_in_use cfg))" by (simp add: names_in_use_def)
  note built = get_all_ok [OF new [unfolded new_routing_def]]
  from built dist show keys: "dkeys (rt_backends s) = sort (names_in_use cfg)" by simp
  from built dist show "\<forall>nb\<in>set (rt_backends s). built_by factories cfg nb" by simp
  show "\<forall>nr\<in>set (cf_rooms cfg). \<exists>b. dget (rt_backends s) (name_for cfg (snd nr)) = Some b"
  proof
    fix nr assume "nr \<in> set (cf_rooms cfg)"
    then have "name_for cfg (snd nr) \<in> set (dkeys (rt_backends s))" by (simp add: keys name_for_in_use)
    then show "\<exists>b. dget (rt_backends s) (name_for cfg (snd nr)) = Some b"
      by (metis dhas_def dhas_iff not_None_eq)
  qed
qed

text \<open>
  Property C18. Startup builds every backend that some room needs before the first connection:
  when the constructor of the registry returns, it holds exactly the backends in use, in sorted
  order and each from its own factory, so that looking one up later for a room of the
  configuration finds it and builds nothing. With a loaded configuration the constructor can only
  fail with the error of a factory, never with an unknown backend.
\<close>

theorem startup_builds_backends:
  assumes "wf_config cfg" "dkeys factories = KNOWN_BACKENDS"
  shows "(\<forall>s. new_routing factories cfg w = (Inr (), s) \<longrightarrow>
        dkeys (rt_backends s) = sort (names_in_use cfg) \<and> (\<forall>nb\<in>set (rt_backends s). built_by factories cfg nb)
        \<and> (\<forall>nr\<in>set (cf_rooms cfg). \<exists>b. (name_for cfg (snd nr), b) \<in> set (rt_backends s)
            \<and> get_backend factories cfg (name_for cfg (snd nr)) s = (Inr b, s)))
    \<and> (\<forall>e s. new_routing factories cfg w = (Inl e, s) \<longrightarrow>
        (\<exists>nm\<in>set (names_in_use cfg). \<exists>f u. dget factories nm = Some f \<and> fst (f cfg u) = Inl e))"
proof (intro conjI allI impI)
  fix s assume new: "new_routing factories cfg w = (Inr (), s)"
  from new_routing_ok(1,2) [OF new] show "dkeys (rt_backends s) = sort (names_in_use cfg)"
    "\<forall>nb\<in>set (rt_backends s). built_by factories cfg nb" .
  from new_routing_ok(3) [OF new] show "\<forall>nr\<in>set (cf_rooms cfg). \<exists>b. (name_for cfg (snd nr), b) \<in> set (rt_backends s)
      \<and> get_backend factories cfg (name_for cfg (snd nr)) s = (Inr b, s)"
    by (meson get_backend_known map_of_SomeD)
next
  fix e s assume "new_routing factories cfg w = (Inl e, s)"
  from get_all_error [OF this [unfolded new_routing_def]] obtain nm where nm: "nm \<in> set (names_in_use cfg)"
    "(dget factories nm = None \<and> e = ValueError) \<or> (\<exists>f u. dget factories nm = Some f \<and> fst (f cfg u) = Inl e)"
    by auto
  have "nm \<in> set (dkeys factories)" using nm(1) names_in_use_known [OF assms(1)] assms(2) by auto
  then have "dget factories nm \<noteq> None" by (simp add: map_of_eq_None_iff)
  with nm show "\<exists>nm\<in>set (names_in_use cfg). \<exists>f u. dget factories nm = Some f \<and> fst (f cfg u) = Inl e"
    by auto
qed

theorem startup_builds_backends_witness:
  "\<exists>s. new_routing (FACTORIES calm_site) (builtin_config sample_env) calm_state = (Inr (), s)
     \<and> dkeys (rt_backends s) = [''docker'']"
proof -
  have names: "sort (names_in_use (builtin_config sample_env)) = [''docker'']"
    by (simp add: names_in_use_def builtin_config_def builtin_rooms_def BUILTIN_ROOMS_def mk_room_def
        default_config_def DEFAULT_BACKEND_def)
  obtain s where s: "new_routing (FACTORIES calm_site) (builtin_config sample_env) calm_state = (Inr (), s)"
    by (simp add: new_routing_def names FACTORIES_def docker_factory_def calm_site_def get_backend_new io_simps)
  have "dkeys (FACTORIES calm_site) = KNOWN_BACKENDS" by (simp add: FACTORIES_def KNOWN_BACKENDS_def)
  from startup_builds_backends [OF builtin_config_wf this] s names show ?thesis by auto
qed

subsection \<open>Handles find their way home\<close>

text \<open>
  Property C15. A handle that a room gives out when it is paused goes back to the backend that
  built the room: whatever happened in between, resuming it or destroying it through the registry
  is exactly the call of that backend on that backend's own handle, and a handle from elsewhere is
  a TypeError that touches nothing.
\<close>

theorem kept_goes_home:
  assumes known: "dget (rt_backends s) (name_for cfg room) = Some b"
    and opened: "bk_open (routing_backend factories cfg) room w h s = (Inr r, t)"
    and paused: "rm_pause r t1 = (Inr kept, t2)"
    and registry: "rt_backends t3 = rt_backends s"
  shows "\<exists>r' k. (\<exists>u. bk_open b room w h (rt_world s) = (Inr r', u)) \<and> rm_pause r' (rt_world t1) = (Inr k, rt_world t2)
    \<and> kept = Routed (name_for cfg room) k
    \<and> bk_resume (routing_backend factories cfg) kept w' h' t3 =
        (case bk_resume b k w' h' (rt_world t3) of
           (Inl e, u) \<Rightarrow> (Inl e, put_world u t3)
         | (Inr x, u) \<Rightarrow> (Inr (routed_room (name_for cfg room) x), put_world u t3))
    \<and> bk_destroy_kept (routing_backend factories cfg) kept t3 =
        (case bk_destroy_kept b k (rt_world t3) of (x, u) \<Rightarrow> (x, put_world u t3))
    \<and> bk_destroy_kept (routing_backend factories cfg) Foreign t3 = (Inl TypeError, t3)"
proof -
  let ?n = "name_for cfg room"
  have g: "get_backend factories cfg ?n s = (Inr b, s)" using known by (rule get_backend_known)
  have g3: "get_backend factories cfg ?n t3 = (Inr b, t3)" using known registry by (simp add: get_backend_known)
  obtain r' u where o: "bk_open b room w h (rt_world s) = (Inr r', u)" "r = routed_room ?n r'"
    using opened g by (auto simp: routing_backend_def Let_def io_simps split: prod.splits sum.splits)
  obtain k where k: "rm_pause r' (rt_world t1) = (Inr k, rt_world t2)" "kept = Routed ?n k"
    using paused by (auto simp: o(2) routed_room_def io_simps split: prod.splits sum.splits)
  have "bk_resume (routing_backend factories cfg) kept w' h' t3 =
        (case bk_resume b k w' h' (rt_world t3) of (Inl e, u) \<Rightarrow> (Inl e, put_world u t3)
         | (Inr x, u) \<Rightarrow> (Inr (routed_room ?n x), put_world u t3))"
    by (simp add: k(2) routing_backend_def unrouted_def io_simps g3 split: prod.split sum.split)
  moreover have "bk_destroy_kept (routing_backend factories cfg) kept t3 =
        (case bk_destroy_kept b k (rt_world t3) of (x, u) \<Rightarrow> (x, put_world u t3))"
    by (simp add: k(2) routing_backend_def unrouted_def io_simps g3)
  moreover have "bk_destroy_kept (routing_backend factories cfg) Foreign t3 = (Inl TypeError, t3)"
    by (simp add: routing_backend_def unrouted_def io_simps)
  ultimately show ?thesis using o(1) k by blast
qed

theorem kept_goes_home_witness:
  "\<exists>r t kept t2. bk_open (routing_backend [] mixed_config) (mk_room ''ubuntu'' ''u'') 80 24 two_backends = (Inr r, t)
     \<and> rm_pause r t = (Inr kept, t2) \<and> kept = Routed ''docker'' (DockerKept 7)"
proof -
  have n: "name_for mixed_config (mk_room ''ubuntu'' ''u'') = ''docker''"
    by (simp add: name_for_def mixed_config_def mk_room_def builtin_config_def default_config_def DEFAULT_BACKEND_def)
  have known: "dget (rt_backends two_backends) (name_for mixed_config (mk_room ''ubuntu'' ''u'')) = Some (docker_of calm_site)"
    by (simp add: n two_backends_def)
  let ?r = "lift_room docker_part put_docker DockerKept (docker_room (\<lambda>_. calm_docker) 0 7)"
  obtain v where v: "bk_open (docker_backend (\<lambda>_. calm_docker)) (mk_room ''ubuntu'' ''u'') 80 24 (docker_part calm_state)
      = (Inr (docker_room (\<lambda>_. calm_docker) 0 7), v)"
    by (simp add: calm_state_def) (rule calm_open)
  then obtain u where u: "bk_open (docker_of calm_site) (mk_room ''ubuntu'' ''u'') 80 24 (rt_world two_backends) = (Inr ?r, u)"
    by (simp add: docker_of_def lift_backend_def calm_site_def two_backends_def io_simps)
  obtain r t where o: "bk_open (routing_backend [] mixed_config) (mk_room ''ubuntu'' ''u'') 80 24 two_backends = (Inr r, t)"
    "r = routed_room ''docker'' ?r"
    using u get_backend_known [OF known] by (simp add: routing_backend_def n Let_def io_simps)
  obtain k t2 where p: "rm_pause r t = (Inr k, t2)"
    by (simp add: o(2) routed_room_def lift_room_def docker_room_def io_simps pause_room_def sdk_run calm_docker_def
        on_service_def split: prod.split)
  have "k = Routed ''docker'' (DockerKept 7)"
    using p by (simp add: o(2) routed_room_def lift_room_def docker_room_def io_simps pause_room_def sdk_run calm_docker_def
        on_service_def split: prod.splits)
  then show ?thesis using kept_goes_home [OF known o(1) p refl] o(1) p by blast
qed

subsection \<open>Which rooms cannot be kept\<close>

lemma room_by_name:
  assumes "wf_config cfg" "x \<in> set (cf_rooms cfg)" "y \<in> set (cf_rooms cfg)" "rc_name (snd x) = rc_name (snd y)"
  shows "x = y"
proof -
  have "fst x = fst y" "distinct (dkeys (cf_rooms cfg))"
    using assms by (auto simp: wf_config_def wf_rooms_def wf_room_def case_prod_beta)
  then show ?thesis using assms(2,3) by (metis eq_key_imp_eq_value prod.collapse)
qed

lemma refusing_known:
  assumes "\<forall>room\<in>set rooms. \<exists>b. dget (rt_backends s) (name_for cfg room) = Some b"
  shows "refusing factories cfg rooms s = (Inr (List.map rc_name (filter (\<lambda>room.
    \<not> bk_can_pause (the (dget (rt_backends s) (name_for cfg room)))) rooms)), s)"
  using assms by (induction rooms) (auto simp: io_simps get_backend_known)

text \<open>
  Property C19. The list of rooms that the server warns about at startup is exact: under backends
  that answer \<open>can_pause\<close> as their rooms do, it names precisely the rooms of the configuration
  whose sessions will find that their room refuses to be paused; and a room handed out through the
  registry may be destroyed any number of times, the first call alone has an effect.
\<close>

theorem keep_warning_exact:
  assumes wf: "wf_config cfg"
    and known: "\<forall>nr\<in>set (cf_rooms cfg). \<exists>b. dget (rt_backends s) (name_for cfg (snd nr)) = Some b"
    and backends: "\<forall>nb\<in>set (rt_backends s). backend_contract (snd nb)"
  shows "\<exists>ns. rooms_without_keep factories cfg s = (Inr ns, s) \<and> sorted ns
    \<and> (\<forall>nr\<in>set (cf_rooms cfg). \<forall>w h r t. bk_open (routing_backend factories cfg) (snd nr) w h s = (Inr r, t) \<longrightarrow>
         (rc_name (snd nr) \<in> set ns \<longleftrightarrow> \<not> rm_can_pause r)
         \<and> (\<forall>n u x v. rm_destroy r u = Some (x, v) \<longrightarrow> destroy_times (Suc n) r u = Some v))"
proof -
  let ?bk = "\<lambda>room. the (dget (rt_backends s) (name_for cfg room))"
  let ?bad = "filter (\<lambda>room. \<not> bk_can_pause (?bk room)) (List.map snd (cf_rooms cfg))"
  let ?ns = "sort (List.map rc_name ?bad)"
  have "refusing factories cfg (List.map snd (cf_rooms cfg)) s = (Inr (List.map rc_name ?bad), s)"
    using known by (intro refusing_known) auto
  then have list: "rooms_without_keep factories cfg s = (Inr ?ns, s)"
    by (simp add: rooms_without_keep_def io_simps)
  note same = room_by_name [OF wf]
  have "(rc_name (snd nr) \<in> set ?ns \<longleftrightarrow> \<not> rm_can_pause r)
      \<and> (\<forall>n u x v. rm_destroy r u = Some (x, v) \<longrightarrow> destroy_times (Suc n) r u = Some v)"
    if nr: "nr \<in> set (cf_rooms cfg)" and o: "bk_open (routing_backend factories cfg) (snd nr) w h s = (Inr r, t)"
    for nr w h r t
  proof -
    obtain b where b: "dget (rt_backends s) (name_for cfg (snd nr)) = Some b" using known nr by blast
    then have contract: "backend_contract b" using backends map_of_SomeD [OF b] by force
    obtain r' u where r': "bk_open b (snd nr) w h (rt_world s) = (Inr r', u)" "r = routed_room (name_for cfg (snd nr)) r'"
      using o get_backend_known [OF b] by (auto simp: routing_backend_def Let_def io_simps split: prod.splits sum.splits)
    note answer = backend_contract.opened [OF contract r'(1)]
    have "rc_name (snd nr) \<in> set ?ns \<longleftrightarrow> \<not> bk_can_pause b"
      using nr same [OF nr] b by (auto simp: image_iff)
    moreover have "room_contract r" unfolding r'(2) using answer by (simp add: routed_contract)
    then have "\<forall>n u x v. rm_destroy r u = Some (x, v) \<longrightarrow> destroy_times (Suc n) r u = Some v"
      by (blast intro: room_contract.times)
    moreover have "rm_can_pause r = bk_can_pause b" using answer r'(2) by (simp add: routed_room_def)
    ultimately show ?thesis by blast
  qed
  then show ?thesis by (intro exI [of _ ?ns] conjI ballI allI impI list sorted_sort) blast+
qed

theorem keep_warning_exact_witness:
  "\<exists>ns. rooms_without_keep [] mixed_config two_backends = (Inr ns, two_backends) \<and> sorted ns \<and> ns = [''vm'']"
proof -
  have known: "\<forall>nr\<in>set (cf_rooms mixed_config). \<exists>b. dget (rt_backends two_backends) (name_for mixed_config (snd nr)) = Some b"
    by (simp add: mixed_config_def name_for_def mk_room_def two_backends_def builtin_config_def default_config_def
        DEFAULT_BACKEND_def)
  have "\<forall>nb\<in>set (rt_backends two_backends). backend_contract (snd nb)"
    using site_docker.backend_contract_axioms site_vm.backend_contract_axioms
    by (simp add: two_backends_def docker_of_def)
  from keep_warning_exact [OF mixed_wf known this] obtain ns where
    "rooms_without_keep [] mixed_config two_backends = (Inr ns, two_backends)" "sorted ns" by blast
  moreover have "rooms_without_keep [] mixed_config two_backends = (Inr [''vm''], two_backends)"
    by (simp add: rooms_without_keep_def mixed_config_def name_for_def mk_room_def builtin_config_def default_config_def
        DEFAULT_BACKEND_def two_backends_def get_backend_def io_simps docker_of_def lift_backend_def docker_backend_def
        microvm_backend_def)
  ultimately show ?thesis by auto
qed

text \<open>
  Closing the registry closes every backend, in order, although some of them fail:
  an \<open>Exception\<close> of one is swallowed, and what the others do is not affected.
\<close>

theorem close_reaches_all:
  assumes "\<forall>nb\<in>set (rt_backends s). \<forall>u. case fst (bk_close (snd nb) u) of Inl e \<Rightarrow> is_exception e | Inr x \<Rightarrow> True"
  shows "bk_close (routing_backend factories cfg) s =
    (Inr (), put_world (foldl (\<lambda>u nb. snd (bk_close (snd nb) u)) (rt_world s) (rt_backends s)) s)"
proof -
  have "close_all d s = (Inr (), put_world (foldl (\<lambda>u nb. snd (bk_close (snd nb) u)) (rt_world s) d) s)"
    if "\<forall>nb\<in>set d. \<forall>u. case fst (bk_close (snd nb) u) of Inl e \<Rightarrow> is_exception e | Inr x \<Rightarrow> True"
    for d and s :: "('a, 'b) routing"
    using that
  proof (induction d arbitrary: s)
    case Nil
    then show ?case by (simp add: io_simps)
  next
    case (Cons nb d)
    obtain x u where x: "bk_close (snd nb) (rt_world s) = (x, u)" by fastforce
    then have "case x of Inl e \<Rightarrow> is_exception e | Inr v \<Rightarrow> True" using Cons.prems by (metis fst_conv list.set_intros(1))
    then have "close_all (nb # d) s = close_all d (put_world u s)"
      using x by (cases x) (auto simp: io_simps)
    then show ?case using Cons by (simp add: x)
  qed
  from this [OF assms] show ?thesis by (simp add: routing_backend_def)
qed

theorem close_reaches_all_witness:
  "bk_close (routing_backend [] mixed_config) two_backends = (Inr (), two_backends)"
proof -
  have "\<forall>nb\<in>set (rt_backends two_backends). \<forall>u. case fst (bk_close (snd nb) u) of Inl e \<Rightarrow> is_exception e | Inr x \<Rightarrow> True"
    by (simp add: two_backends_def docker_of_def lift_backend_def docker_backend_def microvm_backend_def io_simps
        calm_site_def calm_docker_def is_exception_def)
  from close_reaches_all [OF this, of "[]" mixed_config] show ?thesis
    by (simp add: two_backends_def docker_of_def lift_backend_def docker_backend_def microvm_backend_def io_simps
        calm_site_def calm_docker_def put_world_def put_docker_def put_vm_def)
qed

end
