(* ===== verification/Server.thy ===== *)
theory Server
  imports Session Effects
begin

section \<open>The front desk (src/keycard/server.py, up to listening)\<close>

text \<open>
  One \<open>KeycardServer\<close> per connection, the checks at startup, and \<open>create_server\<close>. The state of
  startup is the files that it reads and writes, with their modes, and the addresses it listens
  on; how each outside call ends is an argument. asyncssh is not under src/: what it is called
  with is what is modelled.
\<close>

subsection \<open>A connection\<close>

record ssh_conn =
  peer :: string
  conn_user :: string

definition new_conn :: ssh_conn where
  "new_conn = \<lparr>peer = ''?'', conn_user = []\<rparr>"

definition conn_made :: "string option \<Rightarrow> ssh_conn \<Rightarrow> ssh_conn" where
  "conn_made peername c = c\<lparr>peer := (case peername of None \<Rightarrow> ''?'' | Some p \<Rightarrow> p)\<rparr>"

definition begin_auth :: "string \<Rightarrow> ssh_conn \<Rightarrow> bool \<times> ssh_conn" where
  "begin_auth user c = (True, c\<lparr>conn_user := user\<rparr>)"

definition password_auth_supported :: bool where
  "password_auth_supported \<longleftrightarrow> False"

definition public_key_auth_supported :: bool where
  "public_key_auth_supported \<longleftrightarrow> True"

definition fallback_room :: room_config where
  "fallback_room = mk_room ''fallback'' ''ubuntu:24.04''"

definition session_requested :: "config \<Rightarrow> bool \<Rightarrow> bool \<Rightarrow> ssh_conn \<Rightarrow> session res" where
  "session_requested cfg act kept c =
     (let room = (case resolve cfg (conn_user c) of None \<Rightarrow> fallback_room | Some r \<Rightarrow> r) in
      bind_res (idle_timeout_seconds cfg) (\<lambda>idle. Inr (new_session room idle act (conn_user c) kept)))"

subsection \<open>Keys\<close>

text \<open>A file is its content and its mode. \<open>umask_mode\<close> is the mode that a new file gets.\<close>

record desk =
  files :: "path \<Rightarrow> (string \<times> nat) option"
  listening :: "(string \<times> int) list"

definition file_exists :: "path \<Rightarrow> desk \<Rightarrow> bool" where
  "file_exists p s \<longleftrightarrow> files s p \<noteq> None"

definition check_authorized_keys :: "path \<Rightarrow> (desk, unit) io" where
  "check_authorized_keys p = (\<lambda>s. if file_exists p s then (Inr (), s) else (Inl FileNotFoundError, s))"

text \<open>
  \<open>write_bytes\<close>: a failure may come before the file is opened, or after part of the content is
  written. A file that exists keeps its mode.
\<close>

datatype write_answer = Written | Not_Opened py_exc | Cut_Short py_exc nat

definition write_bytes :: "nat \<Rightarrow> write_answer \<Rightarrow> path \<Rightarrow> string \<Rightarrow> (desk, unit) io" where
  "write_bytes umask_mode answer p content = (\<lambda>s.
     (let mode = (case files s p of None \<Rightarrow> umask_mode | Some f \<Rightarrow> snd f) in
      case answer of
        Written \<Rightarrow> (Inr (), s\<lparr>files := (files s)(p \<mapsto> (content, mode))\<rparr>)
      | Not_Opened e \<Rightarrow> (Inl e, s)
      | Cut_Short e n \<Rightarrow> (Inl e, s\<lparr>files := (files s)(p \<mapsto> (take n content, mode))\<rparr>)))"

definition chmod_file :: "py_exc option \<Rightarrow> path \<Rightarrow> nat \<Rightarrow> (desk, unit) io" where
  "chmod_file answer p mode = then_io (check_io answer)
     (modify_io (\<lambda>s. case files s p of None \<Rightarrow> s | Some f \<Rightarrow> s\<lparr>files := (files s)(p \<mapsto> (fst f, mode))\<rparr>))"

text \<open>\<open>Path.with_suffix\<close>: from the last dot that is neither first nor last in the name.\<close>

definition stem_of :: "string \<Rightarrow> string" where
  "stem_of name = (case rcut (CHR ''.'') name of
     (None, r) \<Rightarrow> name
   | (Some h, r) \<Rightarrow> if h = [] \<or> r = [] then name else h)"

definition with_suffix :: "path \<Rightarrow> string \<Rightarrow> path res" where
  "with_suffix p ext = (if path_name p = [] then Inl ValueError
     else Inr (p\<lparr>parts := butlast (parts p) @ [stem_of (path_name p) @ ext]\<rparr>))"

record key_answers =
  ka_umask :: nat
  ka_mkdir :: "py_exc option"
  ka_private :: string
  ka_public :: string
  ka_write :: write_answer
  ka_chmod :: "py_exc option"
  ka_write_pub :: write_answer

definition ensure_host_key :: "key_answers \<Rightarrow> path \<Rightarrow> (desk, path) io" where
  "ensure_host_key a p = (\<lambda>s. if file_exists p s then (Inr p, s)
     else then_io (check_io (ka_mkdir a))
         (then_io (write_bytes (ka_umask a) (ka_write a) p (ka_private a))
         (then_io (chmod_file (ka_chmod a) p 384)
         (bind_io (case with_suffix p ''.pub'' of Inl e \<Rightarrow> raise_io e | Inr q \<Rightarrow> ret_io q) (\<lambda>q.
          then_io (write_bytes (ka_umask a) (ka_write_pub a) q (ka_public a))
            (ret_io p))))) s)"

subsection \<open>create_server\<close>

definition lift_value :: "'a res \<Rightarrow> ('s, 'a) io" where
  "lift_value r = (case r of Inl e \<Rightarrow> raise_io e | Inr x \<Rightarrow> ret_io x)"

text \<open>
  \<open>given_backend\<close> is None when the caller passes no backend and one is built, with its error.
  \<open>on_listen\<close> is how \<open>asyncssh.create_server\<close> ends.
\<close>

definition create_server ::
  "config \<Rightarrow> key_answers \<Rightarrow> bool \<Rightarrow> py_exc option \<Rightarrow> string option \<Rightarrow> int option \<Rightarrow> py_exc option \<Rightarrow> (desk, unit) io" where
  "create_server cfg a given_backend build_error host_override port_override on_listen =
     then_io (check_authorized_keys (cf_authorized_keys cfg))
    (then_io (ensure_host_key a (cf_host_key cfg))
    (bind_io (lift_value (idle_timeout_seconds cfg)) (\<lambda>idle.
     bind_io (lift_value (shutdown_grace_seconds cfg)) (\<lambda>grace.
     bind_io (lift_value (keep_window_seconds cfg)) (\<lambda>keep.
     then_io (if given_backend then ret_io () else check_io build_error)
       (let host = (case host_override of Some h \<Rightarrow> h | None \<Rightarrow> cfg_host cfg) in
        bind_io (case port_override of Some p \<Rightarrow> ret_io p | None \<Rightarrow> lift_value (cfg_port cfg)) (\<lambda>port.
        then_io (check_io on_listen)
          (modify_io (\<lambda>s. s\<lparr>listening := listening s @ [(host, port)]\<rparr>)))))))))"

subsection \<open>Facts\<close>

lemma lift_value_run [io_simps]: "lift_value r s = (case r of Inl e \<Rightarrow> (Inl e, s) | Inr x \<Rightarrow> (Inr x, s))"
  by (simp add: lift_value_def io_simps split: sum.split)

lemma then_io_after: "m s = (Inr x, t) \<Longrightarrow> then_io m n s = n t"
  by (simp add: then_io_run)

lemma then_write_new: "files s p = None \<Longrightarrow>
    then_io (write_bytes u Written p content) n s = n (s\<lparr>files := (files s)(p \<mapsto> (content, u))\<rparr>)"
  by (simp add: write_bytes_def then_io_run)

lemma write_bytes_listening: "write_bytes u w p c s = (r, t) \<Longrightarrow> listening t = listening s"
  by (auto simp: write_bytes_def Let_def split: write_answer.splits)

lemma chmod_listening: "chmod_file a p m s = (r, t) \<Longrightarrow> listening t = listening s"
  by (auto simp: chmod_file_def io_simps split: option.splits)

lemma ensure_listening: "ensure_host_key a p s = (r, t) \<Longrightarrow> listening t = listening s"
  by (auto simp: ensure_host_key_def io_simps split: if_splits prod.splits sum.splits option.splits
      dest!: write_bytes_listening chmod_listening)

lemma ensure_existing: "file_exists p s \<Longrightarrow> ensure_host_key a p s = (Inr p, s)"
  by (simp add: ensure_host_key_def)

lemma ensure_ok: "ensure_host_key a p s = (Inr q, t) \<Longrightarrow> q = p \<and> file_exists p t"
proof (cases "file_exists p s")
  case True
  then show "ensure_host_key a p s = (Inr q, t) \<Longrightarrow> q = p \<and> file_exists p t" by (simp add: ensure_host_key_def)
next
  case False
  then show "ensure_host_key a p s = (Inr q, t) \<Longrightarrow> q = p \<and> file_exists p t"
    by (auto simp: ensure_host_key_def io_simps write_bytes_def chmod_file_def file_exists_def Let_def
        split: option.splits write_answer.splits sum.splits if_splits)
qed

text \<open>The durations of the built-in configuration.\<close>

lemma sample_durations: "idle_timeout_seconds (builtin_config sample_env) = Inr (Fin 900)"
  "shutdown_grace_seconds (builtin_config sample_env) = Inr (Fin 30)"
  "keep_window_seconds (builtin_config sample_env) = Inr (Fin 0)"
proof -
  have "show_nat 15 = ''15''" "show_nat 30 = ''30''" by code_simp+
  then show "idle_timeout_seconds (builtin_config sample_env) = Inr (Fin 900)"
    "shutdown_grace_seconds (builtin_config sample_env) = Inr (Fin 30)"
    using parse_duration_unit [of "CHR ''m''" 60 15] parse_duration_unit [of "CHR ''s''" 1 30]
    by (simp_all add: idle_timeout_seconds_def shutdown_grace_seconds_def builtin_config_def default_config_def duration_unit_def)
  show "keep_window_seconds (builtin_config sample_env) = Inr (Fin 0)"
    by (simp add: keep_window_seconds_def builtin_config_def default_config_def parse_duration_def strip_by_def is_space_def code_def)
qed

subsection \<open>Properties\<close>

text \<open>
  Property C26. Under a loaded configuration every connection gets a session on a room of the
  configuration, never the fallback: the room of the name it authenticated under, or the default
  room, with the configured idle limit; passwords are refused.
\<close>

theorem session_gets_its_room:
  assumes "load ev docs p = Inr (cfg, w)" "idle_timeout_seconds cfg = Inr idle"
  shows "\<exists>s. session_requested cfg act kept (snd (begin_auth user c)) = Inr s
    \<and> rc_name (room_cfg s) = (if dhas (cf_rooms cfg) user then user else cf_default_room cfg)
    \<and> (\<exists>nm. (nm, room_cfg s) \<in> set (cf_rooms cfg)) \<and> username s = user \<and> idle_seconds s = idle
    \<and> chan s = NoChan \<and> teardown s = TNone \<and> \<not> password_auth_supported"
proof -
  obtain r where r: "resolve cfg user = Some r"
    "rc_name r = (if dhas (cf_rooms cfg) user then user else cf_default_room cfg)"
    using wf_config_resolve [OF load_wf [OF assms(1)]] by blast
  have "\<exists>nm. (nm, r) \<in> set (cf_rooms cfg)"
    using r(1) by (auto simp: resolve_def split: option.splits dest: map_of_SomeD)
  then show ?thesis using r assms(2)
    by (simp add: session_requested_def begin_auth_def new_session_def password_auth_supported_def)
qed

theorem session_gets_its_room_witness:
  "\<exists>s. session_requested (builtin_config sample_env) True True (snd (begin_auth ''node'' new_conn)) = Inr s
     \<and> rc_name (room_cfg s) = ''node''"
proof -
  have l: "load sample_env (\<lambda>_. None) None = Inr (builtin_config sample_env, [])" by (simp add: load_def)
  note i = sample_durations(1)
  have "dhas (cf_rooms (builtin_config sample_env)) ''node''"
    by (simp add: dhas_def builtin_config_def builtin_rooms_def BUILTIN_ROOMS_def)
  then show ?thesis
    using session_gets_its_room [OF l i, where act = True and kept = True and user = "''node''" and c = new_conn] by auto
qed

text \<open>
  Property C27. The host key is generated once and kept: a key that exists is never touched, and a
  generated one ends with mode 0600 beside its public half. But it is the \<open>chmod\<close> after the write
  that sets the mode, so a startup that fails between the two leaves the private key with the
  mode of the umask, and every later startup accepts it as it is.
\<close>

theorem host_key_once:
  assumes new: "\<not> file_exists p s" and name: "with_suffix p ''.pub'' = Inr q" "q \<noteq> p"
    and works: "ka_mkdir a = None" "ka_write a = Written"
  shows "(ka_chmod a = None \<and> ka_write_pub a = Written \<longrightarrow>
      (\<exists>t. ensure_host_key a p s = (Inr p, t) \<and> files t p = Some (ka_private a, 384)
        \<and> (\<exists>m. files t q = Some (ka_public a, m)) \<and> (\<forall>x. x \<noteq> p \<and> x \<noteq> q \<longrightarrow> files t x = files s x)
        \<and> (\<forall>b. ensure_host_key b p t = (Inr p, t))))
    \<and> (\<forall>e. ka_chmod a = Some e \<longrightarrow>
      (\<exists>t. ensure_host_key a p s = (Inl e, t) \<and> files t p = Some (ka_private a, ka_umask a)
        \<and> (\<forall>b. ensure_host_key b p t = (Inr p, t))))"
proof (intro conjI impI allI)
  let ?s1 = "s\<lparr>files := (files s)(p \<mapsto> (ka_private a, ka_umask a))\<rparr>"
  have new': "files s p = None" using new unfolding file_exists_def by blast
  have start: "ensure_host_key a p s = then_io (chmod_file (ka_chmod a) p 384)
         (bind_io (ret_io q) (\<lambda>q. then_io (write_bytes (ka_umask a) (ka_write_pub a) q (ka_public a)) (ret_io p))) ?s1"
    using new works name(1) then_write_new [OF new']
    by (simp add: ensure_host_key_def then_io_after [of "check_io None"] check_io_run)
  {
    assume ok: "ka_chmod a = None \<and> ka_write_pub a = Written"
    let ?m = "case files s q of None \<Rightarrow> ka_umask a | Some f \<Rightarrow> snd f"
    let ?t = "s\<lparr>files := (files s)(p \<mapsto> (ka_private a, 384), q \<mapsto> (ka_public a, ?m))\<rparr>"
    have "ensure_host_key a p s = (Inr p, ?t)"
      using ok name(2) by (simp add: start io_simps chmod_file_def write_bytes_def Let_def)
    moreover have "file_exists p ?t" using name(2) by (simp add: file_exists_def)
    ultimately show "\<exists>t. ensure_host_key a p s = (Inr p, t) \<and> files t p = Some (ka_private a, 384)
        \<and> (\<exists>m. files t q = Some (ka_public a, m)) \<and> (\<forall>x. x \<noteq> p \<and> x \<noteq> q \<longrightarrow> files t x = files s x)
        \<and> (\<forall>b. ensure_host_key b p t = (Inr p, t))"
      using name(2) by (intro exI [of _ ?t]) (simp add: ensure_existing)
  }
  {
    fix e assume "ka_chmod a = Some e"
    then have "ensure_host_key a p s = (Inl e, ?s1)" by (simp add: start io_simps chmod_file_def)
    then show "\<exists>t. ensure_host_key a p s = (Inl e, t) \<and> files t p = Some (ka_private a, ka_umask a)
        \<and> (\<forall>b. ensure_host_key b p t = (Inr p, t))"
      by (intro exI [of _ ?s1]) (simp add: ensure_existing file_exists_def)
  }
qed

definition weak_umask :: key_answers where
  "weak_umask = \<lparr>ka_umask = 420, ka_mkdir = None, ka_private = ''secret'', ka_public = ''public'',
     ka_write = Written, ka_chmod = Some OSError, ka_write_pub = Written\<rparr>"

theorem host_key_once_witness:
  "\<exists>t. ensure_host_key weak_umask (mk_path ''/k/host_key'') \<lparr>files = (\<lambda>_. None), listening = []\<rparr> = (Inl OSError, t)
     \<and> files t (mk_path ''/k/host_key'') = Some (''secret'', 420)"
proof -
  have "with_suffix (mk_path ''/k/host_key'') ''.pub'' = Inr (mk_path ''/k/host_key.pub'')
      \<and> mk_path ''/k/host_key.pub'' \<noteq> mk_path ''/k/host_key''" by code_simp
  then show ?thesis
    using host_key_once [of "mk_path ''/k/host_key''" "\<lparr>files = (\<lambda>_. None), listening = []\<rparr>"
        "mk_path ''/k/host_key.pub''" weak_umask]
    by (auto simp: file_exists_def weak_umask_def)
qed

lemma create_server_listens:
  assumes run: "create_server cfg a given_backend build_error host_o port_o on_listen s = (r, t)"
  shows "case r of
      Inr u \<Rightarrow> file_exists (cf_authorized_keys cfg) s \<and> file_exists (cf_host_key cfg) t
        \<and> is_ok (idle_timeout_seconds cfg) \<and> is_ok (shutdown_grace_seconds cfg) \<and> is_ok (keep_window_seconds cfg)
        \<and> (given_backend \<or> build_error = None)
        \<and> (\<exists>port. (port_o = Some port \<or> (port_o = None \<and> cfg_port cfg = Inr port))
            \<and> listening t = listening s @ [(case host_o of Some h \<Rightarrow> h | None \<Rightarrow> cfg_host cfg, port)])
    | Inl e \<Rightarrow> listening t = listening s"
proof (cases "file_exists (cf_authorized_keys cfg) s")
  case False
  then show ?thesis using run by (auto simp: create_server_def check_authorized_keys_def io_simps)
next
  case True
  obtain k s1 where k: "ensure_host_key a (cf_host_key cfg) s = (k, s1)" by fastforce
  note same = ensure_listening [OF k]
  show ?thesis
  proof (cases k)
    case (Inl e)
    then show ?thesis using run True k same by (auto simp: create_server_def check_authorized_keys_def io_simps)
  next
    case (Inr q)
    have there: "file_exists (cf_host_key cfg) s1" using ensure_ok [of a "cf_host_key cfg" s q s1] k Inr by simp
    then have there': "file_exists (cf_host_key cfg) (s1\<lparr>listening := l\<rparr>)" for l by (simp add: file_exists_def)
    show ?thesis using run True k Inr same there there'
      by (auto simp: create_server_def check_authorized_keys_def io_simps Let_def
          split: sum.splits option.splits if_splits)
  qed
qed



end
