(* ===== verification/Shutdown.thy ===== *)
theory Shutdown
  imports Session_Outcomes Effects
begin

section \<open>Serving and shutting down (src/keycard/server.py, _drain and serve)\<close>

text \<open>
  The drain runs beside the sessions of \<open>Session_Steps\<close>: it looks at the registry of active
  sessions, speaks to them, and waits for their \<open>force_close\<close>. Its own coroutine stands at one of
  the awaits of \<open>drain_pc\<close>. What \<open>serve\<close> does after its event loop has been asked to stop is
  straight-line code over a log of the steps taken.
\<close>

subsection \<open>_drain\<close>

datatype drain_pc = Draining | Gathering "sid list" | Drained "unit res"

definition FORCE_CLOSE_TIMEOUT :: f64 where
  "FORCE_CLOSE_TIMEOUT = Fin 5"

definition CLOSE_TIMEOUT :: f64 where
  "CLOSE_TIMEOUT = Fin 5"

text \<open>\<open>f"{grace:.0f}"\<close> of a positive number.\<close>

fun show_seconds :: "f64 \<Rightarrow> string" where
  "show_seconds (Fin x) = show_int (half_even x)"
| "show_seconds (Inf neg) = (if neg then ''-inf'' else ''inf'')"
| "show_seconds NaN = ''nan''"

definition drain_message :: "f64 \<Rightarrow> bytes" where
  "drain_message grace = CRLF @ ''keycard: server shutting down, '' @ show_seconds grace @ ''s to finish up'' @ CRLF"

text \<open>\<open>for session in list(active)\<close>: the sessions in the order the set gave them.\<close>

definition notify_all :: "bytes \<Rightarrow> sid list \<Rightarrow> sys \<Rightarrow> sys" where
  "notify_all m ids y = foldl (\<lambda>y i. put i (notify_shutdown m (sess y i)) y) y ids"

definition drain_start :: "f64 \<Rightarrow> sid list \<Rightarrow> sys \<Rightarrow> drain_pc \<times> sys" where
  "drain_start grace ids y =
     (if ids = [] then (Drained (Inr ()), y)
      else if f_positive grace then (Draining, notify_all (drain_message grace) ids y)
      else (Gathering ids, y))"

text \<open>After the wait, ended by the event or by the timeout.\<close>

definition drain_waited :: "sid list \<Rightarrow> drain_pc" where
  "drain_waited ids = (if ids = [] then Drained (Inr ()) else Gathering ids)"

text \<open>
  \<open>gather\<close> when one \<open>force_close\<close> has ended: an exception ends the drain with it, otherwise the
  drain goes on until all have ended. A cancelled teardown raises \<open>CancelledError\<close> into every
  coroutine that awaits it; a write to the channel that fails is an \<open>OSError\<close>.
\<close>

definition close_ended :: "sid list \<Rightarrow> py_exc option \<Rightarrow> sys \<Rightarrow> drain_pc" where
  "close_ended ids e y = (case e of Some x \<Rightarrow> Drained (Inl x)
     | None \<Rightarrow> if list_all (\<lambda>i. closer (sess y i) = CDone) ids then Drained (Inr ()) else Gathering ids)"

definition drain_close_start :: "sid \<Rightarrow> bool \<Rightarrow> sid list \<Rightarrow> sys \<Rightarrow> (drain_pc \<times> sys) option" where
  "drain_close_start i writes ids y = (case close_start i writes y of None \<Rightarrow> None
     | Some z \<Rightarrow> Some (if closer (sess z i) = CDone then close_ended ids (Some OSError) z else Gathering ids, z))"

definition drain_close_finish :: "sid \<Rightarrow> sid list \<Rightarrow> sys \<Rightarrow> (drain_pc \<times> sys) option" where
  "drain_close_finish i ids y = (case close_finish i y of None \<Rightarrow> None
     | Some z \<Rightarrow> Some (close_ended ids (if teardown (sess y i) = TCancelled then Some CancelledError else None) z, z))"

text \<open>The timeout of \<open>FORCE_CLOSE_TIMEOUT\<close>: what still waits is cancelled, and the drain is over.\<close>

fun cancel_closes :: "sid list \<Rightarrow> sys \<Rightarrow> sys" where
  "cancel_closes [] y = y"
| "cancel_closes (i # ids) y = cancel_closes ids (case close_cancel i y of None \<Rightarrow> y | Some z \<Rightarrow> z)"

definition drain_gave_up :: "sid list \<Rightarrow> sys \<Rightarrow> drain_pc \<times> sys" where
  "drain_gave_up ids y = (Drained (Inr ()), cancel_closes ids y)"

subsection \<open>serve\<close>

datatype serve_step = Listener_Closed | Drain_Over | Connections_Closed | Kept_Swept | Backend_Closed

definition log_step :: "serve_step \<Rightarrow> (serve_step list, unit) io" where
  "log_step x = modify_io (\<lambda>l. l @ [x])"

definition raised :: "unit res \<Rightarrow> (serve_step list, unit) io" where
  "raised r = (case r of Inl e \<Rightarrow> raise_io e | Inr u \<Rightarrow> ret_io ())"

text \<open>
  The \<open>finally\<close> clause, from closing the listener. \<open>on_drain\<close> is how the drain ended, \<open>on_wait\<close> how
  the bounded \<open>wait_closed\<close> did, \<open>on_sweep\<close> \<open>destroy_all\<close> and \<open>on_close\<close> the backend. \<open>grace\<close> is
  parsed again.
\<close>

definition serve_sweep :: "unit res \<Rightarrow> unit res \<Rightarrow> unit res \<Rightarrow> (serve_step list, unit) io" where
  "serve_sweep on_drain on_wait on_sweep =
     then_io (log_step Listener_Closed)
    (then_io (raised on_drain)
    (then_io (log_step Drain_Over)
    (then_io (catch_io (raised on_wait) (\<lambda>e. e = TimeoutError) (\<lambda>_. ret_io ()))
    (then_io (log_step Connections_Closed)
    (then_io (raised on_sweep)
      (log_step Kept_Swept))))))"

definition serve_stop :: "unit res \<Rightarrow> unit res \<Rightarrow> unit res \<Rightarrow> unit res \<Rightarrow> (serve_step list, unit) io" where
  "serve_stop on_drain on_wait on_sweep on_close =
     then_io (serve_sweep on_drain on_wait on_sweep)
    (then_io (raised on_close)
      (log_step Backend_Closed))"

subsection \<open>Facts\<close>

lemma notify_all_Cons: "notify_all m (i # ids) y = notify_all m ids (put i (notify_shutdown m (sess y i)) y)"
  by (simp add: notify_all_def)

lemma notify_all_steps: "server_step\<^sup>*\<^sup>* y (notify_all m ids y)"
proof (induction ids arbitrary: y)
  case Nil
  then show ?case by (simp add: notify_all_def)
next
  case (Cons i ids)
  have "server_step y (put i (notify_shutdown m (sess y i)) y)"
    by (rule server_step.alone) (rule local_step.notified)
  then show ?case using Cons by (simp add: notify_all_Cons converse_rtranclp_into_rtranclp)
qed

lemma notify_all_sess:
  "distinct ids \<Longrightarrow> sess (notify_all m ids y) j = (if j \<in> set ids then notify_shutdown m (sess y j) else sess y j)"
  by (induction ids arbitrary: y) (auto simp: notify_all_Cons put_def, simp add: notify_all_def)

lemma notify_all_frame: "active (notify_all m ids y) = active y" "rooms (notify_all m ids y) = rooms y"
  "empty_event (notify_all m ids y) = empty_event y"
  by (induction ids arbitrary: y) (simp_all add: notify_all_Cons, simp_all add: notify_all_def)

lemma raised_run [io_simps]: "raised r l = (case r of Inl e \<Rightarrow> (Inl e, l) | Inr u \<Rightarrow> (Inr (), l))"
  by (simp add: raised_def io_simps split: sum.split)

lemma log_step_run [io_simps]: "log_step x l = (Inr (), l @ [x])"
  by (simp add: log_step_def io_simps)

subsection \<open>Properties\<close>

text \<open>
  With a grace period the drain first warns every active session whose channel is
  open, with one message that says how long it has, and changes nothing else; the registry stays
  as it is, so the wait is for exactly these sessions. Without one it warns nobody and cuts them
  all at once.
\<close>

theorem drain_warns:
  assumes "server_reachable y" "distinct ids" "set ids = active y" "active y \<noteq> {}"
  shows "(\<not> f_positive grace \<longrightarrow> drain_start grace ids y = (Gathering ids, y))
    \<and> (f_positive grace \<longrightarrow> (\<exists>z. drain_start grace ids y = (Draining, z) \<and> server_reachable z \<and> active z = active y
      \<and> (\<forall>i. sess z i = (if i \<in> active y \<and> chan (sess y i) = ChanOpen
           then (sess y i)\<lparr>out := out (sess y i) @ [OWrite (drain_message grace)]\<rparr> else sess y i))))"
proof -
  have "ids \<noteq> []" using assms(3,4) by auto
  moreover have "server_reachable (notify_all m ids y)" for m
    using reachable_run [OF notify_all_steps assms(1)] .
  ultimately show ?thesis using assms(2,3)
    by (auto simp: drain_start_def notify_all_sess notify_all_frame notify_shutdown_def open_chan_def emit_def)
qed

theorem drain_warns_witness:
  "\<exists>y z. run hello (plain_server True) = Some y \<and> drain_start (Fin 30) [0] y = (Draining, z)
     \<and> last (out (sess z 0)) = OWrite (drain_message (Fin 30))"
proof -
  let ?y = "the (run hello (plain_server True))"
  have "run hello (plain_server True) \<noteq> None \<and> active ?y = {0} \<and> chan (sess ?y 0) = ChanOpen" by code_simp
  then obtain y where y: "run hello (plain_server True) = Some y" "active y = {0}" "chan (sess y 0) = ChanOpen" by auto
  then obtain z where z: "drain_start (Fin 30) [0] y = (Draining, z)"
    "\<forall>i. sess z i = (if i \<in> active y \<and> chan (sess y i) = ChanOpen
           then (sess y i)\<lparr>out := out (sess y i) @ [OWrite (drain_message (Fin 30))]\<rparr> else sess y i)"
    using drain_warns [OF run_reachable [OF y(1)], of "[0]" "Fin 30"] by auto
  have "last (out (sess z 0)) = OWrite (drain_message (Fin 30))" using z(2) y by simp
  then show ?thesis using y(1) z(1) by blast
qed

definition cut_run :: "sid \<Rightarrow> int room_result \<Rightarrow> event list" where
  "cut_run i res = [Close_Start i True, Teardown_Start i, Teardown_Destroyed i res]"



text \<open>
  Property C8. One session whose teardown was cancelled before it ran ends the whole shutdown
  early: its \<open>force_close\<close> awaits the cancelled task, the cancellation comes out of the drain,
  which only catches a timeout, and out of \<open>serve\<close>. No paused room is swept and no backend is
  closed, and the room of that session is never destroyed.
\<close>

theorem cancelled_teardown_aborts_shutdown:
  assumes "server_reachable y" "teardown (sess y i) = TCancelled" "room (sess y i) = Some r" "has_active (sess y i)"
    and "closer (sess y i) = CNone" "chan (sess y i) \<noteq> NoChan" "i \<in> set ids" "w \<or> chan (sess y i) = ChanClosing"
  shows "i \<in> active y \<and> (\<exists>z1 z e. drain_close_start i w ids y = Some (Gathering ids, z1)
    \<and> drain_close_finish i ids z1 = Some (Drained (Inl e), z) \<and> e = CancelledError
    \<and> serve_stop (Inl e) on_wait on_sweep on_close l = (Inl e, l @ [Listener_Closed])
    \<and> (\<forall>z'. server_step\<^sup>*\<^sup>* z z' \<longrightarrow> rooms z' r = RLive \<and> destroys z' r = 0 \<and> i \<in> active z'))"
proof -
  note leak = stuck_leaks [OF assms(1-4)]
  have act: "i \<in> active y" using leak [OF rtranclp.rtrancl_refl] by blast
  obtain z1 where z1: "close_start i w y = Some z1" "closer (sess z1 i) = CWait" "teardown (sess z1 i) = TCancelled"
    using assms(2,5,8) by (auto simp: close_start_def begin_teardown_def open_chan_def emit_def Let_def put_def)
  obtain z where z: "close_finish i z1 = Some z"
    using z1 by (auto simp: close_finish_def teardown_over_def Let_def)
  have "server_step y z1" using assms(6) z1(1) by (rule server_step.close_start)
  moreover have "server_step z1 z" using z by (rule server_step.close_finish)
  ultimately have steps: "server_step\<^sup>*\<^sup>* y z" by (meson r_into_rtranclp rtranclp_trans)
  have "rooms z' r = RLive \<and> destroys z' r = 0 \<and> i \<in> active z'" if "server_step\<^sup>*\<^sup>* z z'" for z'
    using leak [OF rtranclp_trans [OF steps that]] by blast
  moreover have "drain_close_start i w ids y = Some (Gathering ids, z1)"
    using z1 by (simp add: drain_close_start_def)
  moreover have "drain_close_finish i ids z1 = Some (Drained (Inl CancelledError), z)"
    using z z1(3) by (simp add: drain_close_finish_def close_ended_def)
  moreover have "serve_stop (Inl CancelledError) on_wait on_sweep on_close l = (Inl CancelledError, l @ [Listener_Closed])"
    by (simp add: serve_stop_def serve_sweep_def io_simps)
  ultimately show ?thesis using act by blast
qed

theorem cancelled_teardown_aborts_shutdown_witness:
  "\<exists>y z1 z. run exit_then_drop (plain_server True) = Some y \<and> drain_close_start 0 True [0] y = Some (Gathering [0], z1)
     \<and> drain_close_finish 0 [0] z1 = Some (Drained (Inl CancelledError), z)"
proof -
  let ?y = "the (run exit_then_drop (plain_server True))"
  have "run exit_then_drop (plain_server True) \<noteq> None \<and> teardown (sess ?y 0) = TCancelled
      \<and> room (sess ?y 0) = Some 0 \<and> has_active (sess ?y 0) \<and> closer (sess ?y 0) = CNone
      \<and> chan (sess ?y 0) = ChanClosing" by code_simp
  then obtain y where y: "run exit_then_drop (plain_server True) = Some y" "teardown (sess y 0) = TCancelled"
    "room (sess y 0) = Some 0" "has_active (sess y 0)" "closer (sess y 0) = CNone" "chan (sess y 0) = ChanClosing" by auto
  have c: "chan (sess y 0) \<noteq> NoChan" "True \<or> chan (sess y 0) = ChanClosing" using y(6) by simp_all
  show ?thesis
    using y(1) cancelled_teardown_aborts_shutdown [where ids = "[0]" and on_wait = "Inr ()" and on_sweep = "Inr ()"
        and on_close = "Inr ()" and l = "[]", OF run_reachable [OF y(1)] y(2-5) c(1) _ c(2)] by auto
qed

text \<open>
  Shutting down takes its steps in one order: the listener, the drain, the
  connections, the paused rooms, the backend. A timeout of the connections is passed over; an
  exception of any other step ends it there, so the backend is closed exactly if nothing before
  it raised, and the paused rooms are swept only if the drain did not raise.
\<close>

theorem serve_stop_order:
  "\<exists>n. serve_stop on_drain on_wait on_sweep on_close l =
      ((if \<not> is_ok on_drain then on_drain else if \<not> is_ok on_wait \<and> on_wait \<noteq> Inl TimeoutError then on_wait
        else if \<not> is_ok on_sweep then on_sweep else on_close),
       l @ take n [Listener_Closed, Drain_Over, Connections_Closed, Kept_Swept, Backend_Closed])
    \<and> 1 \<le> n \<and> (2 \<le> n \<longleftrightarrow> is_ok on_drain)
    \<and> (3 \<le> n \<longleftrightarrow> is_ok on_drain \<and> (is_ok on_wait \<or> on_wait = Inl TimeoutError))
    \<and> (4 \<le> n \<longleftrightarrow> is_ok on_drain \<and> (is_ok on_wait \<or> on_wait = Inl TimeoutError) \<and> is_ok on_sweep)
    \<and> (5 \<le> n \<longleftrightarrow> is_ok on_drain \<and> (is_ok on_wait \<or> on_wait = Inl TimeoutError) \<and> is_ok on_sweep \<and> is_ok on_close)"
proof -
  let ?w = "is_ok on_wait \<or> on_wait = Inl TimeoutError"
  consider "\<not> is_ok on_drain" | "is_ok on_drain" "\<not> ?w" | "is_ok on_drain" ?w "\<not> is_ok on_sweep"
    | "is_ok on_drain" ?w "is_ok on_sweep" "\<not> is_ok on_close" | "is_ok on_drain" ?w "is_ok on_sweep" "is_ok on_close"
    by blast
  then show ?thesis
  proof cases
    case 1
    then show ?thesis by (intro exI [of _ 1]) (cases on_drain; simp add: serve_stop_def serve_sweep_def io_simps)
  next
    case 2
    then show ?thesis
      by (intro exI [of _ 2]) (cases on_drain; cases on_wait; simp add: serve_stop_def serve_sweep_def io_simps)
  next
    case 3
    then show ?thesis
      by (intro exI [of _ 3]) (cases on_drain; cases on_wait; cases on_sweep; auto simp: serve_stop_def serve_sweep_def io_simps)
  next
    case 4
    then show ?thesis
      by (intro exI [of _ 4])
        (cases on_drain; cases on_wait; cases on_sweep; cases on_close; auto simp: serve_stop_def serve_sweep_def io_simps)
  next
    case 5
    then show ?thesis
      by (intro exI [of _ 5])
        (cases on_drain; cases on_wait; cases on_sweep; cases on_close; auto simp: serve_stop_def serve_sweep_def io_simps)
  qed
qed

end
