(* ===== verification/Serve.thy ===== *)
theory Serve
  imports Routing Server Shutdown
begin

section \<open>The life of the server (src/keycard/server.py, serve)\<close>

text \<open>
  \<open>serve\<close> puts the parts together: the registry of both real backends, the keep window, the
  listener, and the warning about rooms that cannot be kept. Its state is the registry with the
  host below it, and the desk. Then come its signals, its wait and its \<open>finally\<close> clause, and what they
  leave whatever fails.
\<close>

record front =
  fr_routing :: "(site_state, any_kept) routing"
  fr_desk :: desk

definition put_routing :: "(site_state, any_kept) routing \<Rightarrow> front \<Rightarrow> front" where
  "put_routing r s = s\<lparr>fr_routing := r\<rparr>"

definition put_desk :: "desk \<Rightarrow> front \<Rightarrow> front" where
  "put_desk d s = s\<lparr>fr_desk := d\<rparr>"

interpretation routing_side: part fr_routing put_routing
  by unfold_locales (simp_all add: put_routing_def)

interpretation desk_side: part fr_desk put_desk
  by unfold_locales (simp_all add: put_desk_def)

text \<open>The keep window, and the rooms that the warning names, if there is a window at all.\<close>

definition serve_up ::
  "site \<Rightarrow> config \<Rightarrow> key_answers \<Rightarrow> py_exc option \<Rightarrow> (front, f64 \<times> string list) io" where
  "serve_up st cfg a on_listen =
     then_io (on_part fr_routing put_routing (\<lambda>r. new_routing (FACTORIES st) cfg (rt_world r)))
    (bind_io (lift_value (keep_window_seconds cfg)) (\<lambda>secs.
     then_io (on_part fr_desk put_desk (create_server cfg a True None None None on_listen))
    (bind_io (lift_value (cfg_port cfg)) (\<lambda>port.
       if f_positive secs
       then bind_io (on_part fr_routing put_routing (rooms_without_keep (FACTORIES st) cfg)) (\<lambda>ns. ret_io (secs, ns))
       else ret_io (secs, [])))))"

subsection \<open>Facts\<close>

text \<open>What the two factories build, as far as pausing goes.\<close>

lemma docker_built: "docker_factory st cfg u = (Inr b, v) \<Longrightarrow> bk_can_pause b \<and> backend_contract b"
  using site_docker.backend_contract_axioms [of "st_docker st"]
  by (auto simp: docker_factory_def io_simps lift_backend_def docker_backend_def split: option.splits)

lemma vm_built: "firecracker_factory st cfg u = (Inr b, v) \<Longrightarrow> \<not> bk_can_pause b \<and> backend_contract b"
proof -
  assume b: "firecracker_factory st cfg u = (Inr b, v)"
  obtain k where k: "fc_kernel (cf_firecracker cfg) = Some k"
    "b = lift_backend vm_part put_vm FirecrackerKept vm_kept (microvm_backend (st_vm st) (cf_firecracker cfg) k)"
    using bind_io_ok [OF b [unfolded firecracker_factory_def Let_def]]
    by (auto simp: io_simps split: option.splits)
  then show ?thesis using site_vm.backend_contract_axioms [of "st_vm st" "cf_firecracker cfg" k]
    by (simp add: lift_backend_def microvm_backend_def)
qed

lemma factory_built:
  "built_by (FACTORIES st) cfg nb \<Longrightarrow> (bk_can_pause (snd nb) \<longleftrightarrow> fst nb \<noteq> ''firecracker'') \<and> backend_contract (snd nb)"
  using docker_built vm_built by (fastforce simp: built_by_def FACTORIES_def split: if_splits)

lemma warning_list:
  assumes "new_routing (FACTORIES st) cfg w = (Inr (), r)"
  shows "rooms_without_keep (FACTORIES st) cfg r =
    (Inr (sort (List.map rc_name (filter (\<lambda>room. effective_backend cfg room = ''firecracker'')
       (List.map snd (cf_rooms cfg))))), r)"
proof -
  note ok = new_routing_ok [OF assms]
  have "refusing (FACTORIES st) cfg (List.map snd (cf_rooms cfg)) r = (Inr (List.map rc_name (filter (\<lambda>room.
      \<not> bk_can_pause (the (dget (rt_backends r) (name_for cfg room)))) (List.map snd (cf_rooms cfg)))), r)"
    using ok(3) by (intro refusing_known) auto
  moreover have "\<not> bk_can_pause (the (dget (rt_backends r) (name_for cfg (snd nr)))) \<longleftrightarrow>
      effective_backend cfg (snd nr) = ''firecracker''" if mem: "nr \<in> set (cf_rooms cfg)" for nr
  proof -
    obtain b where b: "dget (rt_backends r) (name_for cfg (snd nr)) = Some b" using bspec [OF ok(3) mem] by blast
    have "built_by (FACTORIES st) cfg (name_for cfg (snd nr), b)" using ok(2) map_of_SomeD [OF b] by blast
    then show ?thesis using factory_built [of st cfg "(name_for cfg (snd nr), b)"] b
      by (simp add: name_for_effective)
  qed
  then have "filter (\<lambda>room. \<not> bk_can_pause (the (dget (rt_backends r) (name_for cfg room)))) (List.map snd (cf_rooms cfg))
      = filter (\<lambda>room. effective_backend cfg room = ''firecracker'') (List.map snd (cf_rooms cfg))"
    by (intro filter_cong) auto
  ultimately show ?thesis by (simp add: rooms_without_keep_def io_simps)
qed

lemma serve_up_built:
  assumes "serve_up st cfg a on_listen s = (Inr x, t)"
  shows "\<forall>nb\<in>set (rt_backends (fr_routing t)). built_by (FACTORIES st) cfg nb"
proof -
  obtain y r1 where n: "new_routing (FACTORIES st) cfg (rt_world (fr_routing s)) = (y, r1)" by fastforce
  obtain z d where c: "create_server cfg a True None None None on_listen (fr_desk s) = (z, d)" by fastforce
  have n': "new_routing (FACTORIES st) cfg (rt_world (fr_routing s)) = (Inr (), r1)"
    using assms n by (cases y) (auto simp: serve_up_def io_simps)
  have "fr_routing t = r1"
    using assms n' c warning_list [OF n'] by (cases z)
      (auto simp: serve_up_def io_simps put_routing_def put_desk_def split: sum.splits if_splits)
  then show ?thesis using new_routing_ok(2) [OF n'] by simp
qed

lemma create_server_run:
  assumes "create_server cfg a True None None None on_listen d = (r, d')"
  shows "case r of Inl e \<Rightarrow> listening d' = listening d
    | Inr u \<Rightarrow> (\<exists>port. cfg_port cfg = Inr port \<and> listening d' = listening d @ [(cfg_host cfg, port)])"
  using create_server_listens [OF assms] by (cases r) auto

text \<open>
  Starting up, from a well-formed configuration to the listening server: if it succeeds, the server
  listens on one more address, the configured one, with all backends of the configuration built,
  and warns about exactly the rooms that run on firecracker, if sessions are kept at all; if it
  fails, nothing listens.
\<close>

lemma serve_up_exact:
  assumes "wf_config cfg" "serve_up st cfg a on_listen s = (r, t)"
  shows "(case r of
      Inl e \<Rightarrow> listening (fr_desk t) = listening (fr_desk s)
    | Inr (secs, ns) \<Rightarrow> keep_window_seconds cfg = Inr secs
        \<and> (\<exists>port. cfg_port cfg = Inr port \<and> listening (fr_desk t) = listening (fr_desk s) @ [(cfg_host cfg, port)])
        \<and> dkeys (rt_backends (fr_routing t)) = sort (names_in_use cfg)
        \<and> (\<forall>nr\<in>set (cf_rooms cfg). rc_name (snd nr) \<in> set ns \<longleftrightarrow>
             f_positive secs \<and> effective_backend cfg (snd nr) = ''firecracker''))"
proof -
  obtain x r1 where n: "new_routing (FACTORIES st) cfg (rt_world (fr_routing s)) = (x, r1)" by fastforce
  obtain y d where c: "create_server cfg a True None None None on_listen (fr_desk s) = (y, d)" by fastforce
  note cr = create_server_run [OF c]
  have desk: "fr_desk (put_routing z u) = fr_desk u" "fr_routing (put_desk z' u) = fr_routing u"
    "fr_desk (put_desk z' u) = z'" "fr_routing (put_routing z u) = z" for z z' u
    by (simp_all add: put_routing_def put_desk_def)
  show ?thesis
  proof (cases x)
    case (Inl e)
    then show ?thesis using assms(2) n by (auto simp: serve_up_def io_simps desk)
  next
    case (Inr u)
    then have n: "new_routing (FACTORIES st) cfg (rt_world (fr_routing s)) = (Inr (), r1)" using n by simp
    note warn = warning_list [OF n]
    have uniq: "rc_name (snd nr) \<in> set (sort (List.map rc_name (filter (\<lambda>room. effective_backend cfg room = ''firecracker'')
        (List.map snd (cf_rooms cfg))))) \<longleftrightarrow> effective_backend cfg (snd nr) = ''firecracker''"
      if "nr \<in> set (cf_rooms cfg)" for nr
      using room_by_name [OF assms(1) that] that by (auto simp: image_iff)
    show ?thesis using assms(2) n c cr warn uniq new_routing_ok(1) [OF n]
      by (cases y) (auto simp: serve_up_def io_simps desk split: sum.splits if_splits)
  qed
qed

definition quiet_front :: front where
  "quiet_front = \<lparr>fr_routing = \<lparr>rt_backends = [], rt_world = calm_state\<rparr>,
     fr_desk = \<lparr>files = (\<lambda>_. Some ([], 384)), listening = []\<rparr>\<rparr>"

subsection \<open>The whole of serve\<close>

text \<open>
  The state of \<open>serve\<close>: the front, the signals that the event loop handles for it, and the steps of
  its shutdown. The drain and the paused rooms live in the session layer; how they end is an answer.
\<close>

datatype os_signal = SIGINT | SIGTERM

record served =
  sv_front :: front
  sv_handlers :: "os_signal list"
  sv_log :: "serve_step list"

definition put_front :: "front \<Rightarrow> served \<Rightarrow> served" where
  "put_front x s = s\<lparr>sv_front := x\<rparr>"

definition put_log :: "serve_step list \<Rightarrow> served \<Rightarrow> served" where
  "put_log l s = s\<lparr>sv_log := l\<rparr>"

interpretation front_side: part sv_front put_front
  by unfold_locales (simp_all add: put_front_def)

interpretation log_side: part sv_log put_log
  by unfold_locales (simp_all add: put_log_def)

text \<open>
  \<open>an_windows\<close>: there are no signal handlers. \<open>an_handler\<close>: how \<open>add_signal_handler\<close> ends.
  \<open>an_first\<close>: how the wait for the server or a signal ends, None when one of them came.
  \<open>an_settle\<close>: a cancellation while the two cancelled waiters settle.
\<close>

record serve_answers =
  an_windows :: bool
  an_handler :: "os_signal \<Rightarrow> py_exc option"
  an_first :: "py_exc option"
  an_settle :: "py_exc option"
  an_drain :: "unit res"
  an_wait :: "unit res"
  an_sweep :: "unit res"

definition add_handler :: "os_signal \<Rightarrow> served \<Rightarrow> served" where
  "add_handler g s = s\<lparr>sv_handlers := sv_handlers s @ [g]\<rparr>"

definition remove_handlers :: "os_signal list \<Rightarrow> served \<Rightarrow> served" where
  "remove_handlers gs s = s\<lparr>sv_handlers := filter (\<lambda>g. g \<notin> set gs) (sv_handlers s)\<rparr>"

text \<open>Handlers are added one by one; the list is \<open>registered_signals\<close>.\<close>

fun register :: "(os_signal \<Rightarrow> py_exc option) \<Rightarrow> os_signal list \<Rightarrow> (served, os_signal list) io" where
  "register h [] = ret_io []"
| "register h (g # gs) =
     bind_io (catch_io (then_io (check_io (h g)) (then_io (modify_io (add_handler g)) (ret_io [g])))
         (\<lambda>e. e = NotImplementedError) (\<lambda>_. ret_io []))
       (\<lambda>now. bind_io (register h gs) (\<lambda>later. ret_io (now @ later)))"

text \<open>\<open>server.close()\<close>: the server is the one that was made last.\<close>

definition close_listener :: "desk \<Rightarrow> desk" where
  "close_listener d = d\<lparr>listening := butlast (listening d)\<rparr>"

definition close_routing :: "(site_state, any_kept) routing \<Rightarrow> unit res \<times> (site_state, any_kept) routing" where
  "close_routing r = close_all (rt_backends r) r"

definition serve_finally :: "serve_answers \<Rightarrow> os_signal list \<Rightarrow> (served, unit) io" where
  "serve_finally an gs =
     then_io (check_io (an_settle an))
    (then_io (modify_io (remove_handlers gs))
    (then_io (on_part sv_front put_front (on_part fr_desk put_desk (modify_io close_listener)))
    (then_io (on_part sv_log put_log (serve_sweep (an_drain an) (an_wait an) (an_sweep an)))
    (then_io (on_part sv_front put_front (on_part fr_routing put_routing close_routing))
       (on_part sv_log put_log (log_step Backend_Closed))))))"

definition serve_waits :: "serve_answers \<Rightarrow> os_signal list \<Rightarrow> (served, unit) io" where
  "serve_waits an gs =
     finally_io (catch_io (check_io (an_first an)) (\<lambda>e. e = CancelledError) (\<lambda>_. ret_io ())) (serve_finally an gs)"

definition serve :: "site \<Rightarrow> config \<Rightarrow> key_answers \<Rightarrow> py_exc option \<Rightarrow> serve_answers \<Rightarrow> (served, unit) io" where
  "serve st cfg a on_listen an =
     then_io (on_part sv_front put_front (serve_up st cfg a on_listen))
    (bind_io (if an_windows an then ret_io [] else register (an_handler an) [SIGINT, SIGTERM])
       (serve_waits an))"

subsection \<open>Facts\<close>

text \<open>Docker's client fails to close with an \<open>Exception\<close>, as the SDK documents.\<close>

definition closes_politely :: "site \<Rightarrow> bool" where
  "closes_politely st \<longleftrightarrow> (\<forall>d e. da_close (st_docker st d) = Some e \<longrightarrow> is_exception e)"

definition closed_ok :: "(site_state, any_kept) backend \<Rightarrow> bool" where
  "closed_ok b \<longleftrightarrow> (\<forall>u. case fst (bk_close b u) of Inl e \<Rightarrow> is_exception e | Inr x \<Rightarrow> True)"

lemma docker_closes: "closes_politely st \<Longrightarrow> docker_factory st cfg u = (Inr b, v) \<Longrightarrow> closed_ok b"
  by (auto simp: docker_factory_def io_simps lift_backend_def docker_backend_def closes_politely_def closed_ok_def
      split: option.splits)

lemma vm_closes: "firecracker_factory st cfg u = (Inr b, v) \<Longrightarrow> closed_ok b"
  by (auto simp: firecracker_factory_def io_simps lift_backend_def microvm_backend_def closed_ok_def Let_def
      split: option.splits prod.splits sum.splits)

lemma factory_closes: "closes_politely st \<Longrightarrow> built_by (FACTORIES st) cfg nb \<Longrightarrow> closed_ok (snd nb)"
  using docker_closes vm_closes by (fastforce simp: built_by_def FACTORIES_def split: if_splits)

lemma close_routing_ok:
  "\<forall>nb\<in>set (rt_backends r). closed_ok (snd nb) \<Longrightarrow> \<exists>r'. close_routing r = (Inr (), r')"
  using close_reaches_all [of r] by (auto simp: closed_ok_def close_routing_def routing_backend_def)

lemma served_parts [simp]:
  "sv_front (put_front x s) = x" "sv_handlers (put_front x s) = sv_handlers s" "sv_log (put_front x s) = sv_log s"
  "sv_front (put_log l s) = sv_front s" "sv_handlers (put_log l s) = sv_handlers s" "sv_log (put_log l s) = l"
  "sv_front (add_handler g s) = sv_front s" "sv_log (add_handler g s) = sv_log s"
  "sv_handlers (add_handler g s) = sv_handlers s @ [g]"
  "sv_front (remove_handlers gs s) = sv_front s" "sv_log (remove_handlers gs s) = sv_log s"
  "fr_desk (put_routing y f) = fr_desk f" "fr_routing (put_routing y f) = y"
  "fr_desk (put_desk d f) = d" "fr_routing (put_desk d f) = fr_routing f"
  by (simp_all add: put_front_def put_log_def add_handler_def remove_handlers_def put_routing_def put_desk_def)

text \<open>Signal handlers are optional.\<close>

definition handlers_optional :: "serve_answers \<Rightarrow> bool" where
  "handlers_optional an \<longleftrightarrow> (\<forall>g e. an_handler an g = Some e \<longrightarrow> e = NotImplementedError)"

lemma register_run:
  assumes "\<forall>g e. h g = Some e \<longrightarrow> e = NotImplementedError"
  shows "\<exists>t. register h gs s = (Inr (filter (\<lambda>g. h g = None) gs), t) \<and> sv_front t = sv_front s
    \<and> sv_log t = sv_log s \<and> sv_handlers t = sv_handlers s @ filter (\<lambda>g. h g = None) gs"
proof (induction gs arbitrary: s)
  case (Cons g gs)
  show ?case
  proof (cases "h g")
    case None
    then show ?thesis using Cons [of "add_handler g s"] by (auto simp: io_simps)
  next
    case (Some e)
    then have "e = NotImplementedError" using assms by blast
    then show ?thesis using Cons [of s] Some by (auto simp: io_simps)
  qed
qed (simp add: io_simps)

lemma registered:
  assumes "handlers_optional an"
  obtains gs u where "(if an_windows an then ret_io [] else register (an_handler an) [SIGINT, SIGTERM]) s = (Inr gs, u)"
    "sv_front u = sv_front s" "sv_log u = sv_log s" "sv_handlers u = sv_handlers s @ gs"
proof (cases "an_windows an")
  case True
  then show ?thesis using that [of "[]" s] by (simp add: io_simps)
next
  case False
  obtain t where "register (an_handler an) [SIGINT, SIGTERM] s =
      (Inr (filter (\<lambda>g. an_handler an g = None) [SIGINT, SIGTERM]), t)"
    "sv_front t = sv_front s" "sv_log t = sv_log s"
    "sv_handlers t = sv_handlers s @ filter (\<lambda>g. an_handler an g = None) [SIGINT, SIGTERM]"
    using register_run [OF assms [unfolded handlers_optional_def]] by blast
  from that [OF _ this(2-4)] this(1) False show ?thesis by (simp only: if_False)
qed

text \<open>The steps of a shutdown whose last one does not fail.\<close>

definition waited_ok :: "unit res \<Rightarrow> bool" where
  "waited_ok r \<longleftrightarrow> is_ok r \<or> r = Inl TimeoutError"

definition stop_log :: "serve_answers \<Rightarrow> serve_step list" where
  "stop_log an = Listener_Closed # (if \<not> is_ok (an_drain an) then [] else Drain_Over #
     (if \<not> waited_ok (an_wait an) then [] else Connections_Closed #
       (if \<not> is_ok (an_sweep an) then [] else [Kept_Swept, Backend_Closed])))"

definition stop_result :: "serve_answers \<Rightarrow> unit res" where
  "stop_result an = (if \<not> is_ok (an_drain an) then an_drain an
     else if \<not> waited_ok (an_wait an) then an_wait an else an_sweep an)"

lemma serve_sweep_run:
  "serve_sweep (an_drain an) (an_wait an) (an_sweep an) l = (stop_result an, l @ filter (\<lambda>x. x \<noteq> Backend_Closed) (stop_log an))"
  by (cases "an_drain an"; cases "an_wait an"; cases "an_sweep an")
    (auto simp: serve_sweep_def io_simps stop_log_def stop_result_def waited_ok_def)

lemma stop_result_log: "stop_result an = Inr u \<longleftrightarrow> Backend_Closed \<in> set (stop_log an)"
  by (cases "an_drain an"; cases "an_wait an"; cases "an_sweep an")
    (auto simp: stop_log_def stop_result_def waited_ok_def split: if_splits)

lemma stop_log_ok: "stop_result an = Inr u \<Longrightarrow> stop_log an = filter (\<lambda>x. x \<noteq> Backend_Closed) (stop_log an) @ [Backend_Closed]"
  by (cases "an_drain an"; cases "an_wait an"; cases "an_sweep an")
    (auto simp: stop_log_def stop_result_def waited_ok_def split: if_splits)

lemma stop_log_bad: "stop_result an = Inl e \<Longrightarrow> filter (\<lambda>x. x \<noteq> Backend_Closed) (stop_log an) = stop_log an"
  by (cases "an_drain an"; cases "an_wait an"; cases "an_sweep an")
    (auto simp: stop_log_def stop_result_def waited_ok_def split: if_splits)

lemma serve_finally_run:
  assumes "an_settle an = None" "\<forall>nb\<in>set (rt_backends (fr_routing (sv_front s))). closed_ok (snd nb)"
  shows "\<exists>t. serve_finally an gs s = (stop_result an, t) \<and> sv_handlers t = filter (\<lambda>g. g \<notin> set gs) (sv_handlers s)
    \<and> sv_log t = sv_log s @ stop_log an
    \<and> listening (fr_desk (sv_front t)) = butlast (listening (fr_desk (sv_front s)))"
proof -
  obtain r where r: "close_routing (fr_routing (sv_front s)) = (Inr (), r)" using close_routing_ok [OF assms(2)] by blast
  have h: "sv_handlers (remove_handlers gs s) = filter (\<lambda>g. g \<notin> set gs) (sv_handlers s)" by (simp add: remove_handlers_def)
  have c: "listening (close_listener d) = butlast (listening d)" for d by (simp add: close_listener_def)
  show ?thesis
  proof (cases "stop_result an")
    case (Inl e)
    then show ?thesis using assms(1) h c stop_log_bad [OF Inl]
      by (simp add: serve_finally_def io_simps serve_sweep_run)
  next
    case (Inr u)
    then show ?thesis using assms(1) h c r stop_log_ok [OF Inr]
      by (simp add: serve_finally_def io_simps serve_sweep_run)
  qed
qed

text \<open>How the wait ends when the shutdown itself does not fail.\<close>

definition wait_result :: "serve_answers \<Rightarrow> unit res" where
  "wait_result an = (case an_first an of None \<Rightarrow> Inr () | Some e \<Rightarrow> if e = CancelledError then Inr () else Inl e)"

lemma serve_waits_run:
  assumes "an_settle an = None" "\<forall>nb\<in>set (rt_backends (fr_routing (sv_front s))). closed_ok (snd nb)"
  shows "\<exists>t. serve_waits an gs s = ((if is_ok (stop_result an) then wait_result an else stop_result an), t)
    \<and> sv_handlers t = filter (\<lambda>g. g \<notin> set gs) (sv_handlers s) \<and> sv_log t = sv_log s @ stop_log an
    \<and> listening (fr_desk (sv_front t)) = butlast (listening (fr_desk (sv_front s)))"
  using serve_finally_run [OF assms, of gs]
  by (cases "stop_result an"; cases "an_first an") (auto simp: serve_waits_def wait_result_def io_simps)

lemma serve_waits_cut: "an_settle an = Some e \<Longrightarrow> serve_waits an gs s = (Inl e, s)"
  by (cases "an_first an") (auto simp: serve_waits_def serve_finally_def io_simps)

lemma serve_started:
  assumes "closes_politely st" "handlers_optional an" "sv_handlers s = []" "sv_log s = []"
    and run: "serve st cfg a on_listen an s = (r, t)" and up: "serve_up st cfg a on_listen (sv_front s) = (Inr sn, f)"
  obtains gs u where "serve_waits an gs u = (r, t)" "sv_front u = f" "sv_log u = []" "sv_handlers u = gs"
    "\<forall>nb\<in>set (rt_backends (fr_routing (sv_front u))). closed_ok (snd nb)"
proof -
  obtain gs u where u: "(if an_windows an then ret_io [] else register (an_handler an) [SIGINT, SIGTERM]) (put_front f s) = (Inr gs, u)"
    "sv_front u = f" "sv_log u = []" "sv_handlers u = gs"
    using registered [OF assms(2), of "put_front f s"] assms(3,4) by auto
  have "serve_waits an gs u = (r, t)" using run up u(1) by (simp add: serve_def io_simps)
  moreover have "\<forall>nb\<in>set (rt_backends (fr_routing (sv_front u))). closed_ok (snd nb)"
    using serve_up_built [OF up] factory_closes [OF assms(1)] u(2) by blast
  ultimately show ?thesis using that u(2-4) by blast
qed

subsection \<open>Properties\<close>

text \<open>
  Property C24. The life of the server, from a well-formed configuration. A start that fails ends \<open>serve\<close>
  with its error, with nothing listening. Otherwise the server listens on the configured address,
  with all backends of the configuration, and warns about exactly the rooms on firecracker if
  sessions are kept. However its wait ends, by the listener, a signal or a cancellation, the
  listener is closed, no signal handler is left, and the shutdown takes its steps in one order up
  to the first that fails; the backends are closed exactly if none did, and only then does \<open>serve\<close>
  return normally. Only a second cancellation, while the waiters settle, skips all of it and leaves
  the server listening.
\<close>

theorem serve_lifecycle:
  assumes "wf_config cfg" "closes_politely st" "handlers_optional an"
    and "sv_handlers s = []" "sv_log s = []"
    and run: "serve st cfg a on_listen an s = (r, t)" and up: "serve_up st cfg a on_listen (sv_front s) = (x, f)"
  shows "case x of
      Inl e \<Rightarrow> r = Inl e \<and> sv_log t = [] \<and> sv_handlers t = []
        \<and> listening (fr_desk (sv_front t)) = listening (fr_desk (sv_front s))
    | Inr (secs, ns) \<Rightarrow>
        (\<exists>port. cfg_port cfg = Inr port \<and> listening (fr_desk f) = listening (fr_desk (sv_front s)) @ [(cfg_host cfg, port)])
        \<and> dkeys (rt_backends (fr_routing f)) = sort (names_in_use cfg)
        \<and> (\<forall>nr\<in>set (cf_rooms cfg). rc_name (snd nr) \<in> set ns \<longleftrightarrow>
             f_positive secs \<and> effective_backend cfg (snd nr) = ''firecracker'')
        \<and> (case an_settle an of
            Some e \<Rightarrow> r = Inl e \<and> sv_log t = [] \<and> sv_front t = f
          | None \<Rightarrow> sv_handlers t = [] \<and> sv_log t = stop_log an
              \<and> listening (fr_desk (sv_front t)) = listening (fr_desk (sv_front s))
              \<and> (Backend_Closed \<in> set (sv_log t) \<longleftrightarrow> is_ok (an_drain an) \<and> waited_ok (an_wait an) \<and> is_ok (an_sweep an))
              \<and> (is_ok r \<longleftrightarrow> Backend_Closed \<in> set (sv_log t) \<and> (an_first an = None \<or> an_first an = Some CancelledError)))"
proof (cases x)
  case (Inl e)
  then show ?thesis using run up assms(4,5) serve_up_exact [OF assms(1) up]
    by (auto simp: serve_def io_simps)
next
  case (Inr sn)
  obtain secs ns where sn: "sn = (secs, ns)" by fastforce
  note start = serve_up_exact [OF assms(1) up]
  obtain gs u where t: "serve_waits an gs u = (r, t)" and
    u: "sv_front u = f" "sv_log u = []" "sv_handlers u = gs"
       "\<forall>nb\<in>set (rt_backends (fr_routing (sv_front u))). closed_ok (snd nb)"
    using serve_started [OF assms(2-5) run up [unfolded Inr]] .
  show ?thesis
  proof (cases "an_settle an")
    case None
    have outcome: "r = (if is_ok (stop_result an) then wait_result an else stop_result an)" "sv_handlers t = []"
      "sv_log t = stop_log an" "listening (fr_desk (sv_front t)) = butlast (listening (fr_desk f))"
      using serve_waits_run [OF None u(4), of gs] t u by auto
    have "is_ok (stop_result an) \<longleftrightarrow> Backend_Closed \<in> set (stop_log an)"
      by (auto simp: is_ok_iff stop_result_log)
    moreover have "Backend_Closed \<in> set (stop_log an) \<longleftrightarrow> is_ok (an_drain an) \<and> waited_ok (an_wait an) \<and> is_ok (an_sweep an)"
      by (auto simp: stop_log_def)
    moreover have "is_ok (wait_result an) \<longleftrightarrow> an_first an = None \<or> an_first an = Some CancelledError"
      by (simp add: wait_result_def split: option.split)
    ultimately show ?thesis using start Inr sn None outcome by auto
  next
    case (Some e)
    then show ?thesis using serve_waits_cut [OF Some, of gs u] t u start Inr sn by auto
  qed
qed

lemma calm_start:
  "\<exists>f. serve_up calm_site (builtin_config sample_env) weak_umask None quiet_front = (Inr (Fin 0, []), f)"
proof -
  let ?c = "builtin_config sample_env"
  have p: "cfg_port ?c = Inr 2222" "cfg_host ?c = []" by code_simp+
  have names: "sort (names_in_use ?c) = [''docker'']"
    by (simp add: names_in_use_def builtin_config_def builtin_rooms_def BUILTIN_ROOMS_def mk_room_def
        default_config_def DEFAULT_BACKEND_def)
  obtain r where n: "new_routing (FACTORIES calm_site) ?c calm_state = (Inr (), r)"
    by (simp add: new_routing_def names FACTORIES_def docker_factory_def calm_site_def get_backend_new io_simps)
  obtain d where c: "create_server ?c weak_umask True None None None None (fr_desk quiet_front) = (Inr (), d)"
    by (simp add: create_server_def check_authorized_keys_def ensure_existing file_exists_def io_simps quiet_front_def
        sample_durations p Let_def)
  have w: "rt_world (fr_routing quiet_front) = calm_state" by (simp add: quiet_front_def)
  show ?thesis using n c by (simp add: serve_up_def io_simps w sample_durations p)
qed

lemma calm_closes: "closes_politely calm_site"
  by (simp add: closes_politely_def calm_site_def calm_docker_def is_exception_def)

text \<open>A terminal without signal handlers, and a Ctrl-C.\<close>

definition ctrl_c :: serve_answers where
  "ctrl_c = \<lparr>an_windows = False, an_handler = (\<lambda>g. Some NotImplementedError), an_first = Some CancelledError,
     an_settle = None, an_drain = Inr (), an_wait = Inl TimeoutError, an_sweep = Inr ()\<rparr>"

definition quiet_served :: served where
  "quiet_served = \<lparr>sv_front = quiet_front, sv_handlers = [], sv_log = []\<rparr>"

theorem serve_lifecycle_witness:
  "\<exists>r t. serve calm_site (builtin_config sample_env) weak_umask None ctrl_c quiet_served = (r, t) \<and> is_ok r
     \<and> sv_log t = [Listener_Closed, Drain_Over, Connections_Closed, Kept_Swept, Backend_Closed]
     \<and> listening (fr_desk (sv_front t)) = []"
proof -
  obtain f where f: "serve_up calm_site (builtin_config sample_env) weak_umask None quiet_front = (Inr (Fin 0, []), f)"
    using calm_start by blast
  obtain r t where t: "serve calm_site (builtin_config sample_env) weak_umask None ctrl_c quiet_served = (r, t)" by fastforce
  have s: "sv_handlers quiet_served = []" "sv_log quiet_served = []" "sv_front quiet_served = quiet_front"
    by (simp_all add: quiet_served_def)
  have "handlers_optional ctrl_c" by (simp add: handlers_optional_def ctrl_c_def)
  from serve_lifecycle [OF builtin_config_wf calm_closes this s(1,2) t] f s(3) t show ?thesis
    by (simp add: ctrl_c_def stop_log_def waited_ok_def quiet_front_def)
qed

end
