(* ===== verification/Cli.thy ===== *)
theory Cli
  imports Config
begin

section \<open>The command line (src/keycard/cli.py)\<close>

text \<open>
  What \<open>keycard up\<close> makes of the configuration and of the end of \<open>serve\<close>, and what \<open>keycard
  rooms\<close> prints. click, which reads the arguments, is not under src/.
\<close>

definition with_listen :: "string \<Rightarrow> config \<Rightarrow> config" where
  "with_listen l cfg = cfg\<lparr>cf_listen := l\<rparr>"

text \<open>The overrides of \<open>up\<close>, in order: the host keeps the configured port and the other way round.\<close>

definition up_config :: "config \<Rightarrow> string option \<Rightarrow> int option \<Rightarrow> string option \<Rightarrow> config res" where
  "up_config cfg host port keep =
     bind_res (case host of None \<Rightarrow> Inr cfg
        | Some h \<Rightarrow> bind_res (cfg_port cfg) (\<lambda>p. Inr (with_listen (h @ '':'' @ show_int p) cfg))) (\<lambda>c1.
     let c2 = (case port of None \<Rightarrow> c1 | Some p \<Rightarrow> with_listen (cfg_host c1 @ '':'' @ show_int p) c1)
     in Inr (case keep of None \<Rightarrow> c2 | Some k \<Rightarrow> c2\<lparr>cf_keep_window := k\<rparr>))"

text \<open>
  How \<open>up\<close> ends when \<open>asyncio.run\<close> does: silently, with a farewell, an error message, or a
  traceback.
\<close>

datatype up_end = Stopped | Farewell | Click_Error py_exc | Traceback py_exc

definition up_ends :: "unit res \<Rightarrow> up_end" where
  "up_ends r = (case r of Inr u \<Rightarrow> Stopped
     | Inl e \<Rightarrow> if e = FileNotFoundError \<or> e = ValueError then Click_Error e
       else if e = KeyboardInterrupt then Farewell else Traceback e)"

subsection \<open>rooms\<close>

definition room_extras :: "config \<Rightarrow> room_config \<Rightarrow> string list" where
  "room_extras cfg r =
     (if rc_memory r \<noteq> [] then [''mem='' @ rc_memory r] else [])
     @ (if rc_cpus r \<noteq> 0 then [''cpus='' @ show_int (rc_cpus r)] else [])
     @ (if rc_network r = ''none'' then [''offline''] else [])
     @ (if rc_backend r \<noteq> [] \<and> rc_backend r \<noteq> cf_backend cfg then [rc_backend r] else [])"

definition ljust :: "nat \<Rightarrow> string \<Rightarrow> string" where
  "ljust n s = s @ replicate (n - length s) (CHR '' '')"

definition room_tail :: "config \<Rightarrow> room_config \<Rightarrow> string" where
  "room_tail cfg r = rc_image r @ (if rc_name r = cf_default_room cfg then '' (default)'' else [])
     @ (if room_extras cfg r \<noteq> [] then ''  ['' @ join '', '' (room_extras cfg r) @ '']'' else [])"

definition room_line :: "config \<Rightarrow> nat \<Rightarrow> room_config \<Rightarrow> string" where
  "room_line cfg max_name r = ''  '' @ ljust max_name (rc_name r) @ ''  '' @ room_tail cfg r"

definition rooms_lines :: "config \<Rightarrow> string list" where
  "rooms_lines cfg = (if cf_rooms cfg = [] then [''No rooms configured.'']
     else (let rs = List.map snd (cf_rooms cfg); max_name = Max (set (List.map (\<lambda>r. length (rc_name r)) rs))
       in List.map (room_line cfg max_name) rs))"

subsection \<open>Facts\<close>

lemma no_colon_show_int: "CHR '':'' \<notin> set (show_int n)"
  using digits_show_nat [of "CHR '':''"] by (auto simp: show_int_def is_digit_def code_def)

lemma with_listen_simps [simp]:
  "\<bar>p\<bar> < 10 ^ 20 \<Longrightarrow> cfg_port (with_listen (h @ CHR '':'' # show_int p) cfg) = Inr p"
  "cfg_host (with_listen (h @ CHR '':'' # show_int p) cfg) = h"
  "cf_keep_window (with_listen l cfg) = cf_keep_window cfg" "cf_rooms (with_listen l cfg) = cf_rooms cfg"
  "cf_listen (with_listen l cfg) = l"
  using rcut_append [OF no_colon_show_int, of h p] py_int_show_int_small [OF space_like_is_space, of p]
  by (simp_all add: with_listen_def cfg_port_def cfg_host_def)

lemma with_listen_rest: "cfg\<lparr>cf_listen := l, cf_keep_window := cf_keep_window cfg\<rparr> = with_listen l cfg"
  "(with_listen l cfg)\<lparr>cf_keep_window := k\<rparr> = cfg\<lparr>cf_listen := l, cf_keep_window := k\<rparr>"
  "(with_listen l cfg)\<lparr>cf_listen := l', cf_keep_window := k\<rparr> = cfg\<lparr>cf_listen := l', cf_keep_window := k\<rparr>"
  "with_listen l (with_listen l' cfg) = with_listen l cfg"
  by (simp_all add: with_listen_def)

lemma length_ljust: "length s \<le> n \<Longrightarrow> length (ljust n s) = n"
  by (simp add: ljust_def)

lemma drop_pad: "length b = n \<Longrightarrow> drop (n + 4) (''  '' @ b @ ''  '' @ e) = e"
proof -
  assume "length b = n"
  then have "n + 4 = length (''  '' @ b @ ''  '')" by simp
  moreover have "''  '' @ b @ ''  '' @ e = (''  '' @ b @ ''  '') @ e" by simp
  ultimately show ?thesis by (metis append_eq_conv_conj)
qed

subsection \<open>Properties\<close>

text \<open>
  An override on the command line replaces its own half of the address and keeps the
  other: after \<open>up\<close> the host is the given one or the configured one, and so is the port; a host
  without a port needs the configured port to parse, and everything but the address and the keep
  window is the configuration that was loaded.
\<close>

theorem up_overrides:
  assumes "\<And>p. port = Some p \<or> cfg_port cfg = Inr p \<Longrightarrow> \<bar>p\<bar> < 10 ^ 20"
  shows "(case up_config cfg host port keep of
      Inl e \<Rightarrow> host \<noteq> None \<and> cfg_port cfg = Inl e
    | Inr c \<Rightarrow> cfg_host c = (case host of None \<Rightarrow> cfg_host cfg | Some h \<Rightarrow> h)
        \<and> cfg_port c = (case port of None \<Rightarrow> cfg_port cfg | Some p \<Rightarrow> Inr p)
        \<and> cf_keep_window c = (case keep of None \<Rightarrow> cf_keep_window cfg | Some k \<Rightarrow> k)
        \<and> c = cfg\<lparr>cf_listen := cf_listen c, cf_keep_window := cf_keep_window c\<rparr>)"
proof -
  have keep_simps: "cfg_host (c\<lparr>cf_keep_window := k\<rparr>) = cfg_host c" "cfg_port (c\<lparr>cf_keep_window := k\<rparr>) = cfg_port c"
    "cfg_host (c\<lparr>cf_listen := l\<rparr>) = cfg_host (with_listen l c)" "cfg_port (c\<lparr>cf_listen := l\<rparr>) = cfg_port (with_listen l c)"
    "cfg_host (c\<lparr>cf_listen := l, cf_keep_window := k\<rparr>) = cfg_host (with_listen l c)"
    "cfg_port (c\<lparr>cf_listen := l, cf_keep_window := k\<rparr>) = cfg_port (with_listen l c)" for c k l
    by (simp_all add: cfg_host_def cfg_port_def with_listen_def)
  consider (none) "host = None" | (bad) h e where "host = Some h" "cfg_port cfg = Inl e"
    | (good) h q where "host = Some h" "cfg_port cfg = Inr q"
    by (cases host; cases "cfg_port cfg") auto
  then show ?thesis
  proof cases
    case none
    then show ?thesis using assms
      by (cases port; cases keep) (simp_all add: up_config_def keep_simps with_listen_rest)
  next
    case bad
    then show ?thesis by (simp add: up_config_def)
  next
    case good
    then have q: "\<bar>q\<bar> < 10 ^ 20" using assms by blast
    show ?thesis using assms good q
      by (cases port; cases keep) (simp_all add: up_config_def keep_simps with_listen_rest)
  qed
qed

theorem up_overrides_witness:
  "\<exists>c. up_config (builtin_config sample_env) (Some ''::1'') (Some 22) None = Inr c
     \<and> cfg_host c = ''::1'' \<and> cfg_port c = Inr 22"
proof -
  have p: "cfg_port (builtin_config sample_env) = Inr 2222" by code_simp
  then have "\<bar>q\<bar> < 10 ^ 20" if "Some 22 = Some q \<or> cfg_port (builtin_config sample_env) = Inr q" for q
    using that by auto
  note given = up_overrides [where port = "Some 22" and cfg = "builtin_config sample_env" and host = "Some ''::1''"
      and keep = None, OF this]
  obtain c where "up_config (builtin_config sample_env) (Some ''::1'') (Some 22) None = Inr c"
    using p by (simp add: up_config_def)
  then show ?thesis using given by simp
qed

text \<open>
  \<open>keycard rooms\<close> prints one line for each room of a loaded configuration, in its
  order; the images line up in one column, whatever the lengths of the names, and exactly one
  room is marked as the default.
\<close>

theorem rooms_listing:
  assumes "load ev docs path = Inr (cfg, w)"
  shows "length (rooms_lines cfg) = length (cf_rooms cfg)
    \<and> (\<exists>n. \<forall>i < length (cf_rooms cfg). let r = snd (cf_rooms cfg ! i) in
         take (length (rc_name r)) (drop 2 (rooms_lines cfg ! i)) = rc_name r
         \<and> drop (n + 4) (rooms_lines cfg ! i) = room_tail cfg r)
    \<and> (\<exists>!i. i < length (cf_rooms cfg) \<and> rc_name (snd (cf_rooms cfg ! i)) = cf_default_room cfg)"
proof -
  let ?rs = "List.map snd (cf_rooms cfg)" and ?n = "Max (set (List.map (\<lambda>r. length (rc_name r)) (List.map snd (cf_rooms cfg))))"
  have wf: "wf_config cfg" using assms by (rule load_wf)
  then have ne: "cf_rooms cfg \<noteq> []" by (auto simp: wf_config_def dhas_def)
  have lines: "rooms_lines cfg = List.map (room_line cfg ?n) ?rs" using ne unfolding rooms_lines_def Let_def by (rule if_not_P)
  have col: "take (length (rc_name r)) (drop 2 (rooms_lines cfg ! i)) = rc_name r \<and> drop (?n + 4) (rooms_lines cfg ! i) = room_tail cfg r"
    if i: "i < length (cf_rooms cfg)" and r: "r = snd (cf_rooms cfg ! i)" for i r
  proof -
    have "length (rc_name r) \<in> set (List.map (\<lambda>r. length (rc_name r)) ?rs)" using i r by (auto simp: image_iff)
    then have "length (rc_name r) \<le> ?n" by (intro Max_ge) auto
    then have len: "length (ljust ?n (rc_name r)) = ?n" by (rule length_ljust)
    have line: "rooms_lines cfg ! i = ''  '' @ ljust ?n (rc_name r) @ ''  '' @ room_tail cfg r"
      using i r by (simp add: lines room_line_def)
    have "drop (?n + 4) (rooms_lines cfg ! i) = room_tail cfg r" using len by (simp only: line drop_pad)
    moreover have "take (length (rc_name r)) (drop 2 (rooms_lines cfg ! i)) = rc_name r" by (simp add: line ljust_def)
    ultimately show ?thesis by blast
  qed
  have uniq: "\<exists>!i. i < length (cf_rooms cfg) \<and> rc_name (snd (cf_rooms cfg ! i)) = cf_default_room cfg"
  proof -
    have dist: "distinct (dkeys (cf_rooms cfg))" and has: "cf_default_room cfg \<in> set (dkeys (cf_rooms cfg))"
      and names: "\<And>i. i < length (cf_rooms cfg) \<Longrightarrow> rc_name (snd (cf_rooms cfg ! i)) = dkeys (cf_rooms cfg) ! i"
      using wf nth_mem [of _ "cf_rooms cfg"]
      by (auto simp: wf_config_def wf_rooms_def wf_room_def dhas_def case_prod_beta)
    obtain i where i: "i < length (cf_rooms cfg)" "dkeys (cf_rooms cfg) ! i = cf_default_room cfg"
      using has by (metis in_set_conv_nth length_map)
    have only: "j = i" if "j < length (cf_rooms cfg)" "rc_name (snd (cf_rooms cfg ! j)) = cf_default_room cfg" for j
    proof -
      have "dkeys (cf_rooms cfg) ! j = dkeys (cf_rooms cfg) ! i"
        using names [OF that(1)] that(2) i(2) by argo
      then show ?thesis using nth_eq_iff_index_eq [OF dist] that(1) i(1) by (metis length_map)
    qed
    have "rc_name (snd (cf_rooms cfg ! i)) = cf_default_room cfg" using names [OF i(1)] i(2) by argo
    then show ?thesis using i(1) only by blast
  qed
  have "\<exists>n. \<forall>i < length (cf_rooms cfg). let r = snd (cf_rooms cfg ! i) in
      take (length (rc_name r)) (drop 2 (rooms_lines cfg ! i)) = rc_name r
      \<and> drop (n + 4) (rooms_lines cfg ! i) = room_tail cfg r"
    unfolding Let_def using col by blast
  moreover have "length (rooms_lines cfg) = length (cf_rooms cfg)" using lines by simp
  ultimately show ?thesis using uniq by blast
qed

theorem rooms_listing_witness:
  "length (rooms_lines (builtin_config sample_env)) = 3
   \<and> rooms_lines (builtin_config sample_env) ! 0 = ''  ubuntu  ubuntu:24.04 (default)''"
proof -
  have l: "load sample_env (\<lambda>_. None) None = Inr (builtin_config sample_env, [])" by (simp add: load_def)
  have "length (cf_rooms (builtin_config sample_env)) = 3
      \<and> rooms_lines (builtin_config sample_env) ! 0 = ''  ubuntu  ubuntu:24.04 (default)''" by code_simp
  then show ?thesis using rooms_listing [OF l] by simp
qed

end
