(* ===== verification/Up.thy ===== *)
theory Up
  imports Serve Cli
begin

section \<open>keycard up, from the command line to its end\<close>

text \<open>
  \<open>up\<close> of src/keycard/cli.py over \<open>serve\<close>: the configuration is loaded, overridden, served, and how
  that ends is what the user sees.
\<close>

text \<open>
  \<open>asyncio.run\<close>: a Ctrl-C that no handler of the program's takes cancels the main task, and a
  \<open>KeyboardInterrupt\<close> is raised only if the cancellation comes out of it.
\<close>

definition asyncio_run :: "bool \<Rightarrow> unit res \<Rightarrow> unit res" where
  "asyncio_run interrupted r = (if interrupted \<and> r = Inl CancelledError then Inl KeyboardInterrupt else r)"

definition keycard_up ::
  "env \<Rightarrow> (path \<Rightarrow> table res option) \<Rightarrow> path option \<Rightarrow> string option \<Rightarrow> int option \<Rightarrow> string option \<Rightarrow>
   site \<Rightarrow> key_answers \<Rightarrow> py_exc option \<Rightarrow> serve_answers \<Rightarrow> bool \<Rightarrow> served \<Rightarrow> up_end \<times> served" where
  "keycard_up ev docs path host port keep st a on_listen an interrupted s =
     (case load ev docs path of Inl e \<Rightarrow> (Traceback e, s)
      | Inr (cfg, warnings) \<Rightarrow>
          (case up_config cfg host port keep of Inl e \<Rightarrow> (Traceback e, s)
           | Inr c \<Rightarrow> (case serve st c a on_listen an s of (r, t) \<Rightarrow> (up_ends (asyncio_run interrupted r), t))))"

lemma wf_overrides: "wf_config cfg \<Longrightarrow> up_config cfg host port keep = Inr c \<Longrightarrow> wf_config c"
  by (auto simp: up_config_def wf_config_def with_listen_def bind_res_Inr_iff Let_def split: option.splits)

text \<open>
  Property C23. A Ctrl-C while the server waits ends \<open>keycard up\<close> the way a signal does: if nothing
  fails, the listener is closed, live rooms are drained, paused rooms swept and the backends
  closed, and the command ends without a word. The cancellation never reaches \<open>asyncio.run\<close>, so
  the farewell for a \<open>KeyboardInterrupt\<close> is not printed; that takes an interrupt that the shutdown
  itself raises. This holds with signal handlers and without, as on Windows.
\<close>

theorem ctrl_c_drains:
  assumes "load ev docs path = Inr (cfg, w)" "up_config cfg host port keep = Inr c"
    and "closes_politely st" "handlers_optional an" "sv_handlers s = []" "sv_log s = []"
    and up: "serve_up st c a on_listen (sv_front s) = (Inr sn, f)"
    and run: "keycard_up ev docs path host port keep st a on_listen an interrupted s = (u, t)"
    and first: "an_first an = None \<or> an_first an = Some CancelledError" and "an_settle an = None"
  shows "listening (fr_desk (sv_front t)) = listening (fr_desk (sv_front s)) \<and> sv_handlers t = []
    \<and> sv_log t = stop_log an
    \<and> (is_ok (an_drain an) \<and> waited_ok (an_wait an) \<and> is_ok (an_sweep an) \<longrightarrow> u = Stopped
        \<and> sv_log t = [Listener_Closed, Drain_Over, Connections_Closed, Kept_Swept, Backend_Closed])
    \<and> (u = Farewell \<longrightarrow> (\<exists>e. stop_result an = Inl e \<and> (e = KeyboardInterrupt \<or> interrupted \<and> e = CancelledError)))"
proof -
  have wf: "wf_config c" using wf_overrides [OF load_wf [OF assms(1)] assms(2)] .
  obtain r where r: "serve st c a on_listen an s = (r, t)" "u = up_ends (asyncio_run interrupted r)"
    using run assms(1,2) by (auto simp: keycard_up_def split: prod.splits)
  obtain gs v where v: "serve_waits an gs v = (r, t)" "sv_front v = f" "sv_log v = []" "sv_handlers v = gs"
    "\<forall>nb\<in>set (rt_backends (fr_routing (sv_front v))). closed_ok (snd nb)"
    using serve_started [OF assms(3-6) r(1) up] .
  have t: "r = (if is_ok (stop_result an) then wait_result an else stop_result an)" "sv_handlers t = []"
    "sv_log t = stop_log an" "listening (fr_desk (sv_front t)) = butlast (listening (fr_desk f))"
    using serve_waits_run [OF assms(10) v(5), of gs] v by auto
  have w: "wait_result an = Inr ()" using first by (auto simp: wait_result_def)
  have "u = Stopped \<and> stop_log an = [Listener_Closed, Drain_Over, Connections_Closed, Kept_Swept, Backend_Closed]"
    if "is_ok (an_drain an) \<and> waited_ok (an_wait an) \<and> is_ok (an_sweep an)"
    using that t(1) r(2) w by (auto simp: stop_result_def stop_log_def asyncio_run_def up_ends_def)
  moreover have "\<exists>e. stop_result an = Inl e \<and> (e = KeyboardInterrupt \<or> interrupted \<and> e = CancelledError)" if "u = Farewell"
    using that t(1) r(2) w by (cases "stop_result an") (auto simp: asyncio_run_def up_ends_def split: if_splits)
  ultimately show ?thesis using t serve_up_exact [OF wf up] by (cases sn) auto
qed

theorem ctrl_c_drains_witness:
  "\<exists>t. keycard_up sample_env (\<lambda>_. None) None None None None calm_site weak_umask None ctrl_c True quiet_served = (Stopped, t)
     \<and> sv_log t = [Listener_Closed, Drain_Over, Connections_Closed, Kept_Swept, Backend_Closed]"
proof -
  have l: "load sample_env (\<lambda>_. None) None = Inr (builtin_config sample_env, [])" by (simp add: load_def)
  have c: "up_config (builtin_config sample_env) None None None = Inr (builtin_config sample_env)" by (simp add: up_config_def)
  have s: "sv_handlers quiet_served = []" "sv_log quiet_served = []" "sv_front quiet_served = quiet_front"
    by (simp_all add: quiet_served_def)
  obtain f where "serve_up calm_site (builtin_config sample_env) weak_umask None quiet_front = (Inr (Fin 0, []), f)"
    using calm_start by blast
  then have f: "serve_up calm_site (builtin_config sample_env) weak_umask None (sv_front quiet_served) = (Inr (Fin 0, []), f)"
    using s(3) by simp
  have an: "handlers_optional ctrl_c" "an_first ctrl_c = None \<or> an_first ctrl_c = Some CancelledError" "an_settle ctrl_c = None"
    "is_ok (an_drain ctrl_c) \<and> waited_ok (an_wait ctrl_c) \<and> is_ok (an_sweep ctrl_c)"
    by (simp_all add: handlers_optional_def ctrl_c_def waited_ok_def)
  obtain u t where t: "keycard_up sample_env (\<lambda>_. None) None None None None calm_site weak_umask None ctrl_c True quiet_served = (u, t)"
    by fastforce
  from ctrl_c_drains [OF l c calm_closes an(1) s(1,2) f t an(2,3)] an(4) t show ?thesis by blast
qed

end
