(* ===== verification/Fcapi_Props.thy ===== *)
theory Fcapi_Props
  imports Fcapi
begin

section \<open>Framing of the control API\<close>

text \<open>
  Requests and responses survive the wire: what one side renders the other takes off the stream
  byte for byte, with nothing left over and nothing taken from what follows.
\<close>

subsection \<open>Lines and blank lines\<close>

definition one_line :: "string \<Rightarrow> bool" where
  "one_line l \<longleftrightarrow> l \<noteq> [] \<and> CR \<notin> set l"

lemma split_crlf_line: "CR \<notin> set l \<Longrightarrow> split_crlf (l @ CRLF @ s) = l # split_crlf s"
proof (induction l)
  case (Cons c l)
  then have c: "c \<noteq> CR" and ih: "split_crlf (l @ CRLF @ s) = l # split_crlf s" by auto
  show ?case
  proof (cases l)
    case Nil
    then show ?thesis using c by simp
  next
    case (Cons d k)
    then show ?thesis using c ih by simp
  qed
qed simp

lemma split_crlf_join:
  "ls \<noteq> [] \<Longrightarrow> (\<forall>l\<in>set ls. CR \<notin> set l) \<Longrightarrow> split_crlf (join CRLF ls @ CRLF @ CRLF) = ls @ [[], []]"
proof (induction ls)
  case (Cons l ls)
  show ?case
  proof (cases ls)
    case Nil
    then show ?thesis using Cons.prems split_crlf_line [of l "CRLF"] by simp
  next
    case (Cons l' ls')
    then show ?thesis
      using Cons.IH Cons.prems split_crlf_line [of l "join CRLF ls @ CRLF @ CRLF"] by simp
  qed
qed simp

lemma find_blank_line:
  "CR \<notin> set l \<Longrightarrow> find_blank s = Some (h, t) \<Longrightarrow> find_blank (l @ s) = Some (l @ h, t)"
  by (induction l) auto

lemma find_blank_crlf:
  "CR \<notin> set l \<Longrightarrow> l \<noteq> [] \<Longrightarrow> find_blank (l @ s) = Some (l @ h, t) \<Longrightarrow>
    find_blank (CRLF @ l @ s) = Some (CRLF @ l @ h, t)"
  by (cases l) auto

lemma find_blank_here: "find_blank (CRLF @ CRLF @ s) = Some ([], s)"
  by simp

lemma find_blank_join:
  "ls \<noteq> [] \<Longrightarrow> (\<forall>l\<in>set ls. one_line l) \<Longrightarrow>
    find_blank (join CRLF ls @ CRLF @ CRLF @ s) = Some (join CRLF ls, s)"
proof (induction ls)
  case (Cons l ls)
  have l: "CR \<notin> set l" using Cons.prems by (simp add: one_line_def)
  show ?case
  proof (cases ls)
    case Nil
      then show ?thesis using find_blank_line [OF l find_blank_here [of s]] by simp
  next
    case (Cons l' ls')
    then have l': "CR \<notin> set l'" "l' \<noteq> []" and ih: "find_blank (join CRLF ls @ CRLF @ CRLF @ s) = Some (join CRLF ls, s)"
      using Cons.IH Cons.prems by (auto simp: one_line_def)
    obtain r where r: "join CRLF ls = l' @ r" using Cons by (cases ls') auto
    have "find_blank (CRLF @ l' @ r @ CRLF @ CRLF @ s) = Some (CRLF @ l' @ r, s)"
      using find_blank_crlf [OF l', of "r @ CRLF @ CRLF @ s" r s] ih r by simp
    from find_blank_line [OF l this] show ?thesis using Cons r by simp
  qed
qed simp

subsection \<open>Header fs\<close>

lemma space_like_is_lspace [simp, intro]: "space_like is_lspace"
  using space_like_is_space by (auto simp: space_like_def is_lspace_def is_digit_def code_def)

lemma strip_space_num: "strip_by is_lspace (CHR '' '' # show_int n) = show_int n"
proof -
  have "is_lspace (CHR '' '')" by code_simp
  then have "strip_by is_lspace (CHR '' '' # show_int n) = strip_by is_lspace (show_int n)"
    by (simp add: strip_by_def)
  then show ?thesis using strip_show_int [OF space_like_is_lspace, of n] by simp
qed

lemma show_int_nat: "show_int (int n) = show_nat n"
  by (simp add: show_int_def)

lemma add_header_field:
  "CHR '':'' \<notin> set name \<Longrightarrow> add_header hs (name @ CHR '':'' # v)
     = dset (List.map llower_char (strip_by is_lspace name)) (strip_by is_lspace v) hs"
  by (simp add: add_header_def cut_append)

definition header_name :: "string \<Rightarrow> string" where
  "header_name name = List.map llower_char (strip_by is_lspace name)"

definition length_line :: "nat \<Rightarrow> string" where
  "length_line n = ''Content-Length: '' @ show_nat n"

lemma add_length: "add_header hs (length_line n) = dset ''content-length'' (show_nat n) hs"
proof -
  have "header_name ''Content-Length'' = ''content-length''" by code_simp
  then show ?thesis
    using add_header_field [of "''Content-Length''" hs "CHR '' '' # show_nat n"]
      strip_space_num [of "int n"]
    by (simp add: length_line_def header_name_def show_int_nat)
qed

lemma content_length_set:
  "n < 10 ^ 20 \<Longrightarrow> dget hs ''content-length'' = Some (show_nat n) \<Longrightarrow> content_length hs = Inr (int n)"
  using py_int_show_int_small [OF space_like_is_lspace, of "int n"]
  by (simp add: content_length_def show_int_nat)

lemma no_CR_show_nat: "CR \<notin> set (show_nat n)"
  using digits_show_nat [of CR n] by (auto simp: is_digit_def code_def)

lemma no_CR_show_int: "CR \<notin> set (show_int n)"
  using no_CR_show_nat by (auto simp: show_int_def)

lemma length_line_ok: "one_line (length_line n)"
  using no_CR_show_nat [of n] by (auto simp: one_line_def length_line_def)

subsection \<open>Requests\<close>

lemma request_lines_ok:
  "CR \<notin> set meth \<Longrightarrow> CR \<notin> set path \<Longrightarrow> \<forall>l\<in>set (request_lines meth path b). one_line l"
  using length_line_ok [of "length (payload_of b)"]
  by (auto simp: request_lines_def one_line_def HOST_HEADER_def Let_def length_line_def)

text \<open>
  A request is framed unambiguously: the first blank line of the byte stream ends
  its head, the head consists of exactly the rendered lines, its Content-Length is the length of
  the JSON payload, and the payload and whatever follows it are what is left of the stream.
\<close>

theorem request_framing:
  assumes "CR \<notin> set meth" "CR \<notin> set path" "length (payload_of b) < 10 ^ 20"
  shows "\<exists>head. find_blank (encode_request meth path b @ rest) = Some (head, payload_of b @ rest)
    \<and> split_crlf (head @ CRLF @ CRLF) = request_lines meth path b @ [[], []]
    \<and> content_length (foldl add_header [] (tl (request_lines meth path b))) = Inr (int (length (payload_of b)))"
proof -
  let ?ls = "request_lines meth path b" and ?n = "length (payload_of b)"
  have ne: "?ls \<noteq> []" by (simp add: request_lines_def Let_def)
  note ok = request_lines_ok [OF assms(1,2), of b]
  have nocr: "\<forall>l\<in>set ?ls. CR \<notin> set l" using ok by (simp add: one_line_def)
  have ct: "add_header hs ''Content-Type: application/json'' = dset ''content-type'' ''application/json'' hs" for hs
  proof -
    have "header_name ''Content-Type'' = ''content-type''" "strip_by is_lspace '' application/json'' = ''application/json''"
      by code_simp+
    then show ?thesis using add_header_field [of "''Content-Type''" hs "'' application/json''"]
      by (simp add: header_name_def)
  qed
  have "dget (foldl add_header [] (tl ?ls)) ''content-length'' = Some (show_nat ?n)"
    by (simp add: request_lines_def Let_def add_length [unfolded length_line_def] ct del: append_Cons)
  then have "content_length (foldl add_header [] (tl ?ls)) = Inr (int ?n)"
    by (rule content_length_set [OF assms(3)])
  then show ?thesis
    using find_blank_join [OF ne ok, of "payload_of b @ rest"] split_crlf_join [OF ne nocr]
    by (simp add: encode_request_def)
qed

theorem request_framing_witness:
  "\<exists>head. find_blank (encode_request ''PUT'' ''/actions'' (Some (JObj [(''action_type'', JStr ''InstanceStart'')])) @ ''next'')
     = Some (head, payload_of (Some (JObj [(''action_type'', JStr ''InstanceStart'')])) @ ''next'')"
  using request_framing [of "''PUT''" "''/actions''" "Some (JObj [(''action_type'', JStr ''InstanceStart'')])" "''next''"]
  by (auto simp: payload_of_def json_string_def json_char_def code_def)

subsection \<open>Responses\<close>

text \<open>A response as Firecracker writes it, with any reason and further header fields.\<close>

definition render_response :: "int \<Rightarrow> string \<Rightarrow> (string \<times> string) list \<Rightarrow> string \<Rightarrow> string" where
  "render_response st reason fs b =
     join CRLF ((''HTTP/1.1 '' @ show_int st @ '' '' @ reason)
       # List.map (\<lambda>f. fst f @ CHR '':'' # snd f) fs @ [length_line (length b)]) @ CRLF @ CRLF @ b"

definition field_ok :: "string \<times> string \<Rightarrow> bool" where
  "field_ok f \<longleftrightarrow> CR \<notin> set (fst f) \<and> CR \<notin> set (snd f) \<and> CHR '':'' \<notin> set (fst f)
     \<and> header_name (fst f) \<noteq> ''transfer-encoding''"

lemma fields_keep:
  "(\<forall>f\<in>set fs. field_ok f) \<Longrightarrow>
    dget (foldl add_header hs (List.map (\<lambda>f. fst f @ CHR '':'' # snd f) fs)) ''transfer-encoding''
      = dget hs ''transfer-encoding''"
  by (induction fs arbitrary: hs) (auto simp: field_ok_def add_header_field header_name_def)

lemma render_lines_ok:
  assumes "CR \<notin> set reason" "\<forall>f\<in>set fs. field_ok f"
  shows "\<forall>l\<in>set ((''HTTP/1.1 '' @ show_int st @ '' '' @ reason)
       # List.map (\<lambda>f. fst f @ CHR '':'' # snd f) fs @ [length_line (length b)]). one_line l"
  using assms no_CR_show_int [of st] length_line_ok [of "length b"]
  by (auto simp: one_line_def field_ok_def)

lemma parse_status:
  assumes "\<bar>st\<bar> < 10 ^ 20"
  shows "split_max 2 (CHR '' '') (''HTTP/1.1 '' @ show_int st @ '' '' @ reason) = [''HTTP/1.1'', show_int st, reason]
    \<and> py_int is_lspace (show_int st) = Inr st"
proof -
  have sp: "CHR '' '' \<notin> set (show_int st)"
    using digits_show_nat [of "CHR '' ''"] by (auto simp: show_int_def is_digit_def code_def)
  have "cut (CHR '' '') (''HTTP/1.1 '' @ show_int st @ '' '' @ reason) = (''HTTP/1.1'', Some (show_int st @ '' '' @ reason))"
    using cut_append [of "CHR '' ''" "''HTTP/1.1''"] by simp
  moreover have "cut (CHR '' '') (show_int st @ '' '' @ reason) = (show_int st, Some reason)"
    using cut_append [OF sp, of reason] by simp
  ultimately show ?thesis
    using py_int_show_int_small [OF space_like_is_lspace assms] by (simp add: numeral_2_eq_2)
qed

text \<open>
  A response with any status, reason, further header fields and body, empty or not,
  is read back exactly, and the bytes behind its body stay on the stream.
\<close>

theorem response_round_trip:
  assumes st: "\<bar>st\<bar> < 10 ^ 20" and wf: "CR \<notin> set reason" "\<forall>f\<in>set fs. field_ok f"
    and small: "length (render_response st reason fs b) \<le> STREAM_LIMIT"
  shows "read_response (render_response st reason fs b @ rest) e = Inr (\<lparr>status = st, body = b\<rparr>, rest)"
proof -
  let ?first = "''HTTP/1.1 '' @ show_int st @ '' '' @ reason"
  let ?ls = "?first # List.map (\<lambda>f. fst f @ CHR '':'' # snd f) fs @ [length_line (length b)]"
  note ok = render_lines_ok [OF wf, of st b]
  have nocr: "\<forall>l\<in>set ?ls. CR \<notin> set l" using ok by (simp add: one_line_def)
  have r: "render_response st reason fs b = join CRLF ?ls @ CRLF @ CRLF @ b"
    by (simp only: render_response_def)
  have "find_blank (render_response st reason fs b @ rest) = Some (join CRLF ?ls, b @ rest)"
    using find_blank_join [OF _ ok, of "b @ rest"] by (simp add: r)
  moreover have "length (join CRLF ?ls) \<le> STREAM_LIMIT" using small unfolding r by simp
  ultimately have head: "readuntil_blank (render_response st reason fs b @ rest) e
      = Inr (join CRLF ?ls @ CRLF @ CRLF, b @ rest)" by (simp add: readuntil_blank_def)
  let ?hs = "foldl add_header [] (List.map (\<lambda>f. fst f @ CHR '':'' # snd f) fs)"
  have lines: "split_crlf (join CRLF ?ls @ CRLF @ CRLF) = ?ls @ [[], []]"
    by (rule split_crlf_join [OF _ nocr]) simp
  have parsed: "parse_head (join CRLF ?ls @ CRLF @ CRLF) = Inr (st, dset ''content-length'' (show_nat (length b)) ?hs)"
    unfolding parse_head_def Let_def lines using parse_status [OF st, of reason]
    by (simp add: add_length, simp add: add_header_def)
  have te: "\<not> dhas (dset ''content-length'' (show_nat (length b)) ?hs) ''transfer-encoding''"
    using fields_keep [OF wf(2), of "[]"] by (simp add: dhas_iff)
  have "STREAM_LIMIT < 10 ^ 20" by (simp add: STREAM_LIMIT_def)
  then have "length b < 10 ^ 20" using small unfolding r by simp
  then have cl: "content_length (dset ''content-length'' (show_nat (length b)) ?hs) = Inr (int (length b))"
    by (rule content_length_set) simp
  show ?thesis
    using head parsed te cl by (cases "b = []") (simp_all add: read_response_def readexactly_def)
qed

theorem response_round_trip_witness:
  "read_response (render_response 400 ''Bad Request'' [(''Server'', '' Firecracker'')] ''{}'' @ ''rest'') Eof
     = Inr (\<lparr>status = 400, body = ''{}''\<rparr>, ''rest'')"
proof (rule response_round_trip)
  have "length (render_response 400 ''Bad Request'' [(''Server'', '' Firecracker'')] ''{}'') = 70"
    by code_simp
  then show "length (render_response 400 ''Bad Request'' [(''Server'', '' Firecracker'')] ''{}'') \<le> STREAM_LIMIT"
    by (simp add: STREAM_LIMIT_def)
  show "\<forall>f\<in>set [(''Server'', '' Firecracker'')]. field_ok f" by code_simp
qed simp_all

text \<open>
  Property C37. A call of the API over the wire: the bytes sent are the request, and a response of
  the VMM, with any reason, further header fields and body, comes back exactly if its status is
  2xx and as \<open>ApiError\<close> with that status otherwise, also when the closing of the socket fails with
  an operating system error.
\<close>

theorem call_over_the_wire:
  assumes st: "\<bar>st\<bar> < 10 ^ 20" and wf: "CR \<notin> set reason" "\<forall>f\<in>set fs. field_ok f"
    and small: "length (render_response st reason fs b) \<le> STREAM_LIMIT"
    and socket: "xa_open a = None" "xa_write a = None" "xa_stream a = render_response st reason fs b @ rest"
      "\<And>e. xa_closed a = Some e \<Longrightarrow> is_oserror e"
  shows "exchange a meth path j = (Inr \<lparr>status = st, body = b\<rparr>, encode_request meth path j)
    \<and> request (fst (exchange a meth path j)) =
        (if 200 \<le> st \<and> st < 300 then Inr \<lparr>status = st, body = b\<rparr> else Inl (ApiError st))"
proof -
  have "read_response (xa_stream a) (xa_end a) = Inr (\<lparr>status = st, body = b\<rparr>, rest)"
    unfolding socket(3) by (rule response_round_trip [OF st wf small])
  then have "exchange a meth path j = (Inr \<lparr>status = st, body = b\<rparr>, encode_request meth path j)"
    using socket(1,2,4) by (simp add: exchange_def Let_def split: option.split)
  then show ?thesis by (simp add: request_def resp_ok_def)
qed

theorem call_over_the_wire_witness:
  "request (fst (exchange \<lparr>xa_open = None, xa_write = None,
       xa_stream = render_response 400 ''Bad Request'' [(''Server'', '' Firecracker'')] ''{}'' @ [], xa_end = Eof,
       xa_closed = Some OSError\<rparr> ''PUT'' ''/vsock'' None)) = Inl (ApiError 400)"
proof -
  have len: "length (render_response 400 ''Bad Request'' [(''Server'', '' Firecracker'')] ''{}'') = 70"
    by code_simp
  have small: "length (render_response 400 ''Bad Request'' [(''Server'', '' Firecracker'')] ''{}'') \<le> STREAM_LIMIT"
    by (simp only: len) (simp add: STREAM_LIMIT_def)
  have fs: "\<forall>f\<in>set [(''Server'', '' Firecracker'')]. field_ok f" by code_simp
  show ?thesis
    using call_over_the_wire [OF _ _ fs small, where rest = "[]" and meth = "''PUT''" and path = "''/vsock''" and j = None
        and a = "\<lparr>xa_open = None, xa_write = None, xa_stream = render_response 400 ''Bad Request''
          [(''Server'', '' Firecracker'')] ''{}'' @ [], xa_end = Eof, xa_closed = Some OSError\<rparr>"]
    by (simp add: is_oserror_def request_def resp_ok_def)
qed

text \<open>
  A call of the API returns a response exactly if one with a 2xx status came back;
  a timeout is \<open>ApiError\<close> with status 0, another status is \<open>ApiError\<close> with that status, and
  every other failure of the exchange passes through.
\<close>

theorem request_outcome:
  "(request x = Inr r \<longleftrightarrow> x = Inr r \<and> 200 \<le> status r \<and> status r \<le> 299)
   \<and> (request x = Inl e \<longleftrightarrow> (x = Inl TimeoutError \<and> e = ApiError 0) \<or> (x = Inl e \<and> e \<noteq> TimeoutError)
        \<or> (\<exists>q. x = Inr q \<and> (status q < 200 \<or> 299 < status q) \<and> e = ApiError (status q)))"
  by (cases x) (auto simp: request_def resp_ok_def)

text \<open>
  Waiting for the API socket ends in the first round in which the deadline has
  passed, the connection succeeds, or something other than an operating system error is raised.
  It never succeeds after the deadline, and it returns if the clock reaches the deadline.
\<close>

theorem wait_ready_returns:
  assumes "ready_stops att elapsed timeout n"
  shows "\<exists>m\<le>n. wait_ready att elapsed timeout = Some (ready_result att elapsed timeout m)
    \<and> ready_stops att elapsed timeout m \<and> (\<forall>j<m. \<not> ready_stops att elapsed timeout j)
    \<and> (ready_result att elapsed timeout m = Inr () \<longleftrightarrow> before_deadline timeout (elapsed m) \<and> att m = None)"
proof -
  obtain m where "m \<le> n" "ready_stops att elapsed timeout m" "\<forall>j<m. \<not> ready_stops att elapsed timeout j"
    "poll_ready att elapsed timeout 0 = Some (ready_result att elapsed timeout m)"
    using readiness.returns [OF assms] .
  then show ?thesis unfolding wait_ready_def
    by (intro exI [of _ m]) (auto simp: ready_result_def split: option.splits)
qed

theorem wait_ready_returns_witness:
  "\<exists>m\<le>500. wait_ready (\<lambda>_. Some FileNotFoundError) (\<lambda>n. of_nat n / 100) (Fin 5)
     = Some (ready_result (\<lambda>_. Some FileNotFoundError) (\<lambda>n. of_nat n / 100) (Fin 5) m)"
proof -
  have "ready_stops (\<lambda>_. Some FileNotFoundError) (\<lambda>n. of_nat n / 100) (Fin 5) 500"
    by (simp add: ready_stops_def)
  from wait_ready_returns [OF this] show ?thesis by blast
qed

end
