(* ===== verification/Microvm_Safety.thy ===== *)
theory Microvm_Safety
  imports Microvm_Run
begin

section \<open>What a microVM leaves behind\<close>

text \<open>
  Opening, destroying and resuming a room on every path, failures included: which directories and
  processes are left. \<open>leaves\<close> collects the calls that change neither.
\<close>

definition leaves :: "(vm_state, 'a) io \<Rightarrow> bool" where
  "leaves m \<longleftrightarrow> (\<forall>s. dirs (snd (m s)) = dirs s \<and> running (snd (m s)) = running s)"

lemma leaves_basic [simp, intro]:
  "leaves (ret_io x)" "leaves (raise_io e)" "leaves (check_io x')" "leaves (lift_res r)"
  "leaves (modify_io (log_api m p b))" "leaves (modify_io (add_socks n))"
  by (auto simp: leaves_def io_simps lift_res_def log_api_def add_socks_def split: option.split sum.split)

lemma leaves_bind [intro]: "leaves m \<Longrightarrow> (\<And>x. leaves (f x)) \<Longrightarrow> leaves (bind_io m f)"
  unfolding leaves_def by (auto simp: io_simps split: prod.split sum.split) (metis snd_conv)+

lemma leaves_then [intro]: "leaves m \<Longrightarrow> leaves n \<Longrightarrow> leaves (then_io m n)"
  unfolding then_io_def by (rule leaves_bind)

lemma leaves_catch [intro]: "leaves m \<Longrightarrow> (\<And>e. leaves (h e)) \<Longrightarrow> leaves (catch_io m p h)"
  unfolding leaves_def by (auto simp: io_simps split: prod.split sum.split) (metis snd_conv)+

lemma leaves_calls [simp, intro]: "leaves (api_call w m p b)" "leaves (api_put w p b)" "leaves (send_resize w)"
  by (auto simp: api_call_def api_put_def send_resize_def)

lemma leaves_attach [simp, intro]: "leaves (attach_vm w t)"
  by (auto simp: attach_vm_def split: sum.split)

lemma leaves_boot [simp, intro]: "leaves (boot w fc k room v)"
  unfolding boot_def configure_def by (intro leaves_then leaves_bind leaves_calls leaves_basic leaves_attach)

lemma leaves_run: "leaves m \<Longrightarrow> m s = (r, t) \<Longrightarrow> dirs t = dirs s \<and> running t = running s"
  unfolding leaves_def by (metis snd_conv)

subsection \<open>Stopping\<close>

definition stop_ends :: "stop_answers \<Rightarrow> bool" where
  "stop_ends a \<longleftrightarrow> had_exited a \<or> gone_at_term a \<or> is_ok (on_wait a)
     \<or> (on_wait a = Inl TimeoutError \<and> (gone_at_kill a \<or> on_last_wait a = None))"

lemma stop_vm_run: "stop_ends a \<Longrightarrow> stop_vm a i s = (Inr (), drop_running i s)"
  by (cases "on_wait a") (auto simp: stop_vm_def stop_ends_def io_simps)

lemma stop_vm_ok: "stop_vm a i s = (Inr u, t) \<longleftrightarrow> stop_ends a \<and> t = drop_running i s"
  by (cases "on_wait a") (auto simp: stop_vm_def stop_ends_def io_simps split: if_splits option.splits)

lemma stop_vm_dirs: "stop_vm a i s = (r, t) \<Longrightarrow> dirs t = dirs s"
  by (cases "on_wait a")
    (auto simp: stop_vm_def io_simps drop_running_def split: if_splits option.splits)

text \<open>When the process was started but \<open>_spawn\<close> raised without stopping it.\<close>

definition escapes :: "world \<Rightarrow> bool" where
  "escapes w \<longleftrightarrow> is_ok (on_ruleset w) \<and> on_exec w = None
     \<and> (on_pidfile w \<noteq> None \<or> (\<exists>e. on_ready w = Inl e \<and> e \<noteq> TimeoutError))"

lemma spawn_run:
  assumes "stop_ends (stopping w)" "spawn w i s = (r, t)"
  shows "dirs t = dirs s
    \<and> (case r of Inr u \<Rightarrow> t = set_running i s \<and> \<not> escapes w
       | Inl e \<Rightarrow> running t = (if escapes w then insert i (running s) else running s - {i}) \<or> (\<not> escapes w \<and> t = s))"
proof (cases "on_ruleset w")
  case (Inl e)
  then show ?thesis using assms(2) by (auto simp: spawn_def io_simps escapes_def)
next
  case (Inr rs)
  consider "on_exec w \<noteq> None" | "on_exec w = None" "on_pidfile w \<noteq> None"
    | "on_exec w = None" "on_pidfile w = None" by blast
  then show ?thesis
    using assms(2) Inr stop_vm_run [OF assms(1)]
    by cases (auto simp: spawn_def io_simps escapes_def set_running_def drop_running_def split: sum.splits if_splits)
qed

subsection \<open>Opening\<close>

lemma cleanup_run:
  "stop_ends (stopping w) \<Longrightarrow> removable w \<Longrightarrow>
    cleanup w b i s = (Inr (), drop_dir i (if b then drop_running i s else s))"
  by (auto simp: cleanup_def remove_dir_def io_simps stop_vm_run)

definition created :: "world \<Rightarrow> bool \<Rightarrow> bool" where
  "created w image_exists \<longleftrightarrow> image_exists \<and> on_mkdir w = None \<and> on_owner w = None"

lemma open_vm_run:
  assumes "created w image_exists"
  shows "open_vm w fc image_exists k room v s = (let s1 = set_dir (inst_id v) s in
    (case (on_error (then_io (check_io (copy_rootfs w))
        (bind_io (lift_res (machine_config room)) (\<lambda>m. spawn w (inst_id v)))) (cleanup w False (inst_id v))) s1 of
      (Inl e, t) \<Rightarrow> (Inl e, t)
    | (Inr u, s2) \<Rightarrow> (case on_error (boot w fc k room v) (cleanup w True (inst_id v)) s2 of
        (Inl e, t) \<Rightarrow> (Inl e, t) | (Inr u, t) \<Rightarrow> (Inr v, t))))"
proof -
  have "create_instance w i s = (Inr (), set_dir i s)" for i
    using assms by (simp add: create_instance_def created_def io_simps)
  then show ?thesis using assms
    by (simp add: open_vm_def created_def Let_def then_io_run [of "create_instance w i" for i])
      (simp add: then_io_run ret_io_run split: prod.split sum.split)
qed

definition started :: "world \<Rightarrow> room_config \<Rightarrow> bool" where
  "started w room \<longleftrightarrow> copy_rootfs w = None \<and> is_ok (machine_config room)"

lemma first_part:
  assumes ends: "stop_ends (stopping w)" and rm: "removable w" and new: "i \<notin> running s" "i \<notin> dirs s"
    and run: "on_error (then_io (check_io (copy_rootfs w))
        (bind_io (lift_res (machine_config room)) (\<lambda>m. spawn w i))) (cleanup w False i) (set_dir i s) = (r, t)"
  shows "case r of Inr u \<Rightarrow> t = set_running i (set_dir i s) \<and> \<not> (started w room \<and> escapes w)
     | Inl e \<Rightarrow> i \<notin> dirs t \<and> (i \<in> running t \<longleftrightarrow> started w room \<and> escapes w)"
proof (cases "started w room")
  case False
  then show ?thesis using run new cleanup_run [OF ends rm, of False i]
    by (cases "machine_config room") (auto simp: io_simps started_def lift_res_def set_dir_def drop_dir_def
        split: option.splits)
next
  case True
  then obtain m where m: "copy_rootfs w = None" "machine_config room = Inr m"
    by (cases "machine_config room") (auto simp: started_def)
  obtain r1 t1 where sp: "spawn w i (set_dir i s) = (r1, t1)" by (cases "spawn w i (set_dir i s)")
  note facts = spawn_run [OF ends sp]
  have run': "(case r1 of Inr u \<Rightarrow> (Inr u, t1) | Inl e \<Rightarrow> (Inl e, drop_dir i t1)) = (r, t)"
    using run m sp cleanup_run [OF ends rm, of False i]
    by (cases r1) (auto simp: io_simps lift_res_def)
  show ?thesis
  proof (cases r1)
    case (Inr u)
    then show ?thesis using run' facts by auto
  next
    case (Inl e)
    then show ?thesis using run' facts True new by (auto simp: drop_dir_def set_dir_def split: if_splits)
  qed
qed

lemma failed_vm:
  assumes ends: "stop_ends (stopping w)" and rm: "removable w"
    and new: "inst_id v \<notin> dirs s" "inst_id v \<notin> running s"
    and failed: "open_vm w fc image_exists k room v s = (Inl e, t)"
  shows "(inst_id v \<in> dirs t \<longleftrightarrow> image_exists \<and> on_mkdir w = None \<and> on_owner w \<noteq> None)
    \<and> (inst_id v \<in> running t \<longleftrightarrow> created w image_exists \<and> started w room \<and> escapes w)"
proof (cases "created w image_exists")
  case False
  then show ?thesis using failed new
    by (auto simp: open_vm_defs created_def Let_def io_simps set_dir_def split: if_splits option.splits)
next
  case True
  let ?i = "inst_id v"
  obtain r1 t1 where first: "on_error (then_io (check_io (copy_rootfs w))
        (bind_io (lift_res (machine_config room)) (\<lambda>m. spawn w ?i))) (cleanup w False ?i) (set_dir ?i s) = (r1, t1)"
    by fastforce
  note fp = first_part [OF ends rm new(2,1) first]
  show ?thesis
  proof (cases r1)
    case (Inl e1)
    then show ?thesis using failed fp first True
      by (auto simp: open_vm_run [OF True] Let_def created_def)
  next
    case (Inr u)
    obtain r2 t2 where b: "boot w fc k room v t1 = (r2, t2)" by fastforce
    have kept: "dirs t2 = dirs t1" "running t2 = running t1" using leaves_run [OF leaves_boot b] by auto
    have "t = drop_dir ?i (drop_running ?i t2)"
      using failed first b Inr cleanup_run [OF ends rm, of True ?i]
      by (cases r2) (auto simp: open_vm_run [OF True] Let_def io_simps)
    then show ?thesis using fp Inr True by (auto simp: drop_dir_def drop_running_def created_def)
  qed
qed


definition good_world :: world where
  "good_world = \<lparr>on_mkdir = None, on_owner = None, on_cp = None, on_copyfile = None, on_ruleset = Inr (Some 9), on_exec = None,
     on_pidfile = None, on_ready = Inr (), on_api = (\<lambda>_. None), on_data = Inr [], on_ctrl = Inr [],
     on_resize = None, stopping = \<lparr>had_exited = False, gone_at_term = False, on_wait = Inr (),
       gone_at_kill = False, on_last_wait = None\<rparr>, removable = True, on_unlink = None\<rparr>"

definition no_vms :: vm_state where
  "no_vms = \<lparr>dirs = {}, running = {}, socks = 0, api_log = []\<rparr>"

definition some_room :: vm_instance where
  "some_room = instance_for (mk_path ''/tmp/keycard'') ''ubuntu'' ''0a1b''"

lemma plain_machine: "machine_config (mk_room n im) = Inr (1, 1024)"
  by (simp add: machine_config_def parse_memory_mib_def mk_room_def lower_def MAX_VCPUS_def
      DEFAULT_VCPUS_def DEFAULT_MEM_MIB_def)


subsection \<open>A room that opened\<close>

lemma attach_ok: "attach_vm w t s = (Inr u, s') \<Longrightarrow> is_ok t \<and> s' = add_socks 2 s"
  by (auto simp: attach_vm_def send_resize_def io_simps add_socks_def
      split: sum.splits option.splits if_splits)

lemma put_ok: "api_put w p b s = (Inr u, t) \<Longrightarrow> t = log_api ''PUT'' p b s"
  by (auto simp: api_put_def api_call_def io_simps split: option.splits)

lemma then_ok: "then_io m n s = (Inr x, t) \<Longrightarrow> \<exists>y s'. m s = (Inr y, s') \<and> n s' = (Inr x, t)"
  by (auto simp: io_simps split: prod.splits sum.splits)

lemma bind_ret: "bind_io (ret_io x) f = f x"
  by (simp add: fun_eq_iff io_simps)

lemma boot_ok:
  assumes "boot w fc k room v s = (Inr u, t)"
  shows "\<exists>m. machine_config room = Inr m \<and> is_ok (boot_timeout_seconds fc)
    \<and> t = add_socks 2 (s\<lparr>api_log := api_log s @ [(''PUT'', ''/boot-source'', boot_source fc k),
        (''PUT'', ''/drives/rootfs'', root_drive v), (''PUT'', ''/machine-config'', machine_json m),
        (''PUT'', ''/vsock'', vsock_json v), (''PUT'', ''/actions'', instance_start)]\<rparr>)"
proof -
  obtain m where m: "machine_config room = Inr m"
    using assms by (cases "machine_config room")
      (auto simp: boot_def configure_def io_simps lift_res_def split: prod.splits sum.splits)
  have c: "configure w fc k room v = then_io (api_put w ''/boot-source'' (boot_source fc k))
    (then_io (api_put w ''/drives/rootfs'' (root_drive v))
      (then_io (api_put w ''/machine-config'' (machine_json m)) (api_put w ''/vsock'' (vsock_json v))))"
    by (simp add: configure_def m lift_res_def bind_ret)
  from assms obtain s1 s2 where "configure w fc k room v s = (Inr (), s1)"
    "api_put w ''/actions'' instance_start s1 = (Inr (), s2)" "attach_vm w (boot_timeout_seconds fc) s2 = (Inr u, t)"
    unfolding boot_def by (fastforce dest!: then_ok)
  then show ?thesis
    unfolding c by (auto dest!: then_ok put_ok attach_ok simp: m log_api_def add_socks_def)
qed

lemma opened_vm:
  assumes "stop_ends (stopping w)" "removable w" "inst_id v \<notin> dirs s" "inst_id v \<notin> running s"
    and "open_vm w fc image_exists k room v s = (Inr v', t)"
  shows "v' = v \<and> dirs t = insert (inst_id v) (dirs s) \<and> running t = insert (inst_id v) (running s)
    \<and> socks t = socks s + 2 \<and> (\<exists>m. machine_config room = Inr m \<and> api_log t = api_log s @
       [(''PUT'', ''/boot-source'', boot_source fc k), (''PUT'', ''/drives/rootfs'', root_drive v),
        (''PUT'', ''/machine-config'', machine_json m), (''PUT'', ''/vsock'', vsock_json v),
        (''PUT'', ''/actions'', instance_start)])"
proof -
  have c: "created w image_exists"
    using assms(5) by (auto simp: open_vm_defs created_def Let_def io_simps split: if_splits option.splits)
  let ?i = "inst_id v"
  obtain r1 t1 where first: "on_error (then_io (check_io (copy_rootfs w))
        (bind_io (lift_res (machine_config room)) (\<lambda>m. spawn w ?i))) (cleanup w False ?i) (set_dir ?i s) = (r1, t1)"
    by fastforce
  note fp = first_part [OF assms(1,2,4,3) first]
  obtain u where r1: "r1 = Inr u" using assms(5) first by (cases r1) (auto simp: open_vm_run [OF c] Let_def)
  obtain r2 t2 where b: "boot w fc k room v t1 = (r2, t2)" by fastforce
  have "\<exists>u2. r2 = Inr u2 \<and> t = t2 \<and> v' = v"
    using assms(5) first b r1 cleanup_run [OF assms(1,2), of True ?i]
    by (cases r2) (auto simp: open_vm_run [OF c] Let_def io_simps)
  then obtain u2 where "boot w fc k room v t1 = (Inr u2, t)" "v' = v" using b by auto
  from boot_ok [OF this(1)] this(2) fp show ?thesis
    by (auto simp: r1 set_running_def set_dir_def add_socks_def)
qed

lemma good_opens:
  "\<exists>t. open_vm good_world (default_firecracker sample_env) True (mk_path ''/boot/vmlinux'') (mk_room n im) v s = (Inr v, t)"
proof -
  let ?o = "open_vm good_world (default_firecracker sample_env) True (mk_path ''/boot/vmlinux'') (mk_room n im) v s"
  have "show_nat 30 = ''30''" by code_simp
  then have "boot_timeout_seconds (default_firecracker sample_env) = Inr (Fin 30)"
    using parse_duration_unit [of "CHR ''s''" 1 30]
    by (simp add: boot_timeout_seconds_def default_firecracker_def duration_unit_def)
  then have "fst ?o = Inr v"
    by (simp add: open_vm_defs Let_def io_simps good_world_def plain_machine lift_res_def copy_rootfs_def spawn_def boot_def
        configure_def api_put_def api_call_def attach_vm_def send_resize_def)
  then show ?thesis by (metis prod.collapse)
qed

lemma good_open:
  obtains t where "open_vm good_world (default_firecracker sample_env) True (mk_path ''/boot/vmlinux'')
       (mk_room ''ubuntu'' ''u'') some_room no_vms = (Inr some_room, t)"
  using good_opens that by blast

text \<open>
  A room that opens owns exactly its instance directory, one running VMM and two guest
  sockets more than before, and the VMM was configured by the five API calls in the order that
  Firecracker wants, with the room's sizes and the instance's own paths.
\<close>

theorem opened_room:
  assumes "stop_ends (stopping w)" "removable w" "inst_id v \<notin> dirs s" "inst_id v \<notin> running s"
    and "open_vm w fc image_exists k room v s = (Inr v', t)"
  shows "v' = v \<and> dirs t = insert (inst_id v) (dirs s) \<and> running t = insert (inst_id v) (running s)
    \<and> socks t = socks s + 2 \<and> (\<exists>m. machine_config room = Inr m \<and> api_log t = api_log s @
       [(''PUT'', ''/boot-source'', boot_source fc k), (''PUT'', ''/drives/rootfs'', root_drive v),
        (''PUT'', ''/machine-config'', machine_json m), (''PUT'', ''/vsock'', vsock_json v),
        (''PUT'', ''/actions'', instance_start)])"
  using assms by (rule opened_vm)

theorem opened_room_witness:
  "\<exists>v t. open_vm good_world (default_firecracker sample_env) True (mk_path ''/boot/vmlinux'')
       (mk_room ''ubuntu'' ''u'') some_room no_vms = (Inr v, t) \<and> running t = {inst_id some_room} \<and> socks t = 2"
proof -
  obtain t where o: "open_vm good_world (default_firecracker sample_env) True (mk_path ''/boot/vmlinux'')
       (mk_room ''ubuntu'' ''u'') some_room no_vms = (Inr some_room, t)" by (rule good_open)
  have "stop_ends (stopping good_world)" "removable good_world" "inst_id some_room \<notin> dirs no_vms"
    "inst_id some_room \<notin> running no_vms"
    by (simp_all add: stop_ends_def good_world_def no_vms_def)
  from opened_room [OF this o] o show ?thesis by (auto simp: no_vms_def)
qed

subsection \<open>A room from beginning to end\<close>

lemma destroy_vm_run:
  assumes "stop_ends (stopping w)" "removable w"
  shows "destroy_vm w False heard i s = (Inr (case heard of None \<Rightarrow> 0 | Some st \<Rightarrow> st),
    drop_dir i (drop_running i (add_socks (- 2) s)))"
  using assms by (simp add: destroy_vm_def remove_dir_def io_simps stop_vm_run)

text \<open>
  A microVM that was opened and destroyed leaves no trace: its directory, its VMM and
  its two guest sockets are gone and those of every other room are as they were, the status is the
  one the guest agent reported or 0, and destroying the room again changes nothing. The answers
  of the host to the opening and to the destruction are independent.
\<close>

theorem room_leaves_no_trace:
  assumes opening_ends: "stop_ends (stopping w)" "removable w"
    and new: "inst_id v \<notin> dirs s" "inst_id v \<notin> running s"
    and opened: "open_vm w fc image_exists k room v s = (Inr v', s1)"
    and ends: "stop_ends (stopping w')" "removable w'"
  shows "\<exists>s2. destroy_vm w' False heard (inst_id v) s1 = (Inr (case heard of None \<Rightarrow> 0 | Some st \<Rightarrow> st), s2)
    \<and> dirs s2 = dirs s \<and> running s2 = running s \<and> socks s2 = socks s \<and> api_log s2 = api_log s1
    \<and> destroy_vm w'' True heard' (inst_id v) s2 = (Inr 0, s2)"
proof -
  let ?s2 = "drop_dir (inst_id v) (drop_running (inst_id v) (add_socks (- 2) s1))"
  note o = opened_vm [OF opening_ends new opened]
  have "destroy_vm w' False heard (inst_id v) s1 = (Inr (case heard of None \<Rightarrow> 0 | Some st \<Rightarrow> st), ?s2)"
    by (rule destroy_vm_run [OF ends])
  moreover have "dirs ?s2 = dirs s" "running ?s2 = running s" "socks ?s2 = socks s" "api_log ?s2 = api_log s1"
    using o new by (auto simp: drop_dir_def drop_running_def add_socks_def)
  moreover have "destroy_vm w'' True heard' (inst_id v) ?s2 = (Inr 0, ?s2)"
    by (simp add: destroy_vm_def io_simps)
  ultimately show ?thesis by blast
qed

theorem room_leaves_no_trace_witness:
  "\<exists>s1 s2. open_vm good_world (default_firecracker sample_env) True (mk_path ''/boot/vmlinux'')
       (mk_room ''ubuntu'' ''u'') some_room no_vms = (Inr some_room, s1)
     \<and> destroy_vm good_world False (Some 7) (inst_id some_room) s1 = (Inr 7, s2) \<and> dirs s2 = {} \<and> running s2 = {}"
proof -
  obtain s1 where o: "open_vm good_world (default_firecracker sample_env) True (mk_path ''/boot/vmlinux'')
       (mk_room ''ubuntu'' ''u'') some_room no_vms = (Inr some_room, s1)"
    by (rule good_open)
  have w: "stop_ends (stopping good_world)" "removable good_world" "inst_id some_room \<notin> dirs no_vms"
    "inst_id some_room \<notin> running no_vms"
    by (simp_all add: stop_ends_def good_world_def no_vms_def)
  obtain s2 where "destroy_vm good_world False (Some 7) (inst_id some_room) s1 = (Inr 7, s2)" "dirs s2 = {}" "running s2 = {}"
    using room_leaves_no_trace [OF w o w(1,2), where heard = "Some 7" and w'' = good_world and heard' = None]
    by (auto simp: no_vms_def)
  with o show ?thesis by blast
qed

end
