(* ===== verification/Jail.thy ===== *)
theory Jail
  imports Microvm_Safety
begin

section \<open>A spawned VMM and what it may reach (firecracker.py over confine.py)\<close>

text \<open>
  \<open>launch\<close> is the first half of \<open>_spawn\<close>, from the console file to the running child, over the
  state of the parent process in \<open>Confine\<close>. The child is a record of what the calls between fork
  and exec made of it. \<open>may\<close> is the documented meaning of a Landlock domain: a handled right needs
  a rule on a directory above the file, other rights are not restricted. A path stands for the file
  it names; symbolic links are outside the model.
\<close>

subsection \<open>The child\<close>

record child =
  c_argv :: "string list"
  c_fsize :: "int option"
  c_nofile :: "int option"
  c_no_new_privs :: bool
  c_domain :: "(access \<times> (path \<times> access) list) option"
  c_ruleset :: "int option"

definition forked :: "string list \<Rightarrow> int option \<Rightarrow> child" where
  "forked argv rs = \<lparr>c_argv = argv, c_fsize = None, c_nofile = None, c_no_new_privs = False,
     c_domain = None, c_ruleset = rs\<rparr>"

text \<open>\<open>dom\<close>: the rights that the ruleset handles, and its rules.\<close>

fun child_does :: "access \<times> (path \<times> access) list \<Rightarrow> child_call \<Rightarrow> child \<Rightarrow> child" where
  "child_does dm (Set_Fsize soft hard) c = c\<lparr>c_fsize := Some soft\<rparr>"
| "child_does dm (Set_Nofile soft hard) c = c\<lparr>c_nofile := Some soft\<rparr>"
| "child_does dm No_New_Privs c = c\<lparr>c_no_new_privs := True\<rparr>"
| "child_does dm (Restrict_Self fd) c = c\<lparr>c_domain := Some dm\<rparr>"
| "child_does dm (Close_Ruleset fd) c = c\<lparr>c_ruleset := None\<rparr>"

record launch_answers =
  la_console :: "int res"
  la_fork :: "py_exc option"
  la_child :: "child_call \<Rightarrow> py_exc option"
  la_exec :: "py_exc option"

text \<open>
  \<open>create_subprocess_exec\<close>: an exception of \<open>preexec_fn\<close> reaches the parent as a
  \<open>SubprocessError\<close>, a failed fork or exec as the error it has.
\<close>

definition create_subprocess ::
  "launch_answers \<Rightarrow> access \<Rightarrow> string list \<Rightarrow> int option \<Rightarrow> int \<Rightarrow> (process, child) io" where
  "create_subprocess a handled argv rs fsize = then_io (check_io (la_fork a)) (\<lambda>p.
     (case child_setup (la_child a) rs fsize NOFILE of
        (calls, Inl e) \<Rightarrow> (Inl SubprocessError, p)
      | (calls, Inr u) \<Rightarrow> (case la_exec a of Some e \<Rightarrow> (Inl e, p)
          | None \<Rightarrow> (Inr (fold (child_does (handled, rules p)) calls (forked argv rs)), p))))"

definition handled_rights :: "kernel \<Rightarrow> access" where
  "handled_rights k = handled_by_abi (min (abi_version k) NEWEST_ABI)"

definition launch ::
  "kernel \<Rightarrow> launch_answers \<Rightarrow> string \<Rightarrow> firecracker_config \<Rightarrow> vm_instance \<Rightarrow> int \<Rightarrow> (process, child) io" where
  "launch k a binary fc v fsize = (case la_console a of
     Inl e \<Rightarrow> raise_io e
   | Inr console \<Rightarrow> then_io (open_fd console)
      (bind_io (then_io (modify_io (\<lambda>p. p\<lparr>rules := []\<rparr>)) (ruleset_for k binary fc v)) (\<lambda>rs.
        finally_io (create_subprocess a (handled_rights k) (firecracker_argv binary (api_sock v)) rs fsize)
          (then_io (close_fd console) (case rs of None \<Rightarrow> ret_io () | Some fd \<Rightarrow> close_fd fd)))))"

text \<open>The ceiling for a resumed VMM: the size of its memory file in whole MiB.\<close>

definition resumed_fsize :: "int option \<Rightarrow> int option \<Rightarrow> int" where
  "resumed_fsize rootfs_size mem_size =
     fsize_for rootfs_size ((case mem_size of None \<Rightarrow> 0 | Some b \<Rightarrow> b) div (1024 * 1024))"

subsection \<open>What it may do\<close>

text \<open>Whether the child may use right \<open>n\<close>, numbered as in the source, on the file \<open>q\<close>.\<close>

definition may :: "child \<Rightarrow> nat \<Rightarrow> path \<Rightarrow> bool" where
  "may c n q = (case c_domain c of None \<Rightarrow> True
     | Some dm \<Rightarrow> \<not> bit (fst dm) n \<or> (\<exists>r\<in>set (snd dm). beneath (fst r) q \<and> bit (snd r) n))"

definition restricted :: "kernel \<Rightarrow> nat \<Rightarrow> bool" where
  "restricted k n \<longleftrightarrow> int n < 12 + min (abi_version k) 3"

lemma abi_nonneg: "0 \<le> abi_version k"
  by (simp add: abi_version_def)

text \<open>A right of 64 bits is known once each of them is looked at.\<close>

lemma bits_are:
  assumes "\<forall>n\<in>set [0..<64]. bit (a :: access) n \<longleftrightarrow> n \<in> set ns" "\<forall>n\<in>set ns. n < 64"
  shows "bit a n \<longleftrightarrow> n \<in> set ns"
  using assms bit_imp_le_length [of a n] by (cases "n < 64") auto

lemma handled_by_abi_bits:
  "bit (handled_by_abi 1) n \<longleftrightarrow> n < 13" "bit (handled_by_abi 2) n \<longleftrightarrow> n < 14"
  "bit (handled_by_abi 3) n \<longleftrightarrow> n < 15"
proof -
  have "\<forall>n\<in>set [0..<64]. bit (handled_by_abi 1) n \<longleftrightarrow> n \<in> set [0..<13]"
    "\<forall>n\<in>set [0..<64]. bit (handled_by_abi 2) n \<longleftrightarrow> n \<in> set [0..<14]"
    "\<forall>n\<in>set [0..<64]. bit (handled_by_abi 3) n \<longleftrightarrow> n \<in> set [0..<15]"
    by code_simp+
  from this [THEN bits_are] show
    "bit (handled_by_abi 1) n \<longleftrightarrow> n < 13" "bit (handled_by_abi 2) n \<longleftrightarrow> n < 14" "bit (handled_by_abi 3) n \<longleftrightarrow> n < 15"
    by simp_all
qed

lemma handled_bits:
  assumes "abi_version k \<noteq> 0"
  shows "bit (handled_rights k) n \<longleftrightarrow> restricted k n"
proof -
  consider "abi_version k = 1" | "abi_version k = 2" | "3 \<le> abi_version k"
    using assms abi_nonneg [of k] by linarith
  then show ?thesis
    by cases (auto simp: handled_rights_def NEWEST_ABI_def restricted_def handled_by_abi_bits min_def)
qed

lemma child_rights:
  "bit A_EXECUTE n \<longleftrightarrow> n \<in> set [0, 2]" "bit A_READ n \<longleftrightarrow> n \<in> set [2, 3]"
  "bit A_WRITE n \<longleftrightarrow> n \<in> set [1, 2, 3, 4, 5, 7, 8, 9, 10, 12, 14]"
  "bit FILE_ACCESS n \<longleftrightarrow> n \<in> set [0, 1, 2, 14]"
  by (rule bits_are; code_simp)+

lemma narrowed_bit:
  "bit (narrowed k p a) n \<longleftrightarrow> bit a n \<and> (is_directory k p \<or> n \<in> set [0, 1, 2, 14])"
  by (simp only: narrowed_def bit_and_iff child_rights split: if_split) blast

subsection \<open>How a launch ends\<close>

definition vmm_plan :: "string \<Rightarrow> path \<Rightarrow> vm_instance \<Rightarrow> plan" where
  "vmm_plan binary g v = plan_for (mk_path binary) g (inst_dir v) []"

definition confined :: "kernel \<Rightarrow> firecracker_config \<Rightarrow> bool" where
  "confined k fc \<longleftrightarrow> fc_confinement fc \<noteq> ''off'' \<and> abi_version k \<noteq> 0"

lemma ruleset_for_cases:
  assumes "ruleset_for k binary fc v p = (r, t)" "rules p = []"
  obtains (unconfined) "r = Inr None" "t = p" "\<not> confined k fc"
    | (built) g where "fc_kernel fc = Some g" "confined k fc" "r = Inr (Some (create_answer k))"
        "t = p\<lparr>fds := create_answer k # fds p,
               rules := rule_set k (handled_rights k) (plan_rules (vmm_plan binary g v))\<rparr>"
    | (failed) e where "r = Inl e" "fds t = fds p" "e = ConfinementError \<or> fc_kernel fc = None"
proof (cases "fc_confinement fc = ''off''")
  case True
  then show ?thesis using assms unconfined by (simp add: ruleset_for_def io_simps confined_def)
next
  case False
  show ?thesis
  proof (cases "fc_kernel fc")
    case None
    then have "r = Inl RuntimeError" "t = p" using assms False by (auto simp: ruleset_for_def io_simps)
    then show ?thesis using failed None by simp
  next
    case (Some g)
    then have "build_ruleset k (vmm_plan binary g v) p = (r, t)"
      using assms False by (simp add: ruleset_for_def vmm_plan_def)
    then show ?thesis
      using build_ruleset_run [of k "vmm_plan binary g v" p] assms(2) False Some unconfined failed built
      by (auto simp: confined_def handled_rights_def)
  qed
qed

lemma create_subprocess_ok:
  assumes "create_subprocess a h argv rs fsize p = (Inr m, t)"
  shows "t = p" and "m = \<lparr>c_argv = argv, c_fsize = Some fsize, c_nofile = Some NOFILE, c_no_new_privs = (rs \<noteq> None),
      c_domain = (if rs = None then None else Some (h, rules p)), c_ruleset = None\<rparr>"
proof -
  obtain calls q where cq: "child_setup (la_child a) rs fsize NOFILE = (calls, q)" by fastforce
  have f: "la_fork a = None" using assms by (cases "la_fork a") (auto simp: create_subprocess_def check_io_def io_simps)
  obtain u where u: "q = Inr u" using assms f
    by (cases q) (auto simp: create_subprocess_def check_io_def io_simps cq)
  have "la_exec a = None" using assms f
    by (cases "la_exec a") (auto simp: create_subprocess_def check_io_def io_simps cq u)
  then have m: "m = fold (child_does (h, rules p)) calls (forked argv rs)" and "t = p"
    using assms f by (auto simp: create_subprocess_def check_io_def io_simps cq u)
  have c: "child_setup (la_child a) rs fsize NOFILE = (calls, Inr u)" by (simp add: cq u)
  show "t = p" by fact
  let ?cs = "[Set_Fsize fsize fsize, Set_Nofile NOFILE NOFILE]
      @ (case rs of None \<Rightarrow> [] | Some fd \<Rightarrow> [No_New_Privs, Restrict_Self fd, Close_Ruleset fd])"
  have "child_calls (la_child a) ?cs = (calls, Inr u)" using c by (simp only: child_setup_def)
  then have "calls = ?cs" using child_calls_ok [of "la_child a" ?cs u] child_calls_all [of ?cs "la_child a"] by simp
  then show "m = \<lparr>c_argv = argv, c_fsize = Some fsize, c_nofile = Some NOFILE, c_no_new_privs = (rs \<noteq> None),
      c_domain = (if rs = None then None else Some (h, rules p)), c_ruleset = None\<rparr>"
    unfolding m by (cases rs) (simp_all add: forked_def)
qed

lemma create_subprocess_keeps: "snd (create_subprocess a h argv rs fsize p) = p"
  by (cases "la_fork a"; cases "child_setup (la_child a) rs fsize NOFILE"; cases "la_exec a"; cases "snd (child_setup (la_child a) rs fsize NOFILE)")
    (auto simp: create_subprocess_def check_io_def io_simps)

lemma close_both:
  assumes "fds w = (case rs of None \<Rightarrow> [] | Some fd \<Rightarrow> [fd]) @ con # F"
  obtains x where "then_io (close_fd con) (case rs of None \<Rightarrow> ret_io () | Some fd \<Rightarrow> close_fd fd) w = (Inr (), x)" "fds x = F"
  using assms by (cases rs) (auto simp: close_fd_def io_simps)

text \<open>The three ways of \<open>launch\<close>: no console, no ruleset, or a child that was tried.\<close>

lemma launch_cases:
  assumes "launch k a binary fc v fsize p = (r, t)"
  obtains (no_console) e where "la_console a = Inl e" "r = Inl e" "t = p"
    | (no_ruleset) con e where "la_console a = Inr con" "r = Inl e" "fds t = con # fds p"
        "e = ConfinementError \<or> fc_kernel fc = None"
    | (tried) rs rl u where "r = fst (create_subprocess a (handled_rights k) (firecracker_argv binary (api_sock v)) rs fsize u)"
        "fds t = fds p" "rules u = rl" "(rs = None) = (\<not> confined k fc)"
        "confined k fc \<longrightarrow> (\<exists>g. fc_kernel fc = Some g
           \<and> rl = rule_set k (handled_rights k) (plan_rules (vmm_plan binary g v)))"
proof (cases "la_console a")
  case (Inl e)
  then show ?thesis using assms no_console by (simp add: launch_def io_simps)
next
  case (Inr con)
  let ?p = "p\<lparr>fds := con # fds p, rules := []\<rparr>"
  obtain q u where q: "ruleset_for k binary fc v ?p = (q, u)" by fastforce
  have run: "launch k a binary fc v fsize p = (case q of Inl e \<Rightarrow> (Inl e, u) | Inr rs \<Rightarrow>
      finally_io (create_subprocess a (handled_rights k) (firecracker_argv binary (api_sock v)) rs fsize)
        (then_io (close_fd con) (case rs of None \<Rightarrow> ret_io () | Some fd \<Rightarrow> close_fd fd)) u)"
    by (simp add: launch_def Inr io_simps open_fd_def q split: sum.split)
  have child: ?thesis if i: "q = Inr rs" and o: "fds u = (case rs of None \<Rightarrow> [] | Some fd \<Rightarrow> [fd]) @ con # fds p"
      and n: "(rs = None) = (\<not> confined k fc)" and g: "confined k fc \<longrightarrow> (\<exists>g. fc_kernel fc = Some g
        \<and> rules u = rule_set k (handled_rights k) (plan_rules (vmm_plan binary g v)))" for rs
  proof -
    let ?c = "create_subprocess a (handled_rights k) (firecracker_argv binary (api_sock v)) rs fsize"
    obtain x where x: "then_io (close_fd con) (case rs of None \<Rightarrow> ret_io () | Some fd \<Rightarrow> close_fd fd) u = (Inr (), x)" "fds x = fds p"
      using close_both [OF o] .
    have "snd (?c u) = u" by (rule create_subprocess_keeps)
    then have "finally_io ?c (then_io (close_fd con) (case rs of None \<Rightarrow> ret_io () | Some fd \<Rightarrow> close_fd fd)) u = (fst (?c u), x)"
      by (simp add: finally_io_def x split_beta)
    then have "r = fst (?c u)" "fds t = fds p" using assms run i x(2) by simp_all
    then show ?thesis using tried [OF _ _ refl n g] by blast
  qed
  have "rules ?p = []" by simp
  with q show ?thesis
  proof (cases rule: ruleset_for_cases)
    case unconfined
    show ?thesis by (rule child [of None]) (simp_all add: unconfined)
  next
    case (built g)
    then show ?thesis using child [of "Some (create_answer k)"] by simp
  next
    case (failed e)
    then show ?thesis using assms run Inr no_ruleset by auto
  qed
qed

subsection \<open>The reach of a VMM\<close>

lemma launched:
  assumes "launch k a binary fc v fsize p = (Inr m, t)"
  shows "fds t = fds p" "c_argv m = firecracker_argv binary (api_sock v)" "c_fsize m = Some fsize"
    "c_nofile m = Some NOFILE" "c_ruleset m = None" "c_no_new_privs m = confined k fc"
    "\<not> confined k fc \<Longrightarrow> c_domain m = None"
    "confined k fc \<Longrightarrow> \<exists>g. fc_kernel fc = Some g \<and> c_domain m =
       Some (handled_rights k, rule_set k (handled_rights k) (plan_rules (vmm_plan binary g v)))"
proof -
  let ?c = "create_subprocess a (handled_rights k) (firecracker_argv binary (api_sock v))"
  obtain rs u where c: "?c rs fsize u = (Inr m, snd (?c rs fsize u))" and t: "fds t = fds p" "(rs = None) = (\<not> confined k fc)"
    and g: "confined k fc \<longrightarrow> (\<exists>g. fc_kernel fc = Some g
      \<and> rules u = rule_set k (handled_rights k) (plan_rules (vmm_plan binary g v)))"
    using assms
  proof (cases rule: launch_cases)
    case (tried rs rl u)
    show ?thesis by (rule that [of rs u]) (use tried in \<open>auto simp: prod_eq_iff\<close>)
  qed simp_all
  note m = create_subprocess_ok(2) [OF c]
  show "fds t = fds p" "c_argv m = firecracker_argv binary (api_sock v)" "c_fsize m = Some fsize"
    "c_nofile m = Some NOFILE" "c_ruleset m = None" "c_no_new_privs m = confined k fc"
    "\<not> confined k fc \<Longrightarrow> c_domain m = None"
    using t by (simp_all add: m)
  show "confined k fc \<Longrightarrow> \<exists>g. fc_kernel fc = Some g \<and> c_domain m =
       Some (handled_rights k, rule_set k (handled_rights k) (plan_rules (vmm_plan binary g v)))"
    using t g by (auto simp: m)
qed

lemma plan_bits:
  "(\<exists>r\<in>set (plan_rules (vmm_plan binary g v)). beneath (fst r) q \<and> bit (snd r) n \<and> d (fst r)) \<longleftrightarrow>
     (n \<in> set [0, 2] \<and> beneath (mk_path binary) q \<and> d (mk_path binary)) \<or> (n \<in> set [2, 3] \<and> beneath g q \<and> d g)
   \<or> (n \<in> set [1, 2, 3, 4, 5, 7, 8, 9, 10, 12, 14]
      \<and> (beneath (inst_dir v) q \<and> d (inst_dir v) \<or> beneath KVM q \<and> d KVM))"
  by (auto simp: plan_rules_def vmm_plan_def plan_for_def child_rights)


text \<open>Everything a confined VMM may do, from the rules of its plan.\<close>

lemma reach:
  assumes "launch k a binary fc v fsize p = (Inr m, t)" "confined k fc" "fc_kernel fc = Some g"
  shows "may m n q \<longleftrightarrow> \<not> restricted k n \<or> (\<exists>r\<in>set (plan_rules (vmm_plan binary g v)).
     beneath (fst r) q \<and> bit (snd r) n \<and> (is_directory k (fst r) \<or> n \<in> set [0, 1, 2, 14]))"
proof -
  have "c_domain m = Some (handled_rights k, rule_set k (handled_rights k) (plan_rules (vmm_plan binary g v)))"
    using launched(8) [OF assms(1,2)] assms(3) by auto
  then show ?thesis using assms(2)
    by (auto simp: may_def handled_bits confined_def rule_set_def narrowed_bit bit_and_iff)
qed


definition jail_kernel :: kernel where
  "jail_kernel = \<lparr>version_answer = 2, create_answer = 9, path_fd = (\<lambda>_. Some 10),
     is_directory = (\<lambda>p. parts p \<noteq> [] \<and> hd (parts p) = ''tmp''), accepts = (\<lambda>_ _. True)\<rparr>"

definition calm_launch :: launch_answers where
  "calm_launch = \<lparr>la_console = Inr 7, la_fork = None, la_child = (\<lambda>_. None), la_exec = None\<rparr>"

definition jail_config :: firecracker_config where
  "jail_config = (default_firecracker sample_env)\<lparr>fc_kernel := Some (mk_path ''/boot/vmlinux''), fc_confinement := ''required''\<rparr>"

definition jail_vm :: vm_instance where
  "jail_vm = instance_for (mk_path ''/tmp/keycard'') ''ubuntu'' ''aaaaaaaaaaaa''"



lemma ruleset_refused:
  assumes "confined k fc" "fc_kernel fc = Some g" "path_fd k (mk_path binary) = None" "rules p = []"
  shows "\<exists>t. ruleset_for k binary fc v p = (Inl ConfinementError, t) \<and> fds t = fds p"
proof -
  have "build_ruleset k (vmm_plan binary g v) p = (Inl ConfinementError, p)"
    using assms by (auto simp: build_ruleset_def confined_def vmm_plan_def plan_for_def plan_rules_def io_simps add_rule_run
        open_fd_def close_fd_def Let_def)
  then show ?thesis using assms by (auto simp: ruleset_for_def vmm_plan_def confined_def)
qed

text \<open>
  Property C34. A launch is all or nothing: it gives a child that is confined whenever it has to be,
  or an error. The parent has the descriptors it had, except when the ruleset cannot be built: then
  the console it had opened is left open.
\<close>

theorem launch_all_or_nothing:
  "(case launch k a binary fc v fsize p of
      (Inr m, t) \<Rightarrow> fds t = fds p \<and> (c_domain m \<noteq> None) = confined k fc \<and> c_no_new_privs m = confined k fc
    | (Inl e, t) \<Rightarrow> fds t = fds p
        \<or> (\<exists>con. la_console a = Inr con \<and> fds t = con # fds p \<and> (e = ConfinementError \<or> fc_kernel fc = None)))
   \<and> (confined k fc \<and> fc_kernel fc \<noteq> None \<and> la_console a = Inr con \<and> path_fd k (mk_path binary) = None \<longrightarrow>
        (\<exists>t. launch k a binary fc v fsize p = (Inl ConfinementError, t) \<and> fds t = con # fds p))"
proof (rule conjI)
  obtain r t where l: "launch k a binary fc v fsize p = (r, t)" by fastforce
  show "case launch k a binary fc v fsize p of
      (Inr m, t) \<Rightarrow> fds t = fds p \<and> (c_domain m \<noteq> None) = confined k fc \<and> c_no_new_privs m = confined k fc
    | (Inl e, t) \<Rightarrow> fds t = fds p
        \<or> (\<exists>con. la_console a = Inr con \<and> fds t = con # fds p \<and> (e = ConfinementError \<or> fc_kernel fc = None))"
  proof (cases r)
    case (Inl e)
    from l have "fds t = fds p
        \<or> (\<exists>con. la_console a = Inr con \<and> fds t = con # fds p \<and> (e = ConfinementError \<or> fc_kernel fc = None))"
      by (cases rule: launch_cases) (simp_all add: Inl)
    then show ?thesis by (simp add: l Inl)
  next
    case (Inr m)
    then show ?thesis using l launched [of k a binary fc v fsize p m t] by auto
  qed
  show "confined k fc \<and> fc_kernel fc \<noteq> None \<and> la_console a = Inr con \<and> path_fd k (mk_path binary) = None \<longrightarrow>
      (\<exists>t. launch k a binary fc v fsize p = (Inl ConfinementError, t) \<and> fds t = con # fds p)"
  proof
    let ?p = "p\<lparr>fds := con # fds p, rules := []\<rparr>"
    assume c: "confined k fc \<and> fc_kernel fc \<noteq> None \<and> la_console a = Inr con \<and> path_fd k (mk_path binary) = None"
    then obtain u where "ruleset_for k binary fc v ?p = (Inl ConfinementError, u)" "fds u = con # fds p"
      using ruleset_refused [of k fc _ binary ?p v] by auto
    then show "\<exists>t. launch k a binary fc v fsize p = (Inl ConfinementError, t) \<and> fds t = con # fds p"
      using c by (simp add: launch_def io_simps open_fd_def)
  qed
qed

theorem launch_all_or_nothing_witness:
  "\<exists>t. launch (jail_kernel\<lparr>path_fd := (\<lambda>_. None)\<rparr>) calm_launch ''/usr/bin/firecracker'' jail_config jail_vm 5
     \<lparr>fds = [3], rules = []\<rparr> = (Inl ConfinementError, t) \<and> fds t = [7, 3]"
proof -
  let ?k = "jail_kernel\<lparr>path_fd := (\<lambda>_. None)\<rparr>"
  have "confined ?k jail_config" "fc_kernel jail_config \<noteq> None" "la_console calm_launch = Inr 7"
    "path_fd ?k (mk_path ''/usr/bin/firecracker'') = None" by code_simp+
  then show ?thesis
    using launch_all_or_nothing [where k = ?k and a = calm_launch and con = 7 and p = "\<lparr>fds = [3], rules = []\<rparr>"
        and binary = "''/usr/bin/firecracker''" and fc = jail_config]
    by simp
qed

subsection \<open>Every running microVM was launched so\<close>

text \<open>The world of \<open>_spawn\<close> in which the ruleset and the child are those of \<open>launch\<close>.\<close>

definition launch_world :: "child res \<Rightarrow> world \<Rightarrow> world" where
  "launch_world l w = w\<lparr>on_ruleset := (case l of Inl e \<Rightarrow> Inl e | Inr m \<Rightarrow> Inr None), on_exec := None\<rparr>"

lemma leaves_keeps: "leaves m \<Longrightarrow> keeps (\<lambda>s. i \<notin> running s) m"
  by (auto simp: leaves_def keeps_def)

lemma keeps_stopped [keeps_intros]:
  "keeps (\<lambda>s. i \<notin> running s) (modify_io (set_dir j))" "keeps (\<lambda>s. i \<notin> running s) (remove_dir x j)"
  "keeps (\<lambda>s. i \<notin> running s) (stop_vm sa j)"
  by (auto simp: stop_vm_def remove_dir_def set_dir_def drop_dir_def drop_running_def intro!: keeps_intros keeps_modify
      split: sum.split)

lemma starts_only_launched:
  assumes "open_vm (launch_world l w) fc ie img room v s = (r, t) \<or> resume_vm (launch_world l w) fc v s = (r, t)"
    and "inst_id v \<notin> running s" "inst_id v \<in> running t"
  shows "\<exists>m. l = Inr m"
proof (rule ccontr)
  assume "\<nexists>m. l = Inr m"
  then obtain e where l: "l = Inl e" by (cases l) auto
  have "spawn (launch_world l w) i = raise_io e" for i by (simp add: spawn_def launch_world_def l)
  then have "keeps (\<lambda>s. inst_id v \<notin> running s) (open_vm (launch_world l w) fc ie img room v)"
    "keeps (\<lambda>s. inst_id v \<notin> running s) (resume_vm (launch_world l w) fc v)"
    by (auto simp: open_vm_defs resume_vm_def cleanup_def Let_def intro!: keeps_intros
        intro: leaves_keeps leaves_boot leaves_basic leaves_calls leaves_attach)
  then show False using assms by (auto dest: keepsD)
qed



definition jail_launch :: "child res \<times> process" where
  "jail_launch = launch jail_kernel calm_launch ''/usr/bin/firecracker'' jail_config jail_vm 5 \<lparr>fds = [3], rules = []\<rparr>"


text \<open>
  The ceiling on file sizes never stops what the VMM has to write: the root file
  system and the memory of the guest fit under it, and a resumed VMM gets the ceiling that the
  memory file of its snapshot had, so it can be paused again.
\<close>

theorem ceiling_fits:
  "n \<le> fsize_for (Some n) mem \<and> mem * 1024 * 1024 \<le> fsize_for rootfs mem
   \<and> n \<le> resumed_fsize (Some n) saved \<and> b \<le> resumed_fsize rootfs (Some b)
   \<and> resumed_fsize rootfs (Some (mem * 1024 * 1024)) = fsize_for rootfs mem"
  by (auto simp: resumed_fsize_def fsize_for_def fsize_limit_def FSIZE_HEADROOM_def max_def split: option.split)

end
