(* ===== verification/Exit_Watch.thy ===== *)
theory Exit_Watch
  imports Microvm_Run Guest_Wire Machine
begin

section \<open>The exit watcher and destroy (src/keycard/backends/firecracker.py, FirecrackerRoom)\<close>

text \<open>
  A microVM's room has a task of its own, \<open>_watch_exit\<close>, that collects the shell's status while
  calls of \<open>destroy\<close> wait for it. Here they run as the event loop runs them, one stretch between
  two awaits at a time, over the host state of \<open>Microvm_Run\<close>. \<open>call\<close> is where each caller of
  \<open>destroy\<close> stands. \<open>claimed\<close> is \<open>_destroyed\<close>, with the caller that set it; \<open>seen\<close> is what the
  control channel has delivered so far. The lock around the flag is never held over an await.
\<close>

datatype watch_pc = Watching string | Watch_Over

datatype destroy_pc = Not_Called | Hearing | Stopping | Removing | Gave "int res"

record exit_room =
  vm_host :: vm_state
  watcher :: watch_pc
  watch_cancelled :: bool
  heard_status :: "int option"
  claimed :: "nat option"
  call :: "nat \<Rightarrow> destroy_pc"
  seen :: "string list"

definition fresh_vm_room :: "vm_state \<Rightarrow> exit_room" where
  "fresh_vm_room h = \<lparr>vm_host = h, watcher = Watching [], watch_cancelled = False, heard_status = None,
     claimed = None, call = (\<lambda>_. Not_Called), seen = []\<rparr>"

definition set_call :: "nat \<Rightarrow> destroy_pc \<Rightarrow> exit_room \<Rightarrow> exit_room" where
  "set_call k p s = s\<lparr>call := (call s)(k := p)\<rparr>"

subsection \<open>_watch_exit\<close>

definition watch_chunk :: "string \<Rightarrow> exit_room \<Rightarrow> exit_room option" where
  "watch_chunk chunk s = (case watcher s of Watch_Over \<Rightarrow> None
     | Watching buf \<Rightarrow> if watch_cancelled s then None else
         (let t = s\<lparr>seen := seen s @ [chunk]\<rparr> in
          Some (if chunk = [] then t\<lparr>watcher := Watch_Over\<rparr>
            else (case scan (buf @ chunk) of
                (Some st, rest) \<Rightarrow> t\<lparr>watcher := Watch_Over, heard_status := Some st\<rparr>
              | (None, rest) \<Rightarrow> t\<lparr>watcher := Watching rest\<rparr>))))"

text \<open>An \<open>OSError\<close> of the socket or a cancellation ends the watcher quietly.\<close>

definition watch_dropped :: "exit_room \<Rightarrow> exit_room option" where
  "watch_dropped s = (if watcher s = Watch_Over then None else Some (s\<lparr>watcher := Watch_Over\<rparr>))"

subsection \<open>destroy\<close>

definition destroy_called :: "nat \<Rightarrow> exit_room \<Rightarrow> exit_room option" where
  "destroy_called k s = (if call s k \<noteq> Not_Called then None
     else Some (if claimed s \<noteq> None then set_call k (Gave (Inr 0)) s
       else set_call k Hearing (s\<lparr>claimed := Some k\<rparr>)))"

text \<open>
  How the wait of \<open>EXIT_GRACE\<close> for the watcher ends: the watcher is over, the time is, or the
  caller was cancelled. The shield keeps the last two from the watcher, and all three go on with
  \<open>_close_attachment\<close>, which cancels it.
\<close>

datatype grace_end = Watcher_Ended | Grace_Over | Caller_Cancelled

definition close_attachment :: "exit_room \<Rightarrow> exit_room" where
  "close_attachment s = s\<lparr>watch_cancelled := (watcher s \<noteq> Watch_Over), vm_host := snd (modify_io (add_socks (- 2)) (vm_host s))\<rparr>"

definition destroy_heard :: "nat \<Rightarrow> grace_end \<Rightarrow> exit_room \<Rightarrow> exit_room option" where
  "destroy_heard k how s =
     (if call s k = Hearing \<and> (how = Watcher_Ended \<longrightarrow> watcher s = Watch_Over)
      then Some (set_call k Stopping (close_attachment s)) else None)"

definition destroy_stopped :: "world \<Rightarrow> string \<Rightarrow> nat \<Rightarrow> exit_room \<Rightarrow> exit_room option" where
  "destroy_stopped w i k s = (if call s k \<noteq> Stopping then None
     else (case stop_vm (stopping w) i (vm_host s) of
         (Inl e, h) \<Rightarrow> Some (set_call k (Gave (Inl e)) (s\<lparr>vm_host := h\<rparr>))
       | (Inr u, h) \<Rightarrow> Some (set_call k Removing (s\<lparr>vm_host := h\<rparr>))))"

text \<open>
  The removal runs in a thread. A caller cancelled meanwhile does not wait for it; \<open>gone\<close> says
  whether it removes the directory.
\<close>

definition destroy_removed :: "string \<Rightarrow> nat \<Rightarrow> bool \<Rightarrow> bool \<Rightarrow> exit_room \<Rightarrow> exit_room option" where
  "destroy_removed i k gone quit s = (if call s k \<noteq> Removing then None
     else Some (set_call k (Gave (if quit then Inl CancelledError
          else Inr (case heard_status s of None \<Rightarrow> 0 | Some st \<Rightarrow> st)))
        (s\<lparr>vm_host := snd (remove_dir gone i (vm_host s))\<rparr>)))"

subsection \<open>Interleaving\<close>

datatype room_event = Chunk string | Dropped | Call nat | Heard nat grace_end | Stopped_Vm nat
  | Removed nat bool bool

fun room_does :: "world \<Rightarrow> string \<Rightarrow> room_event \<Rightarrow> exit_room \<Rightarrow> exit_room option" where
  "room_does w i (Chunk c) s = watch_chunk c s"
| "room_does w i Dropped s = watch_dropped s"
| "room_does w i (Call k) s = destroy_called k s"
| "room_does w i (Heard k how) s = destroy_heard k how s"
| "room_does w i (Stopped_Vm k) s = destroy_stopped w i k s"
| "room_does w i (Removed k gone quit) s = destroy_removed i k gone quit s"

inductive room_step :: "world \<Rightarrow> string \<Rightarrow> exit_room \<Rightarrow> exit_room \<Rightarrow> bool" for w :: world and i :: string where
  does: "room_does w i ev s = Some t \<Longrightarrow> room_step w i s t"

fun room_run :: "world \<Rightarrow> string \<Rightarrow> room_event list \<Rightarrow> exit_room \<Rightarrow> exit_room option" where
  "room_run w i [] s = Some s"
| "room_run w i (ev # evs) s = (case room_does w i ev s of None \<Rightarrow> None | Some t \<Rightarrow> room_run w i evs t)"

lemma room_run_reachable:
  "room_run w i evs s = Some t \<Longrightarrow> reachable I (room_step w i) s \<Longrightarrow> reachable I (room_step w i) t"
proof (induction evs arbitrary: s)
  case (Cons ev evs)
  then obtain u where "room_does w i ev s = Some u" "room_run w i evs u = Some t" by (auto split: option.splits)
  then show ?case using Cons reachable.after room_step.does by metis
qed simp

subsection \<open>What the watcher has heard\<close>

text \<open>The watcher, wherever it stands, has read what \<open>seen\<close> says, and once cut off reads no more.\<close>

definition heard_ok :: "exit_room \<Rightarrow> bool" where
  "heard_ok s \<longleftrightarrow> (case watcher s of
     Watching buf \<Rightarrow> heard_status s = None \<and> (\<forall>more. watch_exit [] (seen s @ more) = watch_exit buf more)
   | Watch_Over \<Rightarrow> watch_exit [] (seen s) = heard_status s)"

lemma watch_exit_snoc_empty: "watch_exit buf (cs @ [[]]) = watch_exit buf cs"
  by (induction cs arbitrary: buf) (auto split: prod.split option.split)

lemma watch_chunk_heard: "heard_ok s \<Longrightarrow> watch_chunk c s = Some t \<Longrightarrow> heard_ok t"
proof -
  assume s: "heard_ok s" and t: "watch_chunk c s = Some t"
  obtain buf where buf: "watcher s = Watching buf" "\<not> watch_cancelled s"
    using t by (auto simp: watch_chunk_def split: watch_pc.splits if_splits)
  have more: "watch_exit [] (seen s @ c # m) = watch_exit buf (c # m)" for m
    using s buf by (simp add: heard_ok_def)
  show ?thesis
  proof (cases "c = []")
    case True
    then show ?thesis using t buf more [of "[]"] s by (auto simp: watch_chunk_def heard_ok_def Let_def)
  next
    case False
    then show ?thesis using t buf more s
      by (auto simp: watch_chunk_def heard_ok_def Let_def split: prod.splits option.splits)
  qed
qed

lemma heard_frame [simp]:
  "watcher (set_call k p s) = watcher s" "heard_status (set_call k p s) = heard_status s"
  "seen (set_call k p s) = seen s" "vm_host (set_call k p s) = vm_host s"
  "claimed (set_call k p s) = claimed s" "watch_cancelled (set_call k p s) = watch_cancelled s"
  "call (set_call k p s) = (call s)(k := p)"
  "watcher (close_attachment s) = watcher s" "heard_status (close_attachment s) = heard_status s"
  "seen (close_attachment s) = seen s" "claimed (close_attachment s) = claimed s"
  "call (close_attachment s) = call s" "watch_cancelled (close_attachment s) = (watcher s \<noteq> Watch_Over)"
  "vm_host (close_attachment s) = add_socks (- 2) (vm_host s)"
  by (simp_all add: set_call_def close_attachment_def modify_io_def)

lemmas destroy_defs = destroy_called_def destroy_heard_def destroy_stopped_def destroy_removed_def

lemma heard_if: "heard_ok s \<Longrightarrow> watcher t = watcher s \<Longrightarrow> heard_status t = heard_status s \<Longrightarrow> seen t = seen s \<Longrightarrow> heard_ok t"
  by (simp add: heard_ok_def split: watch_pc.splits)

lemma destroy_frame:
  "destroy_called k s = Some t \<Longrightarrow> watcher t = watcher s \<and> heard_status t = heard_status s \<and> seen t = seen s"
  "destroy_heard k how s = Some t \<Longrightarrow> watcher t = watcher s \<and> heard_status t = heard_status s \<and> seen t = seen s"
  "destroy_stopped w i k s = Some t \<Longrightarrow> watcher t = watcher s \<and> heard_status t = heard_status s \<and> seen t = seen s"
  "destroy_removed i k gone quit s = Some t \<Longrightarrow> watcher t = watcher s \<and> heard_status t = heard_status s \<and> seen t = seen s"
  by (auto simp: destroy_defs split: if_splits prod.splits sum.splits)

lemma dropped_heard: "heard_ok s \<Longrightarrow> watch_dropped s = Some t \<Longrightarrow> heard_ok t"
  by (auto simp: watch_dropped_def heard_ok_def split: if_splits watch_pc.splits dest: spec [of _ "[]"])

lemma does_heard: "heard_ok s \<Longrightarrow> room_does w i ev s = Some t \<Longrightarrow> heard_ok t"
  by (cases ev) (auto intro: watch_chunk_heard dropped_heard heard_if dest: destroy_frame)

interpretation heard: invariant "\<lambda>s. s = fresh_vm_room h" "room_step w i" heard_ok for h w i
proof
  show "heard_ok s" if "s = fresh_vm_room h" for s using that by (simp add: fresh_vm_room_def heard_ok_def)
  show "heard_ok t" if "room_step w i s t" "heard_ok s" for s t
    using that(1) does_heard [OF that(2)] by cases
qed

subsection \<open>Where destroy stands\<close>

text \<open>
  Only the caller that set the flag does any work, and the host is what \<open>destroy_vm\<close> has made of it
  so far. \<open>h\<close> is the host before the first call.
\<close>

definition cut_off :: "exit_room \<Rightarrow> bool" where
  "cut_off s \<longleftrightarrow> watcher s = Watch_Over \<or> watch_cancelled s"

definition works :: "destroy_pc \<Rightarrow> bool" where
  "works p \<longleftrightarrow> p \<noteq> Not_Called \<and> p \<noteq> Gave (Inr 0)"

definition done_ok :: "world \<Rightarrow> string \<Rightarrow> vm_state \<Rightarrow> int option \<Rightarrow> vm_state \<Rightarrow> int res \<Rightarrow> bool" where
  "done_ok w i h heard g r \<longleftrightarrow> (\<exists>gone r'. destroy_vm (w\<lparr>removable := gone\<rparr>) False heard i h = (r', g)
     \<and> (r = r' \<or> is_ok r' \<and> r = Inl CancelledError))"

definition destroy_ok :: "world \<Rightarrow> string \<Rightarrow> vm_state \<Rightarrow> exit_room \<Rightarrow> bool" where
  "destroy_ok w i h s \<longleftrightarrow> (case claimed s of
     None \<Rightarrow> vm_host s = h \<and> \<not> watch_cancelled s \<and> (\<forall>k. call s k = Not_Called)
   | Some k \<Rightarrow> (\<forall>j. j \<noteq> k \<longrightarrow> \<not> works (call s j)) \<and> (case call s k of
       Not_Called \<Rightarrow> False
     | Hearing \<Rightarrow> vm_host s = h
     | Stopping \<Rightarrow> cut_off s \<and> vm_host s = add_socks (- 2) h
     | Removing \<Rightarrow> cut_off s \<and> stop_vm (stopping w) i (add_socks (- 2) h) = (Inr (), vm_host s)
     | Gave r \<Rightarrow> cut_off s \<and> done_ok w i h (heard_status s) (vm_host s) r))"

lemma destroy_start: "destroy_ok w i h (fresh_vm_room h)"
  by (simp add: destroy_ok_def fresh_vm_room_def)

lemma watch_keeps:
  assumes "destroy_ok w i h s" "watch_chunk c s = Some t \<or> watch_dropped s = Some t"
  shows "destroy_ok w i h t"
proof -
  have "vm_host t = vm_host s" "claimed t = claimed s" "call t = call s" "watch_cancelled t = watch_cancelled s"
    "cut_off s \<longrightarrow> cut_off t \<and> heard_status t = heard_status s"
    using assms(2)
    by (auto simp: watch_chunk_def watch_dropped_def cut_off_def Let_def split: watch_pc.splits if_splits prod.splits option.splits)
  then show ?thesis using assms(1)
    by (auto simp: destroy_ok_def split: option.splits destroy_pc.splits)
qed

lemma worker: "destroy_ok w i h s \<Longrightarrow> works (call s j) \<Longrightarrow> claimed s = Some j"
  by (cases "claimed s") (simp_all add: destroy_ok_def works_def, metis)

lemma works_simps [simp]: "works Hearing" "works Stopping" "works Removing" "\<not> works Not_Called"
  "\<not> works (Gave (Inr 0))"
  by (simp_all add: works_def)

lemma called_keeps: "destroy_ok w i h s \<Longrightarrow> destroy_called k s = Some t \<Longrightarrow> destroy_ok w i h t"
  by (auto simp: destroy_called_def destroy_ok_def set_call_def cut_off_def
      split: option.splits if_splits destroy_pc.splits)

lemma heard_keeps: "destroy_ok w i h s \<Longrightarrow> destroy_heard k how s = Some t \<Longrightarrow> destroy_ok w i h t"
  using worker [of w i h s k]
  by (auto simp: destroy_heard_def destroy_ok_def cut_off_def split: if_splits)

lemma stopped_keeps:
  assumes "destroy_ok w i h s" "destroy_stopped w i k s = Some t"
  shows "destroy_ok w i h t"
proof -
  have k: "call s k = Stopping" using assms(2) by (simp add: destroy_stopped_def split: if_splits)
  then have c: "claimed s = Some k" using worker [OF assms(1)] by simp
  have s: "cut_off s" "vm_host s = add_socks (- 2) h" "\<forall>j. j \<noteq> k \<longrightarrow> \<not> works (call s j)"
    using assms(1) k c by (simp_all add: destroy_ok_def)
  obtain x g where g: "stop_vm (stopping w) i (add_socks (- 2) h) = (x, g)" by fastforce
  show ?thesis
  proof (cases x)
    case (Inl e)
    have "done_ok w i h (heard_status s) g (Inl e)"
      unfolding done_ok_def using g Inl by (intro exI [of _ True] exI [of _ "Inl e"]) (simp add: destroy_vm_def io_simps)
    then show ?thesis using assms(2) k c s g Inl
      by (auto simp: destroy_stopped_def destroy_ok_def cut_off_def)
  next
    case (Inr u)
    then show ?thesis using assms(2) k c s g by (auto simp: destroy_stopped_def destroy_ok_def cut_off_def)
  qed
qed

lemma removed_keeps:
  assumes "destroy_ok w i h s" "destroy_removed i k gone quit s = Some t"
  shows "destroy_ok w i h t"
proof -
  have k: "call s k = Removing" using assms(2) by (simp add: destroy_removed_def split: if_splits)
  then have c: "claimed s = Some k" using worker [OF assms(1)] by simp
  have s: "cut_off s" "stop_vm (stopping w) i (add_socks (- 2) h) = (Inr (), vm_host s)"
      "\<forall>j. j \<noteq> k \<longrightarrow> \<not> works (call s j)"
    using assms(1) k c by (simp_all add: destroy_ok_def)
  have "done_ok w i h (heard_status s) (snd (remove_dir gone i (vm_host s)))
      (if quit then Inl CancelledError else Inr (case heard_status s of None \<Rightarrow> 0 | Some st \<Rightarrow> st))"
    unfolding done_ok_def using s(2)
    by (intro exI [of _ gone] exI [of _ "Inr (case heard_status s of None \<Rightarrow> 0 | Some st \<Rightarrow> st)"])
      (simp add: destroy_vm_def io_simps remove_dir_def)
  then show ?thesis using assms(2) k c s by (auto simp: destroy_removed_def destroy_ok_def cut_off_def)
qed

lemma does_keeps: "destroy_ok w i h s \<Longrightarrow> room_does w i ev s = Some t \<Longrightarrow> destroy_ok w i h t"
  by (cases ev) (auto intro: watch_keeps called_keeps heard_keeps stopped_keeps removed_keeps)

interpretation destroying: invariant "\<lambda>s. s = fresh_vm_room h" "room_step w i" "destroy_ok w i h" for h w i
proof
  show "destroy_ok w i h s" if "s = fresh_vm_room h" for s using that destroy_start by simp
  show "destroy_ok w i h t" if "room_step w i s t" "destroy_ok w i h s" for s t
    using that(1) does_keeps [OF that(2)] by cases
qed

subsection \<open>Properties\<close>

text \<open>
  Property C38. However the exit watcher and the callers of \<open>destroy\<close> interleave, what they do together
  is one atomic \<open>destroy\<close>: one caller does the work, every other one returns 0 at once; when that
  caller is done, the host is what \<open>destroy_vm\<close> leaves and it has the result of \<open>destroy_vm\<close>, with
  the status that the watcher read from the control channel before the grace was over. Only a
  cancellation during the removal of the directory can replace that result.
\<close>

theorem destroy_is_atomic:
  assumes "reachable (\<lambda>s. s = fresh_vm_room h) (room_step w i) s" "call s k = Gave r"
  shows "(claimed s \<noteq> Some k \<longrightarrow> r = Inr 0 \<and> (\<exists>j. claimed s = Some j \<and> j \<noteq> k))
    \<and> (claimed s = Some k \<longrightarrow> (\<exists>gone r'.
        destroy_vm (w\<lparr>removable := gone\<rparr>) False (watch_exit [] (seen s)) i h = (r', vm_host s)
        \<and> (r = r' \<or> is_ok r' \<and> r = Inl CancelledError)))"
proof -
  have inv: "destroy_ok w i h s" by (rule destroying.everywhere [OF assms(1)])
  have "watch_exit [] (seen s) = heard_status s"
    using heard.everywhere [OF assms(1)]
    by (auto simp: heard_ok_def split: watch_pc.splits dest: spec [of _ "[]"])
  moreover have "claimed s \<noteq> None" using inv assms(2) by (auto simp: destroy_ok_def split: option.splits)
  ultimately show ?thesis
    using inv assms(2) worker [OF inv, of k] unfolding destroy_ok_def done_ok_def
    by (auto simp: works_def)
qed

text \<open>Two callers, and the status in two chunks, the second one just before the grace is over.\<close>

definition calm_world :: world where
  "calm_world = \<lparr>on_mkdir = None, on_owner = None, on_cp = None, on_copyfile = None, on_ruleset = Inr None, on_exec = None,
     on_pidfile = None, on_ready = Inr (), on_api = (\<lambda>_. None), on_data = Inr [], on_ctrl = Inr [],
     on_resize = None, stopping = \<lparr>had_exited = False, gone_at_term = False, on_wait = Inr (),
       gone_at_kill = False, on_last_wait = None\<rparr>, removable = True, on_unlink = None\<rparr>"

definition two_destroys :: "room_event list" where
  "two_destroys = [Chunk ''exit 1'', Call 0, Call 1, Chunk (''37'' @ [LF]), Heard 0 Watcher_Ended,
     Stopped_Vm 0, Removed 0 True False]"

definition one_vm :: vm_state where
  "one_vm = \<lparr>dirs = {''dev-1''}, running = {''dev-1''}, socks = 2, api_log = []\<rparr>"

theorem destroy_is_atomic_witness:
  "\<exists>s. room_run calm_world ''dev-1'' two_destroys (fresh_vm_room one_vm) = Some s
     \<and> call s 0 = Gave (Inr 137) \<and> call s 1 = Gave (Inr 0)
     \<and> (\<exists>gone. destroy_vm (calm_world\<lparr>removable := gone\<rparr>) False (watch_exit [] (seen s)) ''dev-1'' one_vm
          = (Inr 137, vm_host s))"
proof -
  let ?s = "the (room_run calm_world ''dev-1'' two_destroys (fresh_vm_room one_vm))"
  have "room_run calm_world ''dev-1'' two_destroys (fresh_vm_room one_vm) \<noteq> None \<and> call ?s 0 = Gave (Inr 137)
      \<and> call ?s 1 = Gave (Inr 0) \<and> claimed ?s = Some 0" by code_simp
  then obtain s where s: "room_run calm_world ''dev-1'' two_destroys (fresh_vm_room one_vm) = Some s"
    "call s 0 = Gave (Inr 137)" "call s 1 = Gave (Inr 0)" "claimed s = Some 0" by auto
  have "reachable (\<lambda>s. s = fresh_vm_room one_vm) (room_step calm_world ''dev-1'') s"
    using room_run_reachable [OF s(1)] reachable.start by metis
  from destroy_is_atomic [OF this s(2)] show ?thesis using s by auto
qed

end
