(* ===== verification/House.thy ===== *)
theory House
  imports Session_Props Backend
begin

section \<open>Sessions over a backend (session.py on base.py)\<close>

text \<open>
  The session layer leaves open what the backend answers; here a backend object of the seam answers
  it. The state of a house is that of the sessions, the host that the backend works on, and the
  objects behind the names: the room of each \<open>rid\<close>, the handle of each \<open>kid\<close>. \<open>hs_asked\<close> is the
  terminal size that a pump gave to \<open>open\<close> or \<open>resume\<close>, \<open>hs_resized\<close> how many resize tasks of a
  session have run. A call of the backend takes effect when it returns. Each event asks the
  backend, and \<open>happen\<close> of the session layer takes the answer.
\<close>

record ('s, 'k) house =
  hs_sys :: sys
  hs_host :: 's
  hs_objs :: "rid \<Rightarrow> ('s, 'k) room_ops option"
  hs_handles :: "kid \<Rightarrow> 'k option"
  hs_asked :: "sid \<Rightarrow> int \<times> int"
  hs_resized :: "sid \<Rightarrow> nat"

definition new_house :: "sys \<Rightarrow> 's \<Rightarrow> ('s, 'k) house" where
  "new_house y g = \<lparr>hs_sys = y, hs_host = g, hs_objs = (\<lambda>_. None), hs_handles = (\<lambda>_. None),
     hs_asked = (\<lambda>_. (80, 24)), hs_resized = (\<lambda>_. 0)\<rparr>"

datatype house_event =
    Quiet event | Starts sid | Opens sid rid bool | Resumes sid rid bool | Cleans sid bool | Late sid
  | Reads sid bool | Writes sid | Resizes sid | Pauses sid kid | Destroys sid | Expires kid | Sweeps kid

text \<open>The events of the session layer that take no answer of a backend.\<close>

fun quiet :: "event \<Rightarrow> bool" where
  "quiet (Alone i ev) = (case ev of Feeder_Wrote good \<Rightarrow> False | _ \<Rightarrow> True)"
| "quiet (Pump_Start i) = False"
| "quiet (Pump_Opened i res w) = False"
| "quiet (Pump_Resumed i res w) = False"
| "quiet (Pump_Cleaned i good w) = False"
| "quiet (Pump_Late i res) = (res = Absorbed)"
| "quiet (Pump_Read i res) = False"
| "quiet (Teardown_Paused i res) = (res = Absorbed)"
| "quiet (Teardown_Destroyed i res) = (res = Absorbed)"
| "quiet (Expire_End k good) = False"
| "quiet (Sweep_End k good) = False"
| "quiet other = True"

definition put_host :: "'s \<Rightarrow> ('s, 'k) house \<Rightarrow> ('s, 'k) house" where
  "put_host g h = h\<lparr>hs_host := g\<rparr>"

definition put_obj :: "rid \<Rightarrow> ('s, 'k) room_ops \<Rightarrow> ('s, 'k) house \<Rightarrow> ('s, 'k) house" where
  "put_obj r ob h = h\<lparr>hs_objs := (hs_objs h)(r := Some ob)\<rparr>"

definition put_handle :: "kid \<Rightarrow> 'k \<Rightarrow> ('s, 'k) house \<Rightarrow> ('s, 'k) house" where
  "put_handle k x h = h\<lparr>hs_handles := (hs_handles h)(k := Some x)\<rparr>"

subsection \<open>What the answers of a backend are to the session layer\<close>

text \<open>A \<open>CancelledError\<close> comes out of a call only if the caller was cancelled.\<close>

definition failed_open :: "py_exc \<Rightarrow> open_result" where
  "failed_open e = (if is_exception e then OpenFailed else OpenCancelled None)"

definition call_result :: "'a res \<Rightarrow> 'a room_result" where
  "call_result x = (case x of Inr v \<Rightarrow> Returned v | Inl e \<Rightarrow> if is_exception e then Raised else Cancelled)"

definition read_answer :: "bool \<Rightarrow> string res \<Rightarrow> read_result" where
  "read_answer writes x = (case x of Inl e \<Rightarrow> StreamError
     | Inr d \<Rightarrow> if d = [] then Ended else if writes then Data d else StreamError)"

subsection \<open>The questions\<close>

text \<open>
  What each event asks of the backend: the event of the session layer that takes the answer, if
  there is one, and the house with the effect of the call.
\<close>

type_synonym ('s, 'k) asked = "(event option \<times> ('s, 'k) house) option"

definition told :: "event \<Rightarrow> ('s, 'k) house \<Rightarrow> ('s, 'k) asked" where
  "told e h = Some (Some e, h)"

definition ask_start :: "sid \<Rightarrow> ('s, 'k) house \<Rightarrow> ('s, 'k) asked" where
  "ask_start i h = told (Pump_Start i) (h\<lparr>hs_asked := (hs_asked h)(i := size (sess (hs_sys h) i))\<rparr>)"

text \<open>An answer of \<open>open\<close> or \<open>resume\<close>; \<open>ev\<close> is the event of the session layer that takes it.\<close>

definition ask_room :: "rid \<Rightarrow> (open_result \<Rightarrow> event) \<Rightarrow> ('s, ('s, 'k) room_ops) io \<Rightarrow> ('s, 'k) house \<Rightarrow> ('s, 'k) asked" where
  "ask_room r ev call h = (case call (hs_host h) of
     (Inr ob, g) \<Rightarrow> told (ev (Opened r (rm_can_pause ob))) (put_obj r ob (put_host g h))
   | (Inl e, g) \<Rightarrow> told (ev (failed_open e)) (put_host g h))"

definition ask_open :: "('s, 'k) backend \<Rightarrow> sid \<Rightarrow> rid \<Rightarrow> bool \<Rightarrow> ('s, 'k) house \<Rightarrow> ('s, 'k) asked" where
  "ask_open b i r w h = (let n = hs_asked h i in
     ask_room r (\<lambda>res. Pump_Opened i res w) (bk_open b (room_cfg (sess (hs_sys h) i)) (fst n) (snd n)) h)"

definition ask_resume :: "('s, 'k) backend \<Rightarrow> sid \<Rightarrow> rid \<Rightarrow> bool \<Rightarrow> ('s, 'k) house \<Rightarrow> ('s, 'k) asked" where
  "ask_resume b i r w h = (let n = hs_asked h i in case pump (sess (hs_sys h) i) of
     PResuming k \<Rightarrow> (case hs_handles h k of None \<Rightarrow> None
       | Some x \<Rightarrow> ask_room r (\<lambda>res. Pump_Resumed i res w) (bk_resume b x (fst n) (snd n)) h)
   | _ \<Rightarrow> None)"

text \<open>\<open>destroy_kept\<close> of handle \<open>k\<close>; \<open>ev\<close> is who waits for it.\<close>

definition ask_destroy_kept :: "('s, 'k) backend \<Rightarrow> kid \<Rightarrow> (bool \<Rightarrow> event) \<Rightarrow> ('s, 'k) house \<Rightarrow> ('s, 'k) asked" where
  "ask_destroy_kept b k ev h = (case hs_handles h k of None \<Rightarrow> None
     | Some x \<Rightarrow> (case bk_destroy_kept b x (hs_host h) of (a, g) \<Rightarrow> told (ev (is_ok a)) (put_host g h)))"

definition ask_clean :: "('s, 'k) backend \<Rightarrow> sid \<Rightarrow> bool \<Rightarrow> ('s, 'k) house \<Rightarrow> ('s, 'k) asked" where
  "ask_clean b i w h = (case pump (sess (hs_sys h) i) of
     PCleanup k \<Rightarrow> ask_destroy_kept b k (\<lambda>good. Pump_Cleaned i good w) h | _ \<Rightarrow> None)"

text \<open>Calls on a room.\<close>

definition ask_destroy :: "rid \<Rightarrow> (int room_result \<Rightarrow> event) \<Rightarrow> ('s, 'k) house \<Rightarrow> ('s, 'k) asked" where
  "ask_destroy r ev h = (case hs_objs h r of None \<Rightarrow> None
     | Some ob \<Rightarrow> (case rm_destroy ob (hs_host h) of None \<Rightarrow> None
         | Some (x, g) \<Rightarrow> told (ev (call_result x)) (put_host g h)))"

definition ask_late :: "sid \<Rightarrow> ('s, 'k) house \<Rightarrow> ('s, 'k) asked" where
  "ask_late i h = (case pump (sess (hs_sys h) i) of PLate r \<Rightarrow> ask_destroy r (Pump_Late i) h | _ \<Rightarrow> None)"

definition ask_teardown :: "sid \<Rightarrow> ('s, 'k) house \<Rightarrow> ('s, 'k) asked" where
  "ask_teardown i h = (case teardown (sess (hs_sys h) i) of
     TDestroying r \<Rightarrow> ask_destroy r (Teardown_Destroyed i) h | _ \<Rightarrow> None)"

definition ask_pause :: "sid \<Rightarrow> kid \<Rightarrow> ('s, 'k) house \<Rightarrow> ('s, 'k) asked" where
  "ask_pause i k h = (case teardown (sess (hs_sys h) i) of
     TPausing r \<Rightarrow> (case hs_objs h r of None \<Rightarrow> None
       | Some ob \<Rightarrow> (case rm_pause ob (hs_host h) of
           (Inr x, g) \<Rightarrow> told (Teardown_Paused i (Returned k)) (put_handle k x (put_host g h))
         | (Inl e, g) \<Rightarrow> told (Teardown_Paused i (call_result (Inl e))) (put_host g h)))
   | _ \<Rightarrow> None)"

definition ask_read :: "sid \<Rightarrow> bool \<Rightarrow> ('s, 'k) house \<Rightarrow> ('s, 'k) asked" where
  "ask_read i w h = (case pump (sess (hs_sys h) i) of
     PReading r \<Rightarrow> (case hs_objs h r of None \<Rightarrow> None
       | Some ob \<Rightarrow> (case rm_read ob (hs_host h) of (x, g) \<Rightarrow> told (Pump_Read i (read_answer w x)) (put_host g h)))
   | _ \<Rightarrow> None)"

definition ask_write :: "sid \<Rightarrow> ('s, 'k) house \<Rightarrow> ('s, 'k) asked" where
  "ask_write i h = (case feeder (sess (hs_sys h) i) of
     FWrite r d \<Rightarrow> (case hs_objs h r of None \<Rightarrow> None
       | Some ob \<Rightarrow> (case rm_write ob d (hs_host h) of (x, g) \<Rightarrow> told (Alone i (Feeder_Wrote (is_ok x))) (put_host g h)))
   | _ \<Rightarrow> None)"

text \<open>The next task that \<open>terminal_size_changed\<close> made; nobody looks at how it ends.\<close>

definition ask_resize :: "sid \<Rightarrow> ('s, 'k) house \<Rightarrow> ('s, 'k) asked" where
  "ask_resize i h = (let n = hs_resized h i; todo = resizes (sess (hs_sys h) i) in
     if n < length todo then (case todo ! n of (r, w, l) \<Rightarrow>
       (case hs_objs h r of None \<Rightarrow> None
        | Some ob \<Rightarrow> Some (None, put_host (snd (rm_resize ob w l (hs_host h))) (h\<lparr>hs_resized := (hs_resized h)(i := Suc n)\<rparr>))))
     else None)"

fun ask :: "('s, 'k) backend \<Rightarrow> house_event \<Rightarrow> ('s, 'k) house \<Rightarrow> ('s, 'k) asked" where
  "ask b (Quiet e) h = (if quiet e then told e h else None)"
| "ask b (Starts i) h = ask_start i h"
| "ask b (Opens i r w) h = ask_open b i r w h"
| "ask b (Resumes i r w) h = ask_resume b i r w h"
| "ask b (Cleans i w) h = ask_clean b i w h"
| "ask b (Late i) h = ask_late i h"
| "ask b (Reads i w) h = ask_read i w h"
| "ask b (Writes i) h = ask_write i h"
| "ask b (Resizes i) h = ask_resize i h"
| "ask b (Pauses i k) h = ask_pause i k h"
| "ask b (Destroys i) h = ask_teardown i h"
| "ask b (Expires k) h = ask_destroy_kept b k (Expire_End k) h"
| "ask b (Sweeps k) h = ask_destroy_kept b k (Sweep_End k) h"

definition house_does :: "('s, 'k) backend \<Rightarrow> house_event \<Rightarrow> ('s, 'k) house \<Rightarrow> ('s, 'k) house option" where
  "house_does b ev h = (case ask b ev h of None \<Rightarrow> None
     | Some (None, h0) \<Rightarrow> Some h0
     | Some (Some e, h0) \<Rightarrow> map_option (\<lambda>y. h0\<lparr>hs_sys := y\<rparr>) (happen e (hs_sys h)))"

inductive house_step :: "('s, 'k) backend \<Rightarrow> ('s, 'k) house \<Rightarrow> ('s, 'k) house \<Rightarrow> bool" for b :: "('s, 'k) backend" where
  does: "house_does b ev h = Some h' \<Longrightarrow> house_step b h h'"

fun house_run :: "('s, 'k) backend \<Rightarrow> house_event list \<Rightarrow> ('s, 'k) house \<Rightarrow> ('s, 'k) house option" where
  "house_run b [] h = Some h"
| "house_run b (ev # evs) h = (case house_does b ev h of None \<Rightarrow> None | Some h' \<Rightarrow> house_run b evs h')"

subsection \<open>A house implements the session layer\<close>

lemma put_frame [simp]:
  "hs_sys (put_host g h) = hs_sys h" "hs_sys (put_obj r ob h) = hs_sys h" "hs_sys (put_handle k x h) = hs_sys h"
  "hs_host (put_host g h) = g" "hs_host (put_obj r ob h) = hs_host h" "hs_host (put_handle k x h) = hs_host h"
  "hs_objs (put_host g h) = hs_objs h" "hs_objs (put_obj r ob h) = (hs_objs h)(r := Some ob)"
  "hs_objs (put_handle k x h) = hs_objs h" "hs_handles (put_host g h) = hs_handles h"
  "hs_handles (put_obj r ob h) = hs_handles h" "hs_handles (put_handle k x h) = (hs_handles h)(k := Some x)"
  by (simp_all add: put_host_def put_obj_def put_handle_def)

lemmas ask_defs = told_def ask_start_def ask_room_def ask_open_def ask_resume_def ask_destroy_kept_def
  ask_clean_def ask_destroy_def ask_late_def ask_teardown_def ask_pause_def ask_read_def ask_write_def
  ask_resize_def

lemma house_does_cases:
  assumes "house_does b ev h = Some h'"
  obtains (quiet) "ask b ev h = Some (None, h')"
    | (takes) e h0 where "ask b ev h = Some (Some e, h0)" "happen e (hs_sys h) = Some (hs_sys h')" "h' = h0\<lparr>hs_sys := hs_sys h'\<rparr>"
  using assms by (auto simp: house_does_def split: option.splits prod.splits)

lemma ask_sys: "ask b ev h = Some (eo, h0) \<Longrightarrow> hs_sys h0 = hs_sys h"
  by (cases ev)
    (auto simp: ask_defs Let_def split: if_splits option.splits prod.splits sum.splits
      pump_pc.splits teardown_pc.splits feeder_pc.splits)

lemma ask_nothing: "ask b ev h = Some (None, h0) \<Longrightarrow> hs_objs h0 = hs_objs h \<and> hs_handles h0 = hs_handles h"
  by (cases ev)
    (auto simp: ask_defs Let_def split: if_splits option.splits prod.splits sum.splits
      pump_pc.splits teardown_pc.splits feeder_pc.splits)

lemma house_step_cases: "house_step b h h' \<Longrightarrow> server_step (hs_sys h) (hs_sys h')
    \<or> (hs_sys h' = hs_sys h \<and> hs_objs h' = hs_objs h \<and> hs_handles h' = hs_handles h)"
proof (induction rule: house_step.induct)
  case (does ev h h')
  then show ?case
  proof (cases rule: house_does_cases)
    case quiet
    then show ?thesis using ask_sys ask_nothing by blast
  next
    case (takes e h0)
    then show ?thesis using happen_step by blast
  qed
qed

subsection \<open>Births of rooms, and pausing\<close>

text \<open>The room that an event of the session layer takes over, and whether it can be paused.\<close>

fun born :: "event \<Rightarrow> (rid \<times> bool) option" where
  "born (Pump_Opened i (Opened r cp) w) = Some (r, cp)"
| "born (Pump_Resumed i (Opened r cp) w) = Some (r, cp)"
| "born other = None"

text \<open>A room that a cancelled \<open>open\<close> left behind has no name in a house.\<close>

fun unnamed :: "event \<Rightarrow> bool" where
  "unnamed (Pump_Opened i (OpenCancelled (Some r)) w) = False"
| "unnamed other = True"

definition births :: "sys \<Rightarrow> (rid \<times> bool) option \<Rightarrow> sys \<Rightarrow> bool" where
  "births y new z \<longleftrightarrow> (case new of
     None \<Rightarrow> (\<forall>q. rooms z q = RFresh \<longleftrightarrow> rooms y q = RFresh) \<and> can_pause z = can_pause y
   | Some (r, cp) \<Rightarrow> rooms y r = RFresh \<and> (\<forall>q. rooms z q = RFresh \<longleftrightarrow> q \<noteq> r \<and> rooms y q = RFresh)
       \<and> can_pause z = (can_pause y)(r := cp))"

lemma can_pause_frame [simp]:
  "can_pause (put i s y) = can_pause y" "can_pause (set_room r v y) = can_pause y"
  "can_pause (set_kept k u y) = can_pause y" "can_pause (set_expiry k x y) = can_pause y"
  "can_pause (count_destroy r y) = can_pause y" "can_pause (lose_kept k y) = can_pause y"
  "can_pause (release i y) = can_pause y" "can_pause (kept_store u' k y) = can_pause y"
  "can_pause (destroy_kept_result k good y) = can_pause y"
  "can_pause (new_room r cp y) = (can_pause y)(r := cp)"
  "can_pause (pump_attached i r g w y) = can_pause y" "can_pause (active_add i y) = can_pause y"
  by (simp_all add: sys_defs Let_def split: option.split)

lemma rooms_frame [simp]:
  "rooms (put i s y) = rooms y" "rooms (set_room r v y) = (rooms y)(r := v)"
  "rooms (set_kept k u y) = rooms y" "rooms (set_expiry k x y) = rooms y"
  "rooms (count_destroy r y) = rooms y" "rooms (lose_kept k y) = rooms y"
  "rooms (release i y) = rooms y" "rooms (kept_store u' k y) = rooms y"
  "rooms (destroy_kept_result k good y) = rooms y"
  "rooms (new_room r cp y) = (rooms y)(r := RLive)"
  "rooms (pump_attached i r g w y) = rooms y"
  by (simp_all add: sys_defs Let_def split: option.split)

lemma births_same: "rooms z = rooms y \<Longrightarrow> can_pause z = can_pause y \<Longrightarrow> births y None z"
  by (simp add: births_def)

lemma births_frame [simp]:
  "births y n (release i z) = births y n z" "births y n (put i s z) = births y n z"
  "births y n (set_kept k u z) = births y n z" "births y n (kept_store u' k z) = births y n z"
  "births y n (count_destroy r z) = births y n z" "births y n (lose_kept k z) = births y n z"
  unfolding births_def rooms_frame can_pause_frame by (rule refl)+

lemma births_settled: "rooms y r = RLive \<Longrightarrow> v \<noteq> RFresh \<Longrightarrow> births y None x \<Longrightarrow> births y None (set_room r v x)"
  by (auto simp: births_def)

lemma births_refl [simp]: "births y None y"
  by (simp add: births_def)

lemma births_new: "rooms y r = RFresh \<Longrightarrow> rooms z = (rooms y)(r := RLive) \<Longrightarrow>
    can_pause z = (can_pause y)(r := cp) \<Longrightarrow> births y (Some (r, cp)) z"
  by (auto simp: births_def)

lemma held_late: "server_reachable y \<Longrightarrow> pump (sess y i) = PLate r \<Longrightarrow> rooms y r = RLive"
  using sessions.everywhere [of y] held_early [of "sess y i"] custody_facts(1) [of y i r True]
  by (simp add: sessions_ok_def)

lemma held_teardown:
  assumes "server_reachable y" "teardown_holds (teardown (sess y i)) = Some (r, b)"
  shows "rooms y r = RLive"
proof -
  have "working (teardown (sess y i))" using assms(2) by (cases "teardown (sess y i)") auto
  then have "room (sess y i) = None"
    using held_working [of "sess y i"] sessions.everywhere [OF assms(1)] by (simp add: sessions_ok_def)
  then have "held (sess y i) = Some (r, b)" using assms(2) by (simp add: held_def)
  then show ?thesis using custody_facts(1) [OF assms(1)] by blast
qed

lemma checkout_not_fresh [simp]: "checkout_room res \<noteq> RFresh"
  by (cases res) auto

lemma births_events:
  assumes y: "server_reachable y"
  shows "pump_opened i res w y = Some z \<Longrightarrow> unnamed (Pump_Opened i res w) \<Longrightarrow> births y (born (Pump_Opened i res w)) z"
    and "pump_resumed i res w y = Some z \<Longrightarrow> births y (born (Pump_Resumed i res w)) z"
    and "pump_late i res1 y = Some z \<Longrightarrow> births y None z"
    and "teardown_paused i res2 y = Some z \<Longrightarrow> births y None z"
    and "teardown_destroyed i res1 y = Some z \<Longrightarrow> births y None z"
proof -
  show "pump_opened i res w y = Some z \<Longrightarrow> unnamed (Pump_Opened i res w) \<Longrightarrow> births y (born (Pump_Opened i res w)) z"
    by (induction i res w y rule: pump_opened.induct)
      (auto simp: Let_def split: if_splits intro: births_new births_same)
  show "pump_resumed i res w y = Some z \<Longrightarrow> births y (born (Pump_Resumed i res w)) z"
    by (induction i res w y rule: pump_resumed.induct)
      (auto simp: Let_def split: if_splits pump_pc.splits intro: births_new births_same)
  show "pump_late i res1 y = Some z \<Longrightarrow> births y None z"
    using held_late [OF y, of i]
    by (cases res1) (auto simp: pump_late_def Let_def split: if_splits pump_pc.splits
        intro!: births_settled)
  show "teardown_paused i res2 y = Some z \<Longrightarrow> births y None z"
    using held_teardown [OF y, of i _ False]
    by (cases res2) (auto simp: teardown_paused_def Let_def split: if_splits teardown_pc.splits
        intro!: births_settled)
  show "teardown_destroyed i res1 y = Some z \<Longrightarrow> births y None z"
    using held_teardown [OF y, of i _ True]
    by (cases res1) (auto simp: teardown_destroyed_def Let_def split: if_splits teardown_pc.splits
        intro!: births_settled)
qed

lemma births_quiet:
  "pump_start i y = Some z \<Longrightarrow> births y None z"
  "pump_cleaned i good w y = Some z \<Longrightarrow> births y None z"
  "pump_read i res y = Some z \<Longrightarrow> births y None z"
  "pump_finish i w y = Some z \<Longrightarrow> births y None z"
  "teardown_start i y = Some z \<Longrightarrow> births y None z"
  "watchdog_wake i w y = Some z \<Longrightarrow> births y None z"
  "watchdog_finish i y = Some z \<Longrightarrow> births y None z"
  "close_start i w y = Some z \<Longrightarrow> births y None z"
  "close_finish i y = Some z \<Longrightarrow> births y None z"
  "close_cancel i y = Some z \<Longrightarrow> births y None z"
  "expire_wake k y = Some z \<Longrightarrow> births y None z"
  "expire_end k good y = Some z \<Longrightarrow> births y None z"
  "sweep_start u k y = Some z \<Longrightarrow> births y None z"
  "sweep_end k good y = Some z \<Longrightarrow> births y None z"
  by (auto simp: pump_start_def pump_cleaned_def pump_read_def pump_finish_def teardown_start_def watchdog_wake_def
      watchdog_finish_def close_start_def close_finish_def close_cancel_def expire_wake_def expire_end_def
      sweep_start_def sweep_end_def kept_take_def Let_def
      split: if_splits pump_pc.splits teardown_pc.splits expire_pc.splits option.splits prod.splits read_result.splits
      intro!: births_same)

lemma births_happen:
  assumes "server_reachable y" "happen e y = Some z" "unnamed e"
  shows "births y (born e) z"
proof (cases e)
  case (Made i)
  then show ?thesis using assms(2) by (auto simp: connection_made_def active_add_def Let_def intro: births_same)
next
  case (Tick d)
  then show ?thesis using assms(2) by (auto intro: births_same)
qed (use assms in \<open>auto split: if_splits intro: births_quiet births_events [OF assms(1)]\<close>)

text \<open>A teardown pauses only a room that can be paused, from its first step on.\<close>

definition calm :: "sys \<Rightarrow> sys \<Rightarrow> bool" where
  "calm y z \<longleftrightarrow> (\<forall>i r. teardown (sess z i) = TPausing r \<longrightarrow> teardown (sess y i) = TPausing r)"

lemma calm_same: "sess z = sess y \<Longrightarrow> calm y z"
  by (simp add: calm_def)

lemma calm_frame [simp]:
  "calm y (set_room r v z) = calm y z" "calm y (set_kept k u z) = calm y z"
  "calm y (set_expiry k x z) = calm y z" "calm y (count_destroy r z) = calm y z"
  "calm y (lose_kept k z) = calm y z" "calm y (release i z) = calm y z"
  "calm y (kept_store u' k z) = calm y z" "calm y (destroy_kept_result k good z) = calm y z"
  "calm y (new_room r cp z) = calm y z"
  by (simp_all add: calm_def)

lemma calm_put: "sess x = sess y \<Longrightarrow> teardown s = teardown (sess y i) \<or> (\<forall>r. teardown s \<noteq> TPausing r) \<Longrightarrow> calm y (put i s x)"
  by (auto simp: calm_def)

lemma calm_attached: "sess x = sess y \<Longrightarrow> calm y (pump_attached i r g w x)"
  by (auto simp: pump_attached_def Let_def intro!: calm_put)

lemma farewell_frame [simp]: "teardown (goodbye ours w s) = teardown s" "teardown (leave st s) = teardown s"
  by (auto simp: goodbye_def leave_def split: option.split)

lemma pump_finally_frame [simp]:
  "teardown (pump_finally s) = (if teardown s = TNone then TReady False else teardown s)"
  by (simp add: pump_finally_def Let_def)

lemma calm_pump:
  "pump_start i y = Some z \<Longrightarrow> calm y z"
  "pump_opened i res w y = Some z \<Longrightarrow> calm y z"
  "pump_resumed i res w y = Some z \<Longrightarrow> calm y z"
  "pump_cleaned i good w y = Some z \<Longrightarrow> calm y z"
  "pump_late i res1 y = Some z \<Longrightarrow> calm y z"
  "pump_read i res2 y = Some z \<Longrightarrow> calm y z"
  "pump_finish i w y = Some z \<Longrightarrow> calm y z"
proof -
  show "pump_start i y = Some z \<Longrightarrow> calm y z"
    by (auto simp: pump_start_def Let_def split: if_splits prod.splits option.splits
        dest!: kept_take_abs intro!: calm_put)
  show "pump_opened i res w y = Some z \<Longrightarrow> calm y z"
    by (induction i res w y rule: pump_opened.induct)
      (auto simp: Let_def split: if_splits intro!: calm_attached calm_put)
  show "pump_resumed i res w y = Some z \<Longrightarrow> calm y z"
    by (induction i res w y rule: pump_resumed.induct)
      (auto simp: Let_def split: if_splits pump_pc.splits intro!: calm_attached calm_put)
  show "pump_cleaned i good w y = Some z \<Longrightarrow> calm y z"
    by (auto simp: pump_cleaned_def Let_def split: if_splits pump_pc.splits intro!: calm_put)
  show "pump_late i res1 y = Some z \<Longrightarrow> calm y z"
    by (cases res1) (auto simp: pump_late_def Let_def split: if_splits pump_pc.splits intro!: calm_put)
  show "pump_read i res2 y = Some z \<Longrightarrow> calm y z"
    by (cases res2) (auto simp: pump_read_def Let_def split: if_splits pump_pc.splits intro!: calm_put)
  show "pump_finish i w y = Some z \<Longrightarrow> calm y z"
    by (auto simp: pump_finish_def Let_def split: if_splits pump_pc.splits intro!: calm_put)
qed

lemma calm_others:
  "teardown_paused i res3 y = Some z \<Longrightarrow> calm y z"
  "teardown_destroyed i res1 y = Some z \<Longrightarrow> calm y z"
  "watchdog_wake i w y = Some z \<Longrightarrow> calm y z"
  "watchdog_finish i y = Some z \<Longrightarrow> calm y z"
  "close_start i w y = Some z \<Longrightarrow> calm y z"
  "close_finish i y = Some z \<Longrightarrow> calm y z"
  "close_cancel i y = Some z \<Longrightarrow> calm y z"
proof -
  show "teardown_paused i res3 y = Some z \<Longrightarrow> calm y z"
    by (cases res3) (auto simp: teardown_paused_def Let_def split: if_splits teardown_pc.splits intro!: calm_put)
  show "teardown_destroyed i res1 y = Some z \<Longrightarrow> calm y z"
    by (cases res1) (auto simp: teardown_destroyed_def Let_def split: if_splits teardown_pc.splits intro!: calm_put)
  show "watchdog_wake i w y = Some z \<Longrightarrow> calm y z"
    by (auto simp: watchdog_wake_def Let_def split: if_splits intro!: calm_put)
  show "watchdog_finish i y = Some z \<Longrightarrow> calm y z"
    by (auto simp: watchdog_finish_def Let_def split: if_splits intro!: calm_put)
  show "close_start i w y = Some z \<Longrightarrow> calm y z"
    by (auto simp: close_start_def Let_def split: if_splits intro!: calm_put)
  show "close_finish i y = Some z \<Longrightarrow> calm y z"
    by (auto simp: close_finish_def Let_def split: if_splits intro!: calm_put)
  show "close_cancel i y = Some z \<Longrightarrow> calm y z"
    by (auto simp: close_cancel_def Let_def split: if_splits intro!: calm_put)
qed

lemma calm_registry:
  "expire_wake k y = Some z \<Longrightarrow> calm y z"
  "expire_end k good y = Some z \<Longrightarrow> calm y z"
  "sweep_start u k y = Some z \<Longrightarrow> calm y z"
  "sweep_end k good y = Some z \<Longrightarrow> calm y z"
  by (auto simp: expire_wake_def expire_end_def sweep_start_def sweep_end_def
      split: if_splits expire_pc.splits intro!: calm_same)

lemma pausing_begins:
  assumes "server_step y z" "teardown (sess z i) = TPausing r"
  shows "teardown (sess y i) = TPausing r \<or> can_pause y r"
  using assms
proof (induction rule: server_step.induct)
  case (made y j)
  then show ?case by (auto simp: connection_made_def active_add_def Let_def split: if_splits)
next
  case (alone y j s)
  then show ?case using local_step_still [OF alone(1)] by (auto simp: still_def split: if_splits)
next
  case (teardown_start j y z)
  then show ?case
    by (auto simp: teardown_start_def Let_def split: if_splits teardown_pc.splits option.splits)
qed (auto dest: calm_pump calm_others calm_registry simp: calm_def)

lemma born_calm:
  assumes "happen e y = Some z" "born e = Some n"
  shows "calm y z"
proof (cases e)
  case (Pump_Opened i res w)
  then have "pump_opened i res w y = Some z" using assms(1) by simp
  then show ?thesis by (rule calm_pump(2))
next
  case (Pump_Resumed i res w)
  then have "pump_resumed i res w y = Some z" using assms(1) by simp
  then show ?thesis by (rule calm_pump(3))
qed (use assms(2) in simp_all)

subsection \<open>Runs\<close>

lemma house_run_steps: "house_run b evs h = Some h' \<Longrightarrow> (house_step b)\<^sup>*\<^sup>* h h'"
proof (induction evs arbitrary: h)
  case (Cons ev evs)
  then obtain u where "house_does b ev h = Some u" "house_run b evs u = Some h'" by (auto split: option.splits)
  then show ?case using Cons.IH converse_rtranclp_into_rtranclp house_step.does by metis
qed simp

lemma house_steps_active: "(house_step b)\<^sup>*\<^sup>* h h' \<Longrightarrow> has_active (sess (hs_sys h') i) = has_active (sess (hs_sys h) i)"
  by (induction rule: rtranclp_induct) (auto dest!: house_step_cases simp: step_has_active)

text \<open>A session that opens a room and hangs up, its room being kept.\<close>

definition check_in_and_drop :: "house_event list" where
  "check_in_and_drop = [Quiet (Made 0), Quiet (Alone 0 Started), Starts 0, Opens 0 0 True, Quiet (Alone 0 Lost),
     Reads 0 True, Quiet (Teardown_Start 0), Pauses 0 5]"

end
