(* ===== verification/House_Fates.thy ===== *)
theory House_Fates
  imports House Session_Kept
begin

section \<open>What the events of a house do to rooms and handles\<close>

text \<open>
  For every event: the state of the rooms and of the kept handles before and after it, as the answer
  of the backend decides it.
\<close>

definition settled :: "sys \<Rightarrow> sys \<Rightarrow> bool" where
  "settled y z \<longleftrightarrow> rooms z = rooms y \<and> kepts z = kepts y"

lemma settledI: "rooms z = rooms y \<Longrightarrow> kepts z = kepts y \<Longrightarrow> settled y z"
  by (simp add: settled_def)

lemma settled_refl [simp]: "settled y y"
  by (simp add: settled_def)

lemma kepts_more [simp]:
  "kepts (active_add i y) = kepts y" "kepts (pump_attached i r g w y) = kepts y" "kepts (kept_store u k y) = kepts y"
  by (simp_all add: sys_defs Let_def split: option.split)

lemma rooms_more [simp]: "rooms (active_add i y) = rooms y" "rooms (set_expiry k x y) = rooms y"
  by (simp_all add: sys_defs)

lemma settled_quiet:
  "pump_start i y = Some z \<Longrightarrow> settled y z"
  "pump_read i res y = Some z \<Longrightarrow> settled y z"
  "pump_finish i w y = Some z \<Longrightarrow> settled y z"
  "teardown_start i y = Some z \<Longrightarrow> settled y z"
  "watchdog_wake i w y = Some z \<Longrightarrow> settled y z"
  "watchdog_finish i y = Some z \<Longrightarrow> settled y z"
  "close_start i w y = Some z \<Longrightarrow> settled y z"
  "close_finish i y = Some z \<Longrightarrow> settled y z"
  "close_cancel i y = Some z \<Longrightarrow> settled y z"
  "expire_wake k y = Some z \<Longrightarrow> settled y z"
  "sweep_start u k y = Some z \<Longrightarrow> settled y z"
  "pump_late i Absorbed y = Some z \<Longrightarrow> settled y z"
  "teardown_paused i Absorbed y = Some z \<Longrightarrow> settled y z"
  "teardown_destroyed i Absorbed y = Some z \<Longrightarrow> settled y z"
  "pump_opened i (failed_open e) w y = Some z \<Longrightarrow> settled y z"
  "pump_resumed i (failed_open e) w y = Some z \<Longrightarrow> settled y z"
  by (auto simp: pump_start_def pump_read_def pump_finish_def teardown_start_def watchdog_wake_def failed_open_def
      watchdog_finish_def close_start_def close_finish_def close_cancel_def expire_wake_def sweep_start_def
      kept_take_def pump_late_def teardown_paused_def teardown_destroyed_def Let_def
      split: if_splits pump_pc.splits teardown_pc.splits expire_pc.splits option.splits prod.splits read_result.splits
      intro!: settledI)

lemma settled_happen:
  assumes "quiet e" "happen e y = Some z"
  shows "settled y z"
  using assms by (cases e) (auto intro: settled_quiet settledI simp: connection_made_def Let_def split: if_splits)

lemma fate_opened:
  "pump_opened i (Opened r cp) w y = Some z \<Longrightarrow>
     rooms y r = RFresh \<and> rooms z = (rooms y)(r := RLive) \<and> kepts z = kepts y"
  "pump_resumed i (Opened r cp) w y = Some z \<Longrightarrow> pump (sess y i) = PResuming k \<Longrightarrow>
     rooms y r = RFresh \<and> rooms z = (rooms y)(r := RLive) \<and> kepts z = (kepts y)(k := KResumed)"
  by (auto simp: Let_def split: if_splits pump_pc.splits)

lemma fate_kept:
  "pump_cleaned i good w y = Some z \<Longrightarrow> pump (sess y i) = PCleanup k \<Longrightarrow>
     rooms z = rooms y \<and> kepts z = (if good then (kepts y)(k := KDestroyed) else kepts y)"
  "expire_end k good y = Some z \<Longrightarrow>
     expiry y k = EDestroying \<and> rooms z = rooms y \<and> kepts z = (if good then (kepts y)(k := KDestroyed) else kepts y)"
  "sweep_end k good y = Some z \<Longrightarrow>
     k \<in> sweeping y \<and> rooms z = rooms y \<and> kepts z = (if good then (kepts y)(k := KDestroyed) else kepts y)"
  by (auto simp: pump_cleaned_def expire_end_def sweep_end_def destroy_kept_result_def Let_def
      split: if_splits pump_pc.splits)

lemma call_result_simps [simp]:
  "call_result (Inr v) = Returned v" "call_result (Inl e) = (if is_exception e then Raised else Cancelled)"
  by (simp_all add: call_result_def)

lemma fate_destroyed:
  "pump_late i (call_result x) y = Some z \<Longrightarrow> pump (sess y i) = PLate r \<Longrightarrow>
     \<exists>v. v \<noteq> RLive \<and> v \<noteq> RFresh \<and> rooms z = (rooms y)(r := v) \<and> kepts z = kepts y"
  "teardown_destroyed i (call_result x) y = Some z \<Longrightarrow> teardown (sess y i) = TDestroying r \<Longrightarrow>
     \<exists>v. v \<noteq> RLive \<and> v \<noteq> RFresh \<and> rooms z = (rooms y)(r := v) \<and> kepts z = kepts y"
  by (cases x; auto simp: pump_late_def teardown_destroyed_def Let_def split: if_splits)+

lemma fate_paused:
  "teardown_paused i (Returned k) y = Some z \<Longrightarrow> teardown (sess y i) = TPausing r \<Longrightarrow>
     kepts y k = KFresh \<and> rooms z = (rooms y)(r := RPaused k) \<and> kepts z = (kepts y)(k := KPaused)"
  "teardown_paused i Raised y = Some z \<Longrightarrow> settled y z"
  "teardown_paused i Cancelled y = Some z \<Longrightarrow> teardown (sess y i) = TPausing r \<Longrightarrow>
     rooms z = (rooms y)(r := RAborted) \<and> kepts z = kepts y"
  by (auto simp: teardown_paused_def Let_def split: if_splits teardown_pc.splits intro!: settledI)

end
