(* ===== verification/House_Safety.thy ===== *)
theory House_Safety
  imports House
begin

section \<open>What a backend keeps, the house keeps\<close>

text \<open>
  \<open>guarded_backend\<close> is the contract between a backend and a property of the host: every call keeps
  the property, provided that rooms are paused only if they say that they can be, and that handles
  come from such pauses. Inside it: a house asks nothing else, so the property holds for ever.
\<close>

definition safe_room :: "('s \<Rightarrow> bool) \<Rightarrow> ('k \<Rightarrow> bool) \<Rightarrow> ('s, 'k) room_ops \<Rightarrow> bool" where
  "safe_room P Q r \<longleftrightarrow> keeps P (rm_read r) \<and> (\<forall>d. keeps P (rm_write r d)) \<and> (\<forall>w l. keeps P (rm_resize r w l))
     \<and> (\<forall>s x t. P s \<longrightarrow> rm_destroy r s = Some (x, t) \<longrightarrow> P t)
     \<and> (rm_can_pause r \<longrightarrow> keeps P (rm_pause r) \<and> (\<forall>s x t. P s \<longrightarrow> rm_pause r s = (Inr x, t) \<longrightarrow> Q x))"

lemma safe_roomI:
  assumes "keeps P (rm_read r)" "\<And>d. keeps P (rm_write r d)" "\<And>w l. keeps P (rm_resize r w l)"
    and "\<And>s x t. P s \<Longrightarrow> rm_destroy r s = Some (x, t) \<Longrightarrow> P t"
    and "rm_can_pause r \<Longrightarrow> keeps P (rm_pause r)"
    and "\<And>s x t. rm_can_pause r \<Longrightarrow> P s \<Longrightarrow> rm_pause r s = (Inr x, t) \<Longrightarrow> Q x"
  shows "safe_room P Q r"
  using assms unfolding safe_room_def by blast

lemma safe_roomD:
  assumes "safe_room P Q r" "P s"
  shows "rm_read r s = (a, t) \<Longrightarrow> P t" "rm_write r d s = (u, t) \<Longrightarrow> P t" "P (snd (rm_resize r w l s))"
    "rm_destroy r s = Some (x, t) \<Longrightarrow> P t"
    "rm_can_pause r \<Longrightarrow> rm_pause r s = (k, t) \<Longrightarrow> P t" "rm_can_pause r \<Longrightarrow> rm_pause r s = (Inr v, t) \<Longrightarrow> Q v"
proof -
  note r = assms(1) [unfolded safe_room_def]
  show "rm_read r s = (a, t) \<Longrightarrow> P t" using r keepsD [of P _ s, OF _ assms(2)] by blast
  show "rm_write r d s = (u, t) \<Longrightarrow> P t" using r keepsD [of P _ s, OF _ assms(2)] by blast
  show "P (snd (rm_resize r w l s))" using r assms(2) by (simp add: keeps_def)
  show "rm_destroy r s = Some (x, t) \<Longrightarrow> P t" using r assms(2) by blast
  show "rm_can_pause r \<Longrightarrow> rm_pause r s = (k, t) \<Longrightarrow> P t" using r keepsD [of P _ s, OF _ assms(2)] by blast
  show "rm_can_pause r \<Longrightarrow> rm_pause r s = (Inr v, t) \<Longrightarrow> Q v" using r assms(2) by blast
qed

definition obj_ok :: "('s \<Rightarrow> bool) \<Rightarrow> ('k \<Rightarrow> bool) \<Rightarrow> sys \<Rightarrow> rid \<Rightarrow> ('s, 'k) room_ops option \<Rightarrow> bool" where
  "obj_ok P Q y r o' \<longleftrightarrow> (case o' of None \<Rightarrow> rooms y r = RFresh
     | Some ob \<Rightarrow> rooms y r \<noteq> RFresh \<and> rm_can_pause ob = can_pause y r \<and> safe_room P Q ob)"

definition house_ok :: "('s \<Rightarrow> bool) \<Rightarrow> ('k \<Rightarrow> bool) \<Rightarrow> ('s, 'k) house \<Rightarrow> bool" where
  "house_ok P Q h \<longleftrightarrow> server_reachable (hs_sys h) \<and> P (hs_host h) \<and> (\<forall>k x. hs_handles h k = Some x \<longrightarrow> Q x)
     \<and> (\<forall>r. obj_ok P Q (hs_sys h) r (hs_objs h r))
     \<and> (\<forall>i r. teardown (sess (hs_sys h) i) = TPausing r \<longrightarrow> can_pause (hs_sys h) r)"

lemma house_okD:
  assumes "house_ok P Q h"
  shows "server_reachable (hs_sys h)" "P (hs_host h)" "hs_handles h k = Some x \<Longrightarrow> Q x"
    "hs_objs h r = Some ob \<Longrightarrow> safe_room P Q ob \<and> rm_can_pause ob = can_pause (hs_sys h) r \<and> rooms (hs_sys h) r \<noteq> RFresh"
    "teardown (sess (hs_sys h) i) = TPausing r \<Longrightarrow> can_pause (hs_sys h) r"
    "obj_ok P Q (hs_sys h) r (hs_objs h r)"
proof -
  show "obj_ok P Q (hs_sys h) r (hs_objs h r)" using assms by (simp add: house_ok_def)
  then show "hs_objs h r = Some ob \<Longrightarrow> safe_room P Q ob \<and> rm_can_pause ob = can_pause (hs_sys h) r \<and> rooms (hs_sys h) r \<noteq> RFresh"
    by (simp add: obj_ok_def)
qed (use assms in \<open>simp_all add: house_ok_def\<close>)

text \<open>What an answer brings: a new object, taken over by the event that is told, or none.\<close>

definition brings :: "('s \<Rightarrow> bool) \<Rightarrow> ('k \<Rightarrow> bool) \<Rightarrow> ('s, 'k) house \<Rightarrow> event option \<Rightarrow> ('s, 'k) house \<Rightarrow> bool" where
  "brings P Q h eo h0 \<longleftrightarrow> P (hs_host h0) \<and> (\<forall>k x. hs_handles h0 k = Some x \<longrightarrow> Q x)
     \<and> (\<forall>e. eo = Some e \<longrightarrow> unnamed e)
     \<and> (case eo of None \<Rightarrow> hs_objs h0 = hs_objs h
        | Some e \<Rightarrow> (case born e of None \<Rightarrow> hs_objs h0 = hs_objs h
            | Some (r, cp) \<Rightarrow> \<exists>ob. rm_can_pause ob = cp \<and> safe_room P Q ob \<and> hs_objs h0 = (hs_objs h)(r := Some ob)))"

lemma quiet_born: "quiet e \<Longrightarrow> born e = None \<and> unnamed e"
  by (cases e) auto

lemma brings_told:
  "P (hs_host h0) \<Longrightarrow> (\<And>k x. hs_handles h0 k = Some x \<Longrightarrow> Q x) \<Longrightarrow> hs_objs h0 = hs_objs h \<Longrightarrow>
    born e = None \<Longrightarrow> unnamed e \<Longrightarrow> brings P Q h (Some e) h0"
  by (simp add: brings_def)

locale guarded_backend =
  fixes b :: "('s, 'k) backend" and P :: "'s \<Rightarrow> bool" and Q :: "'k \<Rightarrow> bool"
  assumes opens: "P s \<Longrightarrow> bk_open b rc w l s = (x, t) \<Longrightarrow> P t \<and> (\<forall>r. x = Inr r \<longrightarrow> safe_room P Q r)"
    and resumes: "P s \<Longrightarrow> Q k \<Longrightarrow> bk_resume b k w l s = (x, t) \<Longrightarrow> P t \<and> (\<forall>r. x = Inr r \<longrightarrow> safe_room P Q r)"
    and sweeps: "Q k \<Longrightarrow> keeps P (bk_destroy_kept b k)"
begin

lemma ask_room_brings:
  assumes "house_ok P Q h" "ask_room r ev call h = Some (eo, h0)"
    and call: "\<And>x t. call (hs_host h) = (x, t) \<Longrightarrow> P t \<and> (\<forall>r. x = Inr r \<longrightarrow> safe_room P Q r)"
    and ev: "\<And>cp. born (ev (Opened r cp)) = Some (r, cp)" "\<And>e. born (ev (failed_open e)) = None"
      "\<And>cp. unnamed (ev (Opened r cp))" "\<And>e. unnamed (ev (failed_open e))"
  shows "brings P Q h eo h0"
proof -
  obtain x t where x: "call (hs_host h) = (x, t)" by fastforce
  show ?thesis
  proof (cases x)
    case (Inl e)
    then show ?thesis using assms(2) call [OF x] x ev house_okD(3) [OF assms(1)]
      by (auto simp: ask_room_def told_def intro!: brings_told)
  next
    case (Inr ob)
    then show ?thesis using assms(2) call [OF x] x ev house_okD(3) [OF assms(1)]
      by (auto simp: ask_room_def told_def brings_def)
  qed
qed

lemma failed_open_born: "born (Pump_Opened i (failed_open e) w) = None" "unnamed (Pump_Opened i (failed_open e) w)"
  "born (Pump_Resumed i (failed_open e) w) = None"
  by (auto simp: failed_open_def)

lemma handle_safe: "house_ok P Q h \<Longrightarrow> hs_handles h k = Some x \<Longrightarrow> Q x"
  by (rule house_okD(3))

lemma ask_destroy_kept_brings:
  assumes "house_ok P Q h" "ask_destroy_kept b k ev h = Some (eo, h0)" "\<And>g. born (ev g) = None \<and> unnamed (ev g)"
  shows "brings P Q h eo h0"
proof -
  obtain x a g where x: "hs_handles h k = Some x" "bk_destroy_kept b x (hs_host h) = (a, g)"
    "eo = Some (ev (is_ok a))" "h0 = put_host g h"
    using assms(2) by (auto simp: ask_destroy_kept_def told_def split: option.splits prod.splits)
  have "P g" using keepsD [OF sweeps [OF house_okD(3) [OF assms(1) x(1)]] house_okD(2) [OF assms(1)] x(2)] .
  then show ?thesis using x assms(3) house_okD(3) [OF assms(1)] by (auto intro!: brings_told)
qed

lemma ask_destroy_brings:
  assumes "house_ok P Q h" "ask_destroy r ev h = Some (eo, h0)" "\<And>g. born (ev g) = None \<and> unnamed (ev g)"
  shows "brings P Q h eo h0"
proof -
  obtain ob x g where x: "hs_objs h r = Some ob" "rm_destroy ob (hs_host h) = Some (x, g)"
    "eo = Some (ev (call_result x))" "h0 = put_host g h"
    using assms(2) by (auto simp: ask_destroy_def told_def split: option.splits prod.splits)
  have "safe_room P Q ob" using house_okD(4) [OF assms(1) x(1)] by blast
  from safe_roomD(4) [OF this house_okD(2) [OF assms(1)] x(2)] show ?thesis
    using x assms(3) house_okD(3) [OF assms(1)] by (auto intro!: brings_told)
qed

lemma ask_brings:
  assumes ok: "house_ok P Q h" and a: "ask b ev h = Some (eo, h0)"
  shows "brings P Q h eo h0"
proof (cases ev)
  case (Quiet e)
  then show ?thesis using a house_okD(2,3) [OF ok] quiet_born [of e]
    by (auto simp: told_def split: if_splits intro!: brings_told)
next
  case (Starts i)
  then show ?thesis using a house_okD(2,3) [OF ok] by (auto simp: ask_start_def told_def intro!: brings_told)
next
  case (Opens i r w)
  then show ?thesis using a opens [OF house_okD(2) [OF ok]]
    by (auto simp: ask_open_def Let_def failed_open_born intro: ask_room_brings [OF ok])
next
  case (Resumes i r w)
  then obtain k x where "hs_handles h k = Some x"
    "ask_room r (\<lambda>res. Pump_Resumed i res w) (bk_resume b x (fst (hs_asked h i)) (snd (hs_asked h i))) h = Some (eo, h0)"
    using a by (auto simp: ask_resume_def Let_def split: pump_pc.splits option.splits)
  then show ?thesis using resumes [OF house_okD(2) [OF ok] house_okD(3) [OF ok]]
    by (auto simp: failed_open_born intro: ask_room_brings [OF ok])
next
  case (Pauses i k)
  then obtain r ob where r: "teardown (sess (hs_sys h) i) = TPausing r" "hs_objs h r = Some ob"
    using a by (auto simp: ask_pause_def split: teardown_pc.splits option.splits)
  have ob: "rm_can_pause ob" "safe_room P Q ob" using house_okD(4,5) [OF ok] r by auto
  obtain x g where g: "rm_pause ob (hs_host h) = (x, g)" by fastforce
  have "P g" "\<And>v. x = Inr v \<Longrightarrow> Q v"
    using safe_roomD(5,6) [OF ob(2) house_okD(2) [OF ok] ob(1)] g by auto
  then show ?thesis using a Pauses r g house_okD(3) [OF ok]
    by (auto simp: ask_pause_def told_def split: sum.splits if_splits intro!: brings_told)
next
  case (Cleans i w)
  then show ?thesis using a
    by (auto simp: ask_clean_def split: pump_pc.splits intro: ask_destroy_kept_brings [OF ok])
next
  case (Late i)
  then show ?thesis using a by (auto simp: ask_late_def split: pump_pc.splits intro: ask_destroy_brings [OF ok])
next
  case (Destroys i)
  then show ?thesis using a by (auto simp: ask_teardown_def split: teardown_pc.splits intro: ask_destroy_brings [OF ok])
next
  case (Reads i w)
  then obtain r ob x g where r: "hs_objs h r = Some ob" "rm_read ob (hs_host h) = (x, g)"
    "eo = Some (Pump_Read i (read_answer w x))" "h0 = put_host g h"
    using a by (auto simp: ask_read_def told_def split: pump_pc.splits option.splits prod.splits)
  have "safe_room P Q ob" using house_okD(4) [OF ok r(1)] by blast
  from safe_roomD(1) [OF this house_okD(2) [OF ok] r(2)] show ?thesis
    using r house_okD(3) [OF ok] by (auto intro!: brings_told)
next
  case (Writes i)
  then obtain r d ob x g where r: "hs_objs h r = Some ob" "rm_write ob d (hs_host h) = (x, g)"
    "eo = Some (Alone i (Feeder_Wrote (is_ok x)))" "h0 = put_host g h"
    using a by (auto simp: ask_write_def told_def split: feeder_pc.splits option.splits prod.splits)
  have "safe_room P Q ob" using house_okD(4) [OF ok r(1)] by blast
  from safe_roomD(2) [OF this house_okD(2) [OF ok] r(2)] show ?thesis
    using r house_okD(3) [OF ok] by (auto intro!: brings_told)
next
  case (Resizes i)
  then obtain r w l ob n where r: "hs_objs h r = Some ob" "eo = None"
    "h0 = put_host (snd (rm_resize ob w l (hs_host h))) (h\<lparr>hs_resized := n\<rparr>)"
    using a by (auto simp: ask_resize_def Let_def split: if_splits option.splits prod.splits)
  have "safe_room P Q ob" using house_okD(4) [OF ok r(1)] by blast
  from safe_roomD(3) [OF this house_okD(2) [OF ok]] show ?thesis
    using r house_okD(3) [OF ok] by (auto simp: brings_def)
next
  case (Expires k)
  then show ?thesis using a by (auto intro: ask_destroy_kept_brings [OF ok])
next
  case (Sweeps k)
  then show ?thesis using a by (auto intro: ask_destroy_kept_brings [OF ok])
qed

lemma step_quiet:
  assumes "house_ok P Q h" "ask b ev h = Some (None, h')"
  shows "house_ok P Q h'"
  using assms(1) ask_brings [OF assms] ask_sys [OF assms(2)] by (simp add: house_ok_def brings_def)

lemma step_takes:
  assumes ok: "house_ok P Q h" and a: "ask b ev h = Some (Some e, h0)" and z: "happen e (hs_sys h) = Some z"
  shows "house_ok P Q (h0\<lparr>hs_sys := z\<rparr>)"
proof -
  note br = ask_brings [OF ok a, unfolded brings_def] and y = house_okD(1) [OF ok]
  have un: "unnamed e" using br by blast
  have births: "births (hs_sys h) (born e) z" by (rule births_happen [OF y z un])
  have "server_reachable z" using y happen_step [OF z] by (rule reachable.after)
  moreover have "obj_ok P Q z r (hs_objs h0 r)" for r
  proof (cases "born e")
    case None
    then show ?thesis using br births house_okD(6) [OF ok, of r]
      by (simp add: births_def obj_ok_def split: option.splits)
  next
    case (Some n)
    obtain q cp where n: "born e = Some (q, cp)" using Some by (cases n) auto
    then obtain ob where ob: "rm_can_pause ob = cp" "safe_room P Q ob" "hs_objs h0 = (hs_objs h)(q := Some ob)" using br by auto
    have z: "rooms z r = RFresh \<longleftrightarrow> r \<noteq> q \<and> rooms (hs_sys h) r = RFresh" "can_pause z = (can_pause (hs_sys h))(q := cp)"
      using births n by (simp_all add: births_def)
    show ?thesis
    proof (cases "r = q")
      case True
      then show ?thesis using ob z by (simp add: obj_ok_def)
    next
      case False
      then show ?thesis using ob z house_okD(6) [OF ok, of r] by (simp add: obj_ok_def split: option.splits)
    qed
  qed
  moreover have "can_pause z r" if "teardown (sess z i) = TPausing r" for i r
  proof (cases "born e")
    case None
    then have "can_pause z = can_pause (hs_sys h)" using births by (simp add: births_def)
    then show ?thesis using pausing_begins [OF happen_step [OF z] that] house_okD(5) [OF ok] by metis
  next
    case (Some n)
    obtain q cp where n: "born e = Some (q, cp)" using Some by (cases n) auto
    then have "calm (hs_sys h) z" using born_calm [OF z] by blast
    then have t: "teardown (sess (hs_sys h) i) = TPausing r" using that by (simp add: calm_def)
    have "rooms (hs_sys h) r = RLive" using held_teardown [OF y, of i r False] t by simp
    moreover have "rooms (hs_sys h) q = RFresh" using births n by (simp add: births_def)
    ultimately have "r \<noteq> q" by (metis room_state.distinct(1))
    then show ?thesis using births n house_okD(5) [OF ok t] by (simp add: births_def)
  qed
  ultimately show ?thesis using br by (simp add: house_ok_def)
qed

lemma step: "house_step b h h' \<Longrightarrow> house_ok P Q h \<Longrightarrow> house_ok P Q h'"
proof (induction rule: house_step.induct)
  case (does ev h h')
  from does(1) show ?case
  proof (cases rule: house_does_cases)
    case quiet
    then show ?thesis using step_quiet [OF does(2)] by blast
  next
    case (takes e h0)
    show ?thesis using step_takes [OF does(2) takes(1,2)] takes(3) by simp
  qed
qed

lemma start:
  assumes "new_server y" "P g"
  shows "house_ok P Q (new_house y g)"
proof -
  obtain w ss where y: "y = init_sys w ss" "\<And>i. \<exists>rc idle act user kept. ss i = new_session rc idle act user kept"
    using assms(1) by (auto simp: new_server_def)
  have "teardown (sess y i) = TNone" for i using y(2) [of i] by (auto simp: y(1) init_sys_def new_session_def)
  moreover have "rooms y = (\<lambda>_. RFresh)" by (simp add: y(1) init_sys_def)
  ultimately show ?thesis using assms
    by (simp add: house_ok_def new_house_def obj_ok_def reachable.start)
qed

end

sublocale guarded_backend \<subseteq> house: invariant "\<lambda>h. \<exists>y g. new_server y \<and> P g \<and> h = new_house y g" "house_step b" "house_ok P Q"
  by unfold_locales (auto intro: start step)

text \<open>Nothing asked, nothing promised: every backend is guarded.\<close>

lemma trivially: "keeps (\<lambda>_. True) m" "safe_room (\<lambda>_. True) (\<lambda>_. True) r"
  by (simp_all add: keeps_def safe_room_def)

interpretation any_backend: guarded_backend b "\<lambda>_. True" "\<lambda>_. True" for b :: "('s, 'k) backend"
  by unfold_locales (simp_all add: trivially)

end
