(* ===== verification/Leases.thy ===== *)
theory Leases
  imports Docker Machine
begin

section \<open>Leases: who a box belongs to\<close>

text \<open>
  The abstract specification of sessions over a backend. A box is what a backend makes a room of, a
  container or a microVM. A lease gives a tenant, a live room or a paused one, its box. A box is
  leased when it is new, the lease goes from a live room to a paused one and back, and ends when the
  box is removed. Only the holder of a lease acts on its box. \<open>strict\<close> tells that the host does what
  it is asked: without it a box may also be left behind, by an \<open>open\<close> that fails half way or by a
  removal that fails.
\<close>

datatype tenant = Live nat | Kept nat

type_synonym 'c leases = "(tenant \<Rightarrow> 'c option) \<times> ('c \<Rightarrow> cstate option)"

definition there :: "cstate option \<Rightarrow> bool" where
  "there v \<longleftrightarrow> v = Some Running \<or> v = Some Frozen"

definition fits :: "tenant \<Rightarrow> cstate option \<Rightarrow> bool" where
  "fits t v \<longleftrightarrow> (case t of Live r \<Rightarrow> v = Some Running | Kept k \<Rightarrow> there v)"

inductive lease_step :: "bool \<Rightarrow> 'c leases \<Rightarrow> 'c leases \<Rightarrow> bool" for strict :: bool where
  idle: "lease_step strict (g, D) (g, D)"
| check_in: "g (Live r) = None \<Longrightarrow> \<not> there (D c) \<Longrightarrow>
    lease_step strict (g, D) (g(Live r \<mapsto> c), D(c \<mapsto> Running))"
| leave_behind: "\<not> strict \<Longrightarrow> \<not> there (D c) \<Longrightarrow> lease_step strict (g, D) (g, D(c := v))"
| move: "g t = Some c \<Longrightarrow> g u = None \<Longrightarrow> fits u v \<Longrightarrow>
    lease_step strict (g, D) (g(t := None, u \<mapsto> c), D(c := v))"
| touch: "g t = Some c \<Longrightarrow> fits t v \<Longrightarrow> lease_step strict (g, D) (g, D(c := v))"
| check_out: "g t = Some c \<Longrightarrow> \<not> there v \<Longrightarrow> lease_step strict (g, D) (g(t := None), D(c := v))"
| abandon: "\<not> strict \<Longrightarrow> g t = Some c \<Longrightarrow> lease_step strict (g, D) (g(t := None), D(c := v))"

text \<open>
  Its invariant: no two tenants share a box, and every tenant has the box it is promised. Under
  \<open>strict\<close>, every box that is there has a tenant.
\<close>

definition leases_ok :: "'c leases \<Rightarrow> bool" where
  "leases_ok l \<longleftrightarrow> (\<forall>t u c. fst l t = Some c \<longrightarrow> fst l u = Some c \<longrightarrow> t = u)
     \<and> (\<forall>t c. fst l t = Some c \<longrightarrow> fits t (snd l c))"

definition all_leased :: "bool \<Rightarrow> 'c leases \<Rightarrow> bool" where
  "all_leased strict l \<longleftrightarrow> (strict \<longrightarrow> (\<forall>c. there (snd l c) \<longrightarrow> (\<exists>t. fst l t = Some c)))"

lemma all_leasedI: "(\<And>c. strict \<Longrightarrow> there (D c) \<Longrightarrow> \<exists>t. g t = Some c) \<Longrightarrow> all_leased strict (g, D)"
  by (simp add: all_leased_def)

lemma all_leasedD: "all_leased strict (g, D) \<Longrightarrow> strict \<Longrightarrow> there (D c) \<Longrightarrow> \<exists>t. g t = Some c"
  by (simp add: all_leased_def)

lemma leases_okI:
  "(\<And>t u c. g t = Some c \<Longrightarrow> g u = Some c \<Longrightarrow> t = u) \<Longrightarrow> (\<And>t c. g t = Some c \<Longrightarrow> fits t (D c)) \<Longrightarrow> leases_ok (g, D)"
  by (simp add: leases_ok_def)

lemma fits_there: "fits t v \<Longrightarrow> there v"
  by (auto simp: fits_def there_def split: tenant.splits)

lemma leases_okD:
  assumes "leases_ok (g, D)"
  shows "g t = Some c \<Longrightarrow> g u = Some c \<Longrightarrow> t = u" "g t = Some c \<Longrightarrow> fits t (D c)" "g t = Some c \<Longrightarrow> there (D c)"
proof -
  show "g t = Some c \<Longrightarrow> g u = Some c \<Longrightarrow> t = u" "g t = Some c \<Longrightarrow> fits t (D c)"
    using assms by (auto simp: leases_ok_def)
  then show "g t = Some c \<Longrightarrow> there (D c)" by (auto intro: fits_there)
qed

lemma there_simps [simp]: "\<not> there None" "\<not> there (Some Removed)" "there (Some Running)"
  by (simp_all add: there_def)

lemma move_ok:
  assumes ok: "leases_ok (g, D)" and g: "g t = Some c" "g u = None" "fits u v"
  shows "leases_ok (g(t := None, u \<mapsto> c), D(c := v))"
proof (rule leases_okI)
  note D = leases_okD [OF ok]
  have t: "w = t" if "g w = Some c" for w using D(1) [OF that g(1)] .
  have new: "(w = u \<and> d = c) \<or> (w \<noteq> u \<and> d \<noteq> c \<and> g w = Some d)" if "(g(t := None, u \<mapsto> c)) w = Some d" for w d
  proof (cases "w = u")
    case True
    then show ?thesis using that by simp
  next
    case False
    then have "w \<noteq> t \<and> g w = Some d" using that by (cases "w = t") simp_all
    then show ?thesis using False t [of w] by blast
  qed
  show "w = x" if "(g(t := None, u \<mapsto> c)) w = Some d" "(g(t := None, u \<mapsto> c)) x = Some d" for w x d
    using new [OF that(1)] new [OF that(2)] D(1) [of w d x] by metis
  show "fits w ((D(c := v)) d)" if "(g(t := None, u \<mapsto> c)) w = Some d" for w d
    using new [OF that] g(3) D(2) [of w d] by (elim disjE conjE) (simp_all add: fun_upd_other)
qed

lemma end_ok:
  assumes ok: "leases_ok (g, D)" and g: "g t = Some c"
  shows "leases_ok (g(t := None), D(c := v))"
proof -
  note D = leases_okD [OF ok]
  have new: "w \<noteq> t \<and> d \<noteq> c \<and> g w = Some d" if "(g(t := None)) w = Some d" for w d
    using that D(1) [OF g, of w] by (cases "w = t") auto
  have inj: "w = x" if "(g(t := None)) w = Some d" "(g(t := None)) x = Some d" for w x d
    using new [OF that(1)] new [OF that(2)] D(1) [of w d x] by metis
  show "leases_ok (g(t := None), D(c := v))"
    by (rule leases_okI, erule (1) inj) (use new D(2) in \<open>auto simp del: fun_upd_apply simp: fun_upd_other\<close>)
qed

lemma lease_keeps: "lease_step strict l m \<Longrightarrow> leases_ok l \<Longrightarrow> leases_ok m"
proof (induction rule: lease_step.induct)
  case (check_in g r D c)
  note D = leases_okD [OF check_in(3)]
  have c: "g t \<noteq> Some c" for t using D(3) [of t c] check_in(2) by auto
  show ?case
    by (rule leases_okI) (use c D(1,2) in \<open>auto simp: fits_def split: if_splits\<close>)
next
  case (leave_behind D c g v)
  note D = leases_okD [OF leave_behind(3)]
  have c: "g t \<noteq> Some c" for t using D(3) [of t c] leave_behind(2) by auto
  show ?case by (rule leases_okI) (use c D(1,2) in auto)
next
  case (touch g t c v D)
  note D = leases_okD [OF touch(3)]
  have c: "w = t" if "g w = Some c" for w using D(1) [OF that touch(1)] .
  show ?case by (rule leases_okI) (use c D(1,2) touch in auto)
qed (auto intro: move_ok end_ok)

lemma leased_keeps: "lease_step strict l m \<Longrightarrow> leases_ok l \<Longrightarrow> all_leased strict l \<Longrightarrow> all_leased strict m"
proof (induction rule: lease_step.induct)
  case (check_in g r D c)
  show ?case
  proof (rule all_leasedI)
    fix d assume "strict" and d: "there ((D(c \<mapsto> Running)) d)"
    show "\<exists>w. (g(Live r \<mapsto> c)) w = Some d"
    proof (cases "d = c")
      case False
      then obtain w where "g w = Some d" using d all_leasedD [OF check_in(4) \<open>strict\<close>, of d] by auto
      then show ?thesis using check_in(1) by (intro exI [of _ w]) auto
    qed auto
  qed
next
  case (move g t c u v D)
  show ?case
  proof (rule all_leasedI)
    fix d assume "strict" and d: "there ((D(c := v)) d)"
    show "\<exists>w. (g(t := None, u \<mapsto> c)) w = Some d"
    proof (cases "d = c")
      case False
      then obtain w where "g w = Some d" using d all_leasedD [OF move(5) \<open>strict\<close>, of d] by auto
      then show ?thesis using False move(1,2) by (intro exI [of _ w]) auto
    qed auto
  qed
next
  case (check_out g t c v D)
  show ?case
  proof (rule all_leasedI)
    fix d assume "strict" and d: "there ((D(c := v)) d)"
    then have "d \<noteq> c" using check_out(2) by auto
    moreover from this obtain w where "g w = Some d" using d all_leasedD [OF check_out(4) \<open>strict\<close>, of d] by auto
    ultimately show "\<exists>w. (g(t := None)) w = Some d" using check_out(1) by (intro exI [of _ w]) auto
  qed
next
  case (touch g t c v D)
  show ?case
  proof (rule all_leasedI)
    fix d assume "strict" and "there ((D(c := v)) d)"
    then show "\<exists>w. g w = Some d" using touch(1) all_leasedD [OF touch(4) \<open>strict\<close>, of d] by (cases "d = c") auto
  qed
qed (simp_all add: all_leased_def)

definition no_leases :: "'c leases \<Rightarrow> bool" where
  "no_leases l \<longleftrightarrow> fst l = (\<lambda>_. None) \<and> snd l = (\<lambda>_. None)"

interpretation leasing: relative_invariant no_leases "lease_step strict" leases_ok "all_leased strict" for strict
proof
  show "leases_ok l" "all_leased strict l" if "no_leases l" for l
    using that by (simp_all add: no_leases_def leases_ok_def all_leased_def)
qed (fact lease_keeps leased_keeps)+

end
