(* ===== verification/Renting.thy ===== *)
theory Renting
  imports House_Fates House_Safety Leases
begin

section \<open>Backends that rent out boxes\<close>

text \<open>
  What a backend must promise for the sessions over it to implement the leases: the locale \<open>renting\<close>,
  over what a ledger reads off the host, its boxes and the objects that the backend has made. Inside
  it, every event of a house is a step of a lease.
\<close>

subsection \<open>The leases of a house\<close>

text \<open>
  \<open>is_room ob c r\<close>: the room \<open>r\<close> is the object \<open>ob\<close> of the backend, over the box \<open>c\<close>. An object is spent
  once it has been told to destroy its box.
\<close>

record ('s, 'k, 'o, 'c) ledger =
  is_room :: "'o \<Rightarrow> 'c \<Rightarrow> ('s, 'k) room_ops \<Rightarrow> bool"
  kept_box :: "'k \<Rightarrow> 'c"
  box_of :: "'s \<Rightarrow> 'c \<Rightarrow> cstate option"
  minted :: "'s \<Rightarrow> 'o set"
  retired :: "'s \<Rightarrow> 'o set"

text \<open>\<open>f\<close>: which object of the backend, and which box, a room is.\<close>

definition tenant_of :: "('s, 'k, 'o, 'c) ledger \<Rightarrow> (rid \<Rightarrow> 'o \<times> 'c) \<Rightarrow> ('s, 'k) house \<Rightarrow> tenant \<Rightarrow> 'c option" where
  "tenant_of L f h t = (case t of
     Live r \<Rightarrow> if rooms (hs_sys h) r = RLive then Some (snd (f r)) else None
   | Kept k \<Rightarrow> if kepts (hs_sys h) k = KPaused then map_option (kept_box L) (hs_handles h k) else None)"

definition leases_of :: "('s, 'k, 'o, 'c) ledger \<Rightarrow> (rid \<Rightarrow> 'o \<times> 'c) \<Rightarrow> ('s, 'k) house \<Rightarrow> 'c leases" where
  "leases_of L f h = (tenant_of L f h, box_of L (hs_host h))"

definition bound :: "('s, 'k, 'o, 'c) ledger \<Rightarrow> (rid \<Rightarrow> 'o \<times> 'c) \<Rightarrow> ('s, 'k) house \<Rightarrow> bool" where
  "bound L f h \<longleftrightarrow> server_reachable (hs_sys h)
     \<and> (\<forall>r. rooms (hs_sys h) r \<noteq> RFresh \<longrightarrow> (\<exists>ob. hs_objs h r = Some ob \<and> is_room L (fst (f r)) (snd (f r)) ob)
          \<and> fst (f r) \<in> minted L (hs_host h))
     \<and> (\<forall>r q. rooms (hs_sys h) r \<noteq> RFresh \<longrightarrow> rooms (hs_sys h) q \<noteq> RFresh \<longrightarrow> fst (f r) = fst (f q) \<longrightarrow> r = q)
     \<and> (\<forall>r. rooms (hs_sys h) r = RLive \<longrightarrow> fst (f r) \<notin> retired L (hs_host h))
     \<and> retired L (hs_host h) \<subseteq> minted L (hs_host h)
     \<and> (\<forall>k. kepts (hs_sys h) k = KPaused \<longrightarrow> hs_handles h k \<noteq> None)
     \<and> (\<forall>r. rooms (hs_sys h) r = RFresh \<longrightarrow> hs_objs h r = None)"

lemma boundD:
  assumes "bound L f h"
  shows "server_reachable (hs_sys h)"
    "rooms (hs_sys h) r \<noteq> RFresh \<Longrightarrow> (\<exists>ob. hs_objs h r = Some ob \<and> is_room L (fst (f r)) (snd (f r)) ob) \<and> fst (f r) \<in> minted L (hs_host h)"
    "rooms (hs_sys h) r \<noteq> RFresh \<Longrightarrow> rooms (hs_sys h) q \<noteq> RFresh \<Longrightarrow> fst (f r) = fst (f q) \<Longrightarrow> r = q"
    "rooms (hs_sys h) r = RLive \<Longrightarrow> fst (f r) \<notin> retired L (hs_host h)"
    "n \<in> retired L (hs_host h) \<Longrightarrow> n \<in> minted L (hs_host h)"
    "kepts (hs_sys h) k = KPaused \<Longrightarrow> \<exists>c. hs_handles h k = Some c"
    "rooms (hs_sys h) r = RFresh \<Longrightarrow> hs_objs h r = None"
  using assms unfolding bound_def by blast+

lemma boundI:
  assumes "server_reachable (hs_sys h)"
    "\<And>r. rooms (hs_sys h) r \<noteq> RFresh \<Longrightarrow> (\<exists>ob. hs_objs h r = Some ob \<and> is_room L (fst (f r)) (snd (f r)) ob) \<and> fst (f r) \<in> minted L (hs_host h)"
    "\<And>r q. rooms (hs_sys h) r \<noteq> RFresh \<Longrightarrow> rooms (hs_sys h) q \<noteq> RFresh \<Longrightarrow> fst (f r) = fst (f q) \<Longrightarrow> r = q"
    "\<And>r. rooms (hs_sys h) r = RLive \<Longrightarrow> fst (f r) \<notin> retired L (hs_host h)"
    "\<And>n. n \<in> retired L (hs_host h) \<Longrightarrow> n \<in> minted L (hs_host h)"
    "\<And>k. kepts (hs_sys h) k = KPaused \<Longrightarrow> \<exists>c. hs_handles h k = Some c"
    "\<And>r. rooms (hs_sys h) r = RFresh \<Longrightarrow> hs_objs h r = None"
  shows "bound L f h"
  using assms unfolding bound_def by auto

text \<open>No room is born: what was bound stays so.\<close>

lemma bound_on:
  assumes b: "bound L f h" and y: "server_reachable (hs_sys h')"
    and rooms: "\<And>r. rooms (hs_sys h') r = RFresh \<longleftrightarrow> rooms (hs_sys h) r = RFresh"
    and live: "\<And>r. rooms (hs_sys h') r = RLive \<Longrightarrow> rooms (hs_sys h) r = RLive \<and> fst (f r) \<notin> retired L (hs_host h')"
    and kept: "\<And>k. kepts (hs_sys h') k = KPaused \<Longrightarrow> \<exists>c. hs_handles h' k = Some c"
    and objs: "hs_objs h' = hs_objs h" "minted L (hs_host h') = minted L (hs_host h)"
    and spent: "\<And>n. n \<in> retired L (hs_host h') \<Longrightarrow> n \<in> minted L (hs_host h)"
  shows "bound L f h'"
proof (rule boundI [OF y])
  show "(\<exists>ob. hs_objs h' r = Some ob \<and> is_room L (fst (f r)) (snd (f r)) ob) \<and> fst (f r) \<in> minted L (hs_host h')"
    if "rooms (hs_sys h') r \<noteq> RFresh" for r
    using that boundD(2) [OF b, of r] rooms [of r] objs by simp
  show "r = q" if "rooms (hs_sys h') r \<noteq> RFresh" "rooms (hs_sys h') q \<noteq> RFresh" "fst (f r) = fst (f q)" for r q
    using that boundD(3) [OF b, of r q] rooms by simp
  show "hs_objs h' r = None" if "rooms (hs_sys h') r = RFresh" for r
    using that boundD(7) [OF b, of r] rooms [of r] objs by simp
qed (use live kept spent objs in auto)

text \<open>A room is born as a new object of the backend.\<close>

lemma bound_born:
  assumes b: "bound L f h" and new: "is_room L n c ob" "n \<notin> minted L (hs_host h)" and y: "server_reachable (hs_sys h')"
    and rooms: "rooms (hs_sys h) r = RFresh" "rooms (hs_sys h') = (rooms (hs_sys h))(r := RLive)"
    and kept: "\<And>k. kepts (hs_sys h') k = KPaused \<Longrightarrow> kepts (hs_sys h) k = KPaused"
    and objs: "hs_objs h' = (hs_objs h)(r := Some ob)" "hs_handles h' = hs_handles h"
      "minted L (hs_host h') = insert n (minted L (hs_host h))" "retired L (hs_host h') = retired L (hs_host h)"
  shows "bound L (f(r := (n, c))) h'"
proof (rule boundI [OF y])
  let ?f = "f(r := (n, c))"
  note old = boundD [OF b]
  show "(\<exists>ob. hs_objs h' q = Some ob \<and> is_room L (fst (?f q)) (snd (?f q)) ob) \<and> fst (?f q) \<in> minted L (hs_host h')"
    if "rooms (hs_sys h') q \<noteq> RFresh" for q
  proof (cases "q = r")
    case True
    then show ?thesis using new(1) by (simp add: objs)
  next
    case False
    then show ?thesis using old(2) [of q] that by (simp add: objs rooms)
  qed
  show "p = q" if "rooms (hs_sys h') p \<noteq> RFresh" "rooms (hs_sys h') q \<noteq> RFresh" "fst (?f p) = fst (?f q)" for p q
    using that new(2) old(2) [of p] old(2) [of q] old(3) [of p q] rooms by (cases "p = r"; cases "q = r") auto
  show "fst (?f q) \<notin> retired L (hs_host h')" if "rooms (hs_sys h') q = RLive" for q
    using that new(2) old(4) [of q] old(5) [of n] rooms by (cases "q = r") (auto simp: objs)
  show "m \<in> minted L (hs_host h')" if "m \<in> retired L (hs_host h')" for m
    using that old(5) [of m] by (simp add: objs)
  show "\<exists>d. hs_handles h' k = Some d" if "kepts (hs_sys h') k = KPaused" for k
    using old(6) [OF kept [OF that]] by (simp add: objs)
  show "hs_objs h' q = None" if "rooms (hs_sys h') q = RFresh" for q
    using that old(7) [of q] rooms by (cases "q = r") (auto simp: objs)
qed

text \<open>What a step of the house is to the leases.\<close>

definition implements ::
  "('s, 'k, 'o, 'c) ledger \<Rightarrow> bool \<Rightarrow> (rid \<Rightarrow> 'o \<times> 'c) \<Rightarrow> ('s, 'k) house \<Rightarrow> ('s, 'k) house \<Rightarrow> bool" where
  "implements L strict f h h' \<longleftrightarrow> (\<exists>f'. bound L f' h' \<and> lease_step strict (leases_of L f h) (leases_of L f' h'))"

lemma implementsI: "bound L f' h' \<Longrightarrow> lease_step strict (leases_of L f h) (leases_of L f' h') \<Longrightarrow> implements L strict f h h'"
  unfolding implements_def by blast

text \<open>What the calls leave of the other parts of a house.\<close>

definition apart :: "('s, 'k, 'o, 'c) ledger \<Rightarrow> ('s, 'k) house \<Rightarrow> ('s, 'k) house \<Rightarrow> bool" where
  "apart L h h' \<longleftrightarrow> server_reachable (hs_sys h') \<and> hs_objs h' = hs_objs h \<and> hs_handles h' = hs_handles h
     \<and> minted L (hs_host h') = minted L (hs_host h) \<and> retired L (hs_host h') = retired L (hs_host h)"

lemma tenant_simps [simp]:
  "tenant_of L f h (Live r) = (if rooms (hs_sys h) r = RLive then Some (snd (f r)) else None)"
  "tenant_of L f h (Kept k) = (if kepts (hs_sys h) k = KPaused then map_option (kept_box L) (hs_handles h k) else None)"
  by (simp_all add: tenant_of_def)

lemma tenant_eqI: "(\<And>r. g (Live r) = g' (Live r)) \<Longrightarrow> (\<And>k. g (Kept k) = g' (Kept k)) \<Longrightarrow> g = g'"
proof
  fix t assume "\<And>r. g (Live r) = g' (Live r)" "\<And>k. g (Kept k) = g' (Kept k)"
  then show "g t = g' t" by (cases t) auto
qed

lemma bound_apart:
  assumes "bound L f h" "apart L h h'" "rooms (hs_sys h') = rooms (hs_sys h)"
    and "\<And>k. kepts (hs_sys h') k = KPaused \<Longrightarrow> kepts (hs_sys h) k = KPaused"
  shows "bound L f h'"
  by (rule bound_on [OF assms(1)])
    (use assms boundD(4-6) [OF assms(1)] in \<open>auto simp: apart_def\<close>)

lemma same_tenants:
  "settled (hs_sys h) (hs_sys h') \<Longrightarrow> hs_handles h' = hs_handles h \<Longrightarrow> tenant_of L f h' = tenant_of L f h"
  by (rule tenant_eqI) (simp_all add: settled_def)

lemma implements_idle:
  assumes "bound L f h" "apart L h h'" "settled (hs_sys h) (hs_sys h')" "box_of L (hs_host h') = box_of L (hs_host h)"
  shows "implements L strict f h h'"
proof -
  have "bound L f h'" by (rule bound_apart [OF assms(1,2)]) (use assms(3) in \<open>simp_all add: settled_def\<close>)
  moreover have "leases_of L f h' = leases_of L f h"
    using same_tenants [OF assms(3)] assms(2,4) by (simp add: leases_of_def apart_def)
  ultimately show ?thesis by (intro implementsI) (auto simp: leases_of_def intro: lease_step.idle)
qed

lemma implements_touch:
  assumes "bound L f h" "apart L h h'" "settled (hs_sys h) (hs_sys h')"
    and "kepts (hs_sys h) k = KPaused" "hs_handles h k = Some x" "box_of L (hs_host h') = (box_of L (hs_host h))(kept_box L x \<mapsto> Running)"
  shows "implements L strict f h h'"
proof -
  have "bound L f h'" by (rule bound_apart [OF assms(1,2)]) (use assms(3) in \<open>simp_all add: settled_def\<close>)
  moreover have "leases_of L f h' = (tenant_of L f h, (box_of L (hs_host h))(kept_box L x := Some Running))"
    using same_tenants [OF assms(3)] assms(2,6) by (simp add: leases_of_def apart_def)
  moreover have "lease_step strict (leases_of L f h) (tenant_of L f h, (box_of L (hs_host h))(kept_box L x := Some Running))"
    unfolding leases_of_def by (rule lease_step.touch [of _ "Kept k"]) (use assms(4,5) in \<open>simp_all add: fits_def\<close>)
  ultimately show ?thesis unfolding implements_def by auto
qed

lemma implements_stray:
  assumes "bound L f h" "apart L h h'" "settled (hs_sys h) (hs_sys h')"
    and "\<not> strict" "\<not> there (box_of L (hs_host h) c)" "box_of L (hs_host h') = (box_of L (hs_host h))(c := v)"
  shows "implements L strict f h h'"
proof -
  have "bound L f h'" by (rule bound_apart [OF assms(1,2)]) (use assms(3) in \<open>simp_all add: settled_def\<close>)
  moreover have "leases_of L f h' = (tenant_of L f h, (box_of L (hs_host h))(c := v))"
    using same_tenants [OF assms(3)] assms(2,6) by (simp add: leases_of_def apart_def)
  ultimately show ?thesis using assms(4,5) by (intro implementsI) (auto simp: leases_of_def intro: lease_step.leave_behind)
qed

lemma implements_check_in:
  assumes b: "bound L f h" and new: "is_room L n c ob" "n \<notin> minted L (hs_host h)" and y: "server_reachable (hs_sys h')"
    and rooms: "rooms (hs_sys h) r = RFresh" "rooms (hs_sys h') = (rooms (hs_sys h))(r := RLive)"
      "kepts (hs_sys h') = kepts (hs_sys h)"
    and objs: "hs_objs h' = (hs_objs h)(r := Some ob)" "hs_handles h' = hs_handles h"
      "minted L (hs_host h') = insert n (minted L (hs_host h))" "retired L (hs_host h') = retired L (hs_host h)"
    and box: "\<not> there (box_of L (hs_host h) c)" "box_of L (hs_host h') = (box_of L (hs_host h))(c \<mapsto> Running)"
  shows "implements L strict f h h'"
proof -
  let ?f = "f(r := (n, c))"
  have "bound L ?f h'" by (rule bound_born [OF b new y rooms(1,2) _ objs]) (simp add: rooms(3))
  moreover have "tenant_of L ?f h' = (tenant_of L f h)(Live r \<mapsto> c)"
    by (rule tenant_eqI) (simp_all add: rooms objs)
  moreover have "lease_step strict (tenant_of L f h, box_of L (hs_host h)) ((tenant_of L f h)(Live r \<mapsto> c), (box_of L (hs_host h))(c \<mapsto> Running))"
    by (rule lease_step.check_in) (simp_all add: rooms(1) box(1))
  ultimately show ?thesis unfolding implements_def leases_of_def using box(2) by auto
qed

lemma implements_resume:
  assumes b: "bound L f h" and new: "is_room L n (kept_box L x) ob" "n \<notin> minted L (hs_host h)" and y: "server_reachable (hs_sys h')"
    and rooms: "rooms (hs_sys h) r = RFresh" "rooms (hs_sys h') = (rooms (hs_sys h))(r := RLive)"
      "kepts (hs_sys h') = (kepts (hs_sys h))(k := KResumed)" "kepts (hs_sys h) k = KPaused"
    and objs: "hs_objs h' = (hs_objs h)(r := Some ob)" "hs_handles h' = hs_handles h"
      "minted L (hs_host h') = insert n (minted L (hs_host h))" "retired L (hs_host h') = retired L (hs_host h)"
    and box: "hs_handles h k = Some x" "box_of L (hs_host h') = (box_of L (hs_host h))(kept_box L x \<mapsto> Running)"
  shows "implements L strict f h h'"
proof -
  let ?f = "f(r := (n, kept_box L x))"
  have "bound L ?f h'" by (rule bound_born [OF b new y rooms(1,2) _ objs]) (simp add: rooms(3) split: if_splits)
  moreover have "tenant_of L ?f h' = (tenant_of L f h)(Kept k := None, Live r \<mapsto> kept_box L x)"
    by (rule tenant_eqI) (simp_all add: rooms objs)
  moreover have "lease_step strict (tenant_of L f h, box_of L (hs_host h))
      ((tenant_of L f h)(Kept k := None, Live r \<mapsto> kept_box L x), (box_of L (hs_host h))(kept_box L x := Some Running))"
    by (rule lease_step.move) (simp_all add: rooms box fits_def)
  ultimately show ?thesis unfolding implements_def leases_of_def using box(2) by auto
qed


lemma implements_pause:
  assumes b: "bound L f h" "server_reachable (hs_sys h')" and ok: "leases_ok (leases_of L f h)"
    and rooms: "rooms (hs_sys h) r = RLive" "rooms (hs_sys h') = (rooms (hs_sys h))(r := RPaused k)"
      "kepts (hs_sys h) k = KFresh" "kepts (hs_sys h') = (kepts (hs_sys h))(k := KPaused)"
    and objs: "hs_objs h' = hs_objs h" "hs_handles h' = (hs_handles h)(k := Some x)" "kept_box L x = snd (f r)"
      "minted L (hs_host h') = minted L (hs_host h)" "retired L (hs_host h') = retired L (hs_host h)"
    and box: "box_of L (hs_host h') = box_of L (hs_host h) \<or> box_of L (hs_host h') = (box_of L (hs_host h))(snd (f r) \<mapsto> Frozen)"
  shows "implements L strict f h h'"
proof (rule implementsI)
  let ?c = "snd (f r)" and ?D = "box_of L (hs_host h)"
  show "bound L f h'"
    by (rule bound_on [OF b]) (use rooms boundD(4-6) [OF b(1)] in \<open>auto simp: objs split: if_splits\<close>)
  have "fits (Live r) (?D ?c)"
    using leases_okD(2) [OF ok [unfolded leases_of_def], of "Live r" ?c] rooms(1) by simp
  then have v: "fits (Kept k) (box_of L (hs_host h') ?c)" "box_of L (hs_host h') = ?D(?c := box_of L (hs_host h') ?c)"
    using box by (auto simp: fits_def there_def)
  have "tenant_of L f h' = (tenant_of L f h)(Live r := None, Kept k \<mapsto> ?c)"
    by (rule tenant_eqI) (simp_all add: rooms objs)
  moreover have "lease_step strict (tenant_of L f h, ?D) ((tenant_of L f h)(Live r := None, Kept k \<mapsto> ?c), ?D(?c := box_of L (hs_host h') ?c))"
    by (rule lease_step.move [OF _ _ v(1)]) (simp_all add: rooms)
  ultimately show "lease_step strict (leases_of L f h) (leases_of L f h')" unfolding leases_of_def using v(2) by simp
qed

lemma implements_destroy:
  assumes b: "bound L f h" "server_reachable (hs_sys h')"
    and rooms: "rooms (hs_sys h) r = RLive" "rooms (hs_sys h') = (rooms (hs_sys h))(r := v)" "v \<noteq> RLive" "v \<noteq> RFresh"
      "kepts (hs_sys h') = kepts (hs_sys h)"
    and objs: "hs_objs h' = hs_objs h" "hs_handles h' = hs_handles h" "minted L (hs_host h') = minted L (hs_host h)"
      "retired L (hs_host h') \<subseteq> insert (fst (f r)) (retired L (hs_host h))"
    and box: "box_of L (hs_host h') = (box_of L (hs_host h))(snd (f r) := u)" "strict \<Longrightarrow> \<not> there u"
  shows "implements L strict f h h'"
proof (rule implementsI)
  let ?c = "snd (f r)" and ?D = "box_of L (hs_host h)"
  have fr: "fst (f r) \<in> minted L (hs_host h)" using boundD(2) [OF b(1), of r] rooms(1) by simp
  have apart: "fst (f q) \<noteq> fst (f r)" if "q \<noteq> r" "rooms (hs_sys h) q = RLive" for q
    using that boundD(3) [OF b(1), of q r] rooms(1) by auto
  show "bound L f h'"
  proof (rule bound_on [OF b])
    show "rooms (hs_sys h) q = RLive \<and> fst (f q) \<notin> retired L (hs_host h')" if "rooms (hs_sys h') q = RLive" for q
      using that apart [of q] boundD(4) [OF b(1), of q] rooms objs(4) by (auto split: if_splits)
    show "n \<in> minted L (hs_host h)" if "n \<in> retired L (hs_host h')" for n
      using that objs(4) fr boundD(5) [OF b(1), of n] by auto
  qed (use rooms boundD(6) [OF b(1)] in \<open>auto simp: objs\<close>)
  have t: "tenant_of L f h' = (tenant_of L f h)(Live r := None)"
    by (rule tenant_eqI) (use rooms in \<open>simp_all add: objs\<close>)
  have l: "tenant_of L f h (Live r) = Some ?c" by (simp add: rooms(1))
  show "lease_step strict (leases_of L f h) (leases_of L f h')"
    using box lease_step.check_out [where g = "tenant_of L f h", OF l, of u] lease_step.abandon [where g = "tenant_of L f h", OF _ l, of strict _ u]
    unfolding leases_of_def t by (cases strict) auto
qed

lemma implements_kept:
  assumes b: "bound L f h" "apart L h h'"
    and kept: "kepts (hs_sys h) k = KPaused" "hs_handles h k = Some x"
    and rooms: "rooms (hs_sys h') = rooms (hs_sys h)"
      "kepts (hs_sys h') = (if good then (kepts (hs_sys h))(k := KDestroyed) else kepts (hs_sys h))"
    and box: "\<not> there v \<and> good \<and> box_of L (hs_host h') = (box_of L (hs_host h))(kept_box L x := v)
      \<or> (good \<longrightarrow> \<not> strict) \<and> box_of L (hs_host h') = box_of L (hs_host h)"
  shows "implements L strict f h h'"
proof (cases good)
  case False
  then show ?thesis using implements_idle [OF b] rooms box by (simp add: settled_def)
next
  case True
  have h: "hs_handles h' = hs_handles h" using b(2) by (simp add: apart_def)
  show ?thesis
  proof (rule implementsI)
    show "bound L f h'" by (rule bound_apart [OF b]) (use rooms True in \<open>auto split: if_splits\<close>)
    have t: "tenant_of L f h' = (tenant_of L f h)(Kept k := None)"
      by (rule tenant_eqI) (simp_all add: rooms True h)
    have l: "tenant_of L f h (Kept k) = Some (kept_box L x)" by (simp add: kept)
    show "lease_step strict (leases_of L f h) (leases_of L f h')"
      using box True lease_step.check_out [where g = "tenant_of L f h", OF l, of v]
        lease_step.abandon [where g = "tenant_of L f h", OF _ l, of strict "box_of L (hs_host h)" "box_of L (hs_host h) (kept_box L x)"]
      unfolding leases_of_def t by auto
  qed
qed

lemma told_eq [simp]: "told e h = Some (eo, h0) \<longleftrightarrow> eo = Some e \<and> h0 = h"
  by (auto simp: told_def)

lemma after_sys [simp]:
  "hs_objs (h\<lparr>hs_sys := z\<rparr>) = hs_objs h" "hs_host (h\<lparr>hs_sys := z\<rparr>) = hs_host h" "hs_handles (h\<lparr>hs_sys := z\<rparr>) = hs_handles h"
  by simp_all

subsection \<open>The contract\<close>

text \<open>What a call changes of the books: nothing; nothing but a box; a new object and a box.\<close>

definition rebox :: "('s, 'k, 'o, 'c) ledger \<Rightarrow> 's \<Rightarrow> ('c \<Rightarrow> cstate option) \<Rightarrow> 's \<Rightarrow> bool" where
  "rebox L s D t \<longleftrightarrow> minted L t = minted L s \<and> retired L t = retired L s \<and> box_of L t = D"

definition checks_in :: "('s, 'k, 'o, 'c) ledger \<Rightarrow> 's \<Rightarrow> 'c \<Rightarrow> ('s, 'k) room_ops \<Rightarrow> 's \<Rightarrow> bool" where
  "checks_in L s c r t \<longleftrightarrow> (\<exists>n. is_room L n c r \<and> n \<notin> minted L s \<and> minted L t = insert n (minted L s)
     \<and> retired L t = retired L s \<and> box_of L t = (box_of L s)(c \<mapsto> Running))"

text \<open>\<open>strict\<close>: the host does what it is asked. What the rooms of a ledger promise:\<close>

locale room_books =
  fixes P :: "'s \<Rightarrow> bool" and L :: "('s, 'k, 'o, 'c) ledger" and strict :: bool
  assumes freezes: "is_room L n c r \<Longrightarrow> P s \<Longrightarrow> rm_can_pause r \<Longrightarrow> rm_pause r s = (Inr k, t) \<Longrightarrow>
      kept_box L k = c \<and> (rebox L s (box_of L s) t \<or> rebox L s ((box_of L s)(c \<mapsto> Frozen)) t)"
    and freezes_fail: "is_room L n c r \<Longrightarrow> P s \<Longrightarrow> rm_can_pause r \<Longrightarrow> rm_pause r s = (Inl e, t) \<Longrightarrow>
      rebox L s (box_of L s) t \<and> (strict \<longrightarrow> is_exception e)"
    and empties: "is_room L n c r \<Longrightarrow> P s \<Longrightarrow> n \<notin> retired L s \<Longrightarrow> rm_destroy r s = Some (st, t) \<Longrightarrow>
      minted L t = minted L s \<and> retired L t \<subseteq> insert n (retired L s)
        \<and> (\<exists>v. box_of L t = (box_of L s)(c := v) \<and> (strict \<longrightarrow> \<not> there v))"
    and reads: "is_room L n c r \<Longrightarrow> P s \<Longrightarrow> rm_read r s = (a, t) \<Longrightarrow> rebox L s (box_of L s) t"
    and writes: "is_room L n c r \<Longrightarrow> P s \<Longrightarrow> rm_write r d s = (u, t) \<Longrightarrow> rebox L s (box_of L s) t"
    and resizes: "is_room L n c r \<Longrightarrow> P s \<Longrightarrow> rebox L s (box_of L s) (snd (rm_resize r w l s))"

text \<open>\<open>fresh\<close>: the names that the backend gives to new boxes are not in use.\<close>

locale renting = guarded_backend b P Q + room_books P L strict
  for b :: "('s, 'k) backend" and P :: "'s \<Rightarrow> bool" and Q :: "'k \<Rightarrow> bool" and L :: "('s, 'k, 'o, 'c) ledger" and strict :: bool +
  fixes fresh :: bool
  assumes lets: "fresh \<Longrightarrow> P s \<Longrightarrow> bk_open b rc w l s = (Inr r, t) \<Longrightarrow> \<exists>c. \<not> there (box_of L s c) \<and> checks_in L s c r t"
    and lets_fail: "fresh \<Longrightarrow> P s \<Longrightarrow> bk_open b rc w l s = (Inl e, t) \<Longrightarrow>
      rebox L s (box_of L s) t \<or> (\<exists>c v. \<not> strict \<and> \<not> there (box_of L s c) \<and> rebox L s ((box_of L s)(c := v)) t)"
    and relets: "P s \<Longrightarrow> Q k \<Longrightarrow> bk_resume b k w l s = (Inr r, t) \<Longrightarrow> checks_in L s (kept_box L k) r t"
    and relets_fail: "P s \<Longrightarrow> Q k \<Longrightarrow> bk_resume b k w l s = (Inl e, t) \<Longrightarrow>
      rebox L s (box_of L s) t \<or> rebox L s ((box_of L s)(kept_box L k \<mapsto> Running)) t"
    and clears: "P s \<Longrightarrow> Q k \<Longrightarrow> bk_destroy_kept b k s = (x, t) \<Longrightarrow>
      (\<exists>v. \<not> there v \<and> is_ok x \<and> rebox L s ((box_of L s)(kept_box L k := v)) t)
        \<or> (is_ok x \<longrightarrow> \<not> strict) \<and> rebox L s (box_of L s) t"
begin

lemma opens_implements:
  assumes fresh and ok: "house_ok P Q h" and b: "bound L f h"
    and a: "ask_open b i r w h = Some (Some e, h0)" and z: "happen e (hs_sys h) = Some z" and y: "server_reachable z"
  shows "implements L strict f h (h0\<lparr>hs_sys := z\<rparr>)"
proof -
  let ?call = "bk_open b (room_cfg (sess (hs_sys h) i)) (fst (hs_asked h i)) (snd (hs_asked h i))"
  obtain x t where x: "?call (hs_host h) = (x, t)" by fastforce
  show ?thesis
  proof (cases x)
    case (Inr ob)
    obtain c n where c: "\<not> there (box_of L (hs_host h) c)" "is_room L n c ob" "n \<notin> minted L (hs_host h)"
      "minted L t = insert n (minted L (hs_host h))" "retired L t = retired L (hs_host h)"
      "box_of L t = (box_of L (hs_host h))(c \<mapsto> Running)"
      using lets [OF \<open>fresh\<close> house_okD(2) [OF ok] x [unfolded Inr]] unfolding checks_in_def by blast
    have e: "e = Pump_Opened i (Opened r (rm_can_pause ob)) w" "h0 = put_obj r ob (put_host t h)"
      using a x Inr by (auto simp: ask_open_def ask_room_def Let_def)
    note z = fate_opened(1) [OF z [unfolded e happen.simps]]
    show ?thesis
      by (rule implements_check_in [OF b c(2,3), of _ r]) (use y z c in \<open>simp_all add: e\<close>)
  next
    case (Inl er)
    have e: "e = Pump_Opened i (failed_open er) w" "h0 = put_host t h"
      using a x Inl by (auto simp: ask_open_def ask_room_def Let_def)
    have s: "settled (hs_sys h) z" using settled_quiet(15) z by (simp add: e)
    have ap: "apart L h (h0\<lparr>hs_sys := z\<rparr>)" if "rebox L (hs_host h) D t" for D
      using y that by (simp add: apart_def e rebox_def)
    from lets_fail [OF \<open>fresh\<close> house_okD(2) [OF ok] x [unfolded Inl]] show ?thesis
    proof (elim disjE exE conjE)
      assume c: "rebox L (hs_host h) (box_of L (hs_host h)) t"
      then show ?thesis by (intro implements_idle [OF b ap [OF c]]) (simp_all add: e s rebox_def)
    next
      fix c v assume c: "\<not> strict" "\<not> there (box_of L (hs_host h) c)" "rebox L (hs_host h) ((box_of L (hs_host h))(c := v)) t"
      then show ?thesis
        by (intro implements_stray [OF b ap [OF c(3)], of _ c v]) (simp_all add: e s rebox_def)
    qed
  qed
qed

lemma resumes_implements:
  assumes ok: "house_ok P Q h" and b: "bound L f h"
    and a: "ask_resume b i r w h = Some (Some e, h0)" and z: "happen e (hs_sys h) = Some z" and y: "server_reachable z"
  shows "implements L strict f h (h0\<lparr>hs_sys := z\<rparr>)"
proof -
  obtain k k' where k: "pump (sess (hs_sys h) i) = PResuming k" "hs_handles h k = Some k'"
    and ask: "ask_room r (\<lambda>res. Pump_Resumed i res w) (bk_resume b k' (fst (hs_asked h i)) (snd (hs_asked h i))) h = Some (Some e, h0)"
    using a by (auto simp: ask_resume_def Let_def split: pump_pc.splits option.splits)
  obtain x t where x: "bk_resume b k' (fst (hs_asked h i)) (snd (hs_asked h i)) (hs_host h) = (x, t)" by fastforce
  have kp: "kepts (hs_sys h) k = KPaused"
    using kept_ok_paused [OF kepts.everywhere [OF boundD(1) [OF b]], of k "Claimed i"] k(1) by simp
  note laws = house_okD(2) [OF ok] house_okD(3) [OF ok k(2)]
  show ?thesis
  proof (cases x)
    case (Inr ob)
    obtain n where c: "is_room L n (kept_box L k') ob" "n \<notin> minted L (hs_host h)"
      "minted L t = insert n (minted L (hs_host h))" "retired L t = retired L (hs_host h)"
      "box_of L t = (box_of L (hs_host h))(kept_box L k' \<mapsto> Running)"
      using relets [OF laws x [unfolded Inr]] unfolding checks_in_def by blast
    have e: "e = Pump_Resumed i (Opened r (rm_can_pause ob)) w" "h0 = put_obj r ob (put_host t h)"
      using ask x Inr by (auto simp: ask_room_def)
    note z = fate_opened(2) [OF z [unfolded e happen.simps] k(1)]
    show ?thesis
      by (rule implements_resume [OF b c(1,2), of _ r k]) (use y z c kp k(2) in \<open>simp_all add: e\<close>)
  next
    case (Inl er)
    have e: "e = Pump_Resumed i (failed_open er) w" "h0 = put_host t h"
      using ask x Inl by (auto simp: ask_room_def)
    have s: "settled (hs_sys h) z" using settled_quiet(16) z by (simp add: e)
    have ap: "apart L h (h0\<lparr>hs_sys := z\<rparr>)" if "rebox L (hs_host h) D t" for D
      using y that by (simp add: apart_def e rebox_def)
    from relets_fail [OF laws x [unfolded Inl]] show ?thesis
    proof
      assume c: "rebox L (hs_host h) (box_of L (hs_host h)) t"
      then show ?thesis by (intro implements_idle [OF b ap [OF c]]) (simp_all add: e s rebox_def)
    next
      assume c: "rebox L (hs_host h) ((box_of L (hs_host h))(kept_box L k' \<mapsto> Running)) t"
      then show ?thesis by (intro implements_touch [OF b ap [OF c] _ kp k(2)]) (simp_all add: e s rebox_def)
    qed
  qed
qed

lemma pauses_implements:
  assumes ok: "house_ok P Q h" and b: "bound L f h" and lok: "leases_ok (leases_of L f h)"
    and a: "ask_pause i k h = Some (Some e, h0)" and z: "happen e (hs_sys h) = Some z" and y: "server_reachable z"
  shows "implements L strict f h (h0\<lparr>hs_sys := z\<rparr>)"
proof -
  obtain r ob where r: "teardown (sess (hs_sys h) i) = TPausing r" "hs_objs h r = Some ob"
    using a by (auto simp: ask_pause_def split: teardown_pc.splits option.splits)
  have live: "rooms (hs_sys h) r = RLive" using held_teardown [OF boundD(1) [OF b], of i r False] r(1) by simp
  then have ob: "is_room L (fst (f r)) (snd (f r)) ob" using boundD(2) [OF b, of r] r(2) by simp
  have can: "rm_can_pause ob" using house_okD(4) [OF ok r(2)] house_okD(5) [OF ok r(1)] by simp
  obtain x t where x: "rm_pause ob (hs_host h) = (x, t)" by fastforce
  show ?thesis
  proof (cases x)
    case (Inr d)
    note c = freezes [OF ob house_okD(2) [OF ok] can x [unfolded Inr]]
    have e: "e = Teardown_Paused i (Returned k)" "h0 = put_handle k d (put_host t h)"
      using a r x Inr by (auto simp: ask_pause_def)
    note z = fate_paused(1) [OF z [unfolded e happen.simps] r(1)]
    show ?thesis
      by (rule implements_pause [OF b _ lok, of _ r k d]) (use y z c live in \<open>auto simp: e rebox_def\<close>)
  next
    case (Inl er)
    note c = freezes_fail [OF ob house_okD(2) [OF ok] can x [unfolded Inl]]
    have e: "e = Teardown_Paused i (call_result (Inl er))" "h0 = put_host t h" using a r x Inl by (auto simp: ask_pause_def)
    have ap: "apart L h (h0\<lparr>hs_sys := z\<rparr>)" using y c by (simp add: apart_def e rebox_def)
    show ?thesis
    proof (cases "is_exception er")
      case True
      then have "settled (hs_sys h) z" using fate_paused(2) z by (simp add: e)
      then show ?thesis using c by (intro implements_idle [OF b ap]) (simp_all add: e rebox_def)
    next
      case False
      then have "\<not> strict" using c by blast
      moreover have "rooms z = (rooms (hs_sys h))(r := RAborted) \<and> kepts z = kepts (hs_sys h)"
        using fate_paused(3) [OF _ r(1)] z False by (simp add: e)
      ultimately show ?thesis
        by (intro implements_destroy [OF b, of _ r RAborted "box_of L (hs_host h) (snd (f r))"])
          (use y c live in \<open>auto simp: e rebox_def\<close>)
    qed
  qed
qed

lemma destroys_implements:
  assumes ok: "house_ok P Q h" and b: "bound L f h" and live: "rooms (hs_sys h) r = RLive"
    and a: "ask_destroy r ev h = Some (Some e, h0)" and y: "server_reachable z"
    and fate: "\<And>x. e = ev (call_result x) \<Longrightarrow> \<exists>v. v \<noteq> RLive \<and> v \<noteq> RFresh \<and> rooms z = (rooms (hs_sys h))(r := v) \<and> kepts z = kepts (hs_sys h)"
  shows "implements L strict f h (h0\<lparr>hs_sys := z\<rparr>)"
proof -
  obtain ob where ob: "hs_objs h r = Some ob" "is_room L (fst (f r)) (snd (f r)) ob" using boundD(2) [OF b, of r] live by auto
  then obtain x t where x: "rm_destroy ob (hs_host h) = Some (x, t)" and e: "e = ev (call_result x)" "h0 = put_host t h"
    using a by (auto simp: ask_destroy_def split: option.splits prod.splits)
  obtain u where c: "minted L t = minted L (hs_host h)" "retired L t \<subseteq> insert (fst (f r)) (retired L (hs_host h))"
    "box_of L t = (box_of L (hs_host h))(snd (f r) := u)" "strict \<longrightarrow> \<not> there u"
    using empties [OF ob(2) house_okD(2) [OF ok] boundD(4) [OF b live] x] by blast
  obtain v where "v \<noteq> RLive" "v \<noteq> RFresh" "rooms z = (rooms (hs_sys h))(r := v)" "kepts z = kepts (hs_sys h)"
    using fate [OF e(1)] by blast
  then show ?thesis
    by (intro implements_destroy [OF b, of _ r v u]) (use y c live in \<open>auto simp: e\<close>)
qed

lemma kept_implements:
  assumes ok: "house_ok P Q h" and b: "bound L f h" and k: "kepts (hs_sys h) k = KPaused"
    and a: "ask_destroy_kept b k ev h = Some (Some e, h0)" and y: "server_reachable z"
    and fate: "\<And>good. e = ev good \<Longrightarrow> rooms z = rooms (hs_sys h)
      \<and> kepts z = (if good then (kepts (hs_sys h))(k := KDestroyed) else kepts (hs_sys h))"
  shows "implements L strict f h (h0\<lparr>hs_sys := z\<rparr>)"
proof -
  obtain k' where h: "hs_handles h k = Some k'" using boundD(6) [OF b k] by blast
  then obtain x t where x: "bk_destroy_kept b k' (hs_host h) = (x, t)"
    and e: "e = ev (is_ok x)" "h0 = put_host t h"
    using a by (auto simp: ask_destroy_kept_def split: prod.splits)
  from clears [OF house_okD(2) [OF ok] house_okD(3) [OF ok h] x]
  obtain v where "\<not> there v \<and> is_ok x \<and> rebox L (hs_host h) ((box_of L (hs_host h))(kept_box L k' := v)) t
      \<or> (is_ok x \<longrightarrow> \<not> strict) \<and> rebox L (hs_host h) (box_of L (hs_host h)) t" by blast
  then show ?thesis
    by (intro implements_kept [OF b _ k h, of _ "is_ok x" v]) (use y fate [OF e(1)] in \<open>auto simp: e apart_def rebox_def\<close>)
qed

lemma quiet_implements:
  assumes ok: "house_ok P Q h" and b: "bound L f h" and a: "ask b ev h = Some (eo, h0)"
    and ev: "(\<exists>e. ev = Quiet e) \<or> (\<exists>i. ev = Starts i) \<or> (\<exists>i w. ev = Reads i w) \<or> (\<exists>i. ev = Writes i) \<or> (\<exists>i. ev = Resizes i)"
  shows "hs_objs h0 = hs_objs h \<and> hs_handles h0 = hs_handles h \<and> rebox L (hs_host h) (box_of L (hs_host h)) (hs_host h0)
    \<and> (\<forall>e y z. eo = Some e \<longrightarrow> happen e y = Some z \<longrightarrow> settled y z)"
proof -
  have obj: "\<exists>n c. is_room L n c ob" if "hs_objs h r = Some ob" for r ob
    using boundD(2,7) [OF b, of r] that by fastforce
  have wrote: "settled y z" if "happen (Alone i (Feeder_Wrote good)) y = Some z" for i good y z
    using that by (auto intro!: settledI)
  note host = house_okD(2) [OF ok]
  from ev show ?thesis
  proof (elim disjE exE)
    fix e assume "ev = Quiet e"
    then show ?thesis using a settled_happen by (auto simp: rebox_def split: if_splits)
  next
    fix i assume "ev = Starts i"
    then show ?thesis using a settled_quiet(1) by (auto simp: ask_start_def rebox_def)
  next
    fix i w assume "ev = Reads i w"
    then obtain r ob x t where r: "hs_objs h r = Some ob" "rm_read ob (hs_host h) = (x, t)"
      "eo = Some (Pump_Read i (read_answer w x))" "h0 = put_host t h"
      using a by (auto simp: ask_read_def split: pump_pc.splits option.splits prod.splits)
    then show ?thesis using obj [OF r(1)] reads [OF _ host r(2)] settled_quiet(2) by auto
  next
    fix i assume "ev = Writes i"
    then obtain r d ob x t where r: "hs_objs h r = Some ob" "rm_write ob d (hs_host h) = (x, t)"
      "eo = Some (Alone i (Feeder_Wrote (is_ok x)))" "h0 = put_host t h"
      using a by (auto simp: ask_write_def split: feeder_pc.splits option.splits prod.splits)
    then show ?thesis using obj [OF r(1)] writes [OF _ host r(2)] wrote by auto
  next
    fix i assume "ev = Resizes i"
    then obtain r w l ob n where r: "hs_objs h r = Some ob" "eo = None"
      "h0 = put_host (snd (rm_resize ob w l (hs_host h))) (h\<lparr>hs_resized := n\<rparr>)"
      using a by (auto simp: ask_resize_def Let_def split: if_splits option.splits prod.splits)
    then show ?thesis using obj [OF r(1)] resizes [OF _ host] by auto
  qed
qed

lemma house_implements:
  assumes fresh and ok: "house_ok P Q h" and b: "bound L f h" and lok: "leases_ok (leases_of L f h)"
    and d: "house_does b ev h = Some h'"
  shows "implements L strict f h h'"
  using d
proof (cases rule: house_does_cases)
  case quiet
  have "\<exists>i. ev = Resizes i"
    using quiet by (cases ev) (auto simp: ask_defs Let_def split: if_splits option.splits prod.splits sum.splits
      pump_pc.splits teardown_pc.splits feeder_pc.splits)
  then have q: "hs_objs h' = hs_objs h \<and> hs_handles h' = hs_handles h \<and> rebox L (hs_host h) (box_of L (hs_host h)) (hs_host h')"
    using quiet_implements [OF ok b quiet] by blast
  moreover have "hs_sys h' = hs_sys h" by (rule ask_sys [OF quiet])
  ultimately show ?thesis using boundD(1) [OF b] by (intro implements_idle [OF b]) (simp_all add: apart_def rebox_def)
next
  case (takes e h0)
  define z where "z = hs_sys h'"
  have z: "happen e (hs_sys h) = Some z" "h' = h0\<lparr>hs_sys := z\<rparr>" using takes(2,3) by (simp_all add: z_def)
  have y: "server_reachable z" using boundD(1) [OF b] happen_step [OF z(1)] by (rule reachable.after)
  have kept: "kepts (hs_sys h) k = KPaused" if "placed (hs_sys h) k p" for k p
    using kept_ok_paused [OF kepts.everywhere [OF boundD(1) [OF b]] that] .
  have plain: "implements L strict f h h'"
    if "(\<exists>e. ev = Quiet e) \<or> (\<exists>i. ev = Starts i) \<or> (\<exists>i w. ev = Reads i w) \<or> (\<exists>i. ev = Writes i) \<or> (\<exists>i. ev = Resizes i)"
    using quiet_implements [OF ok b takes(1) that] y z by (intro implements_idle [OF b]) (auto simp: apart_def rebox_def)
  show ?thesis
  proof (cases ev)
    case (Opens i r w)
    then show ?thesis using opens_implements [OF \<open>fresh\<close> ok b _ z(1) y] takes(1) z(2) by simp
  next
    case (Resumes i r w)
    then show ?thesis using resumes_implements [OF ok b _ z(1) y] takes(1) z(2) by simp
  next
    case (Pauses i k)
    then show ?thesis using pauses_implements [OF ok b lok _ z(1) y] takes(1) z(2) by simp
  next
    case (Late i)
    then obtain r where r: "pump (sess (hs_sys h) i) = PLate r" "ask_destroy r (Pump_Late i) h = Some (Some e, h0)"
      using takes(1) by (auto simp: ask_late_def split: pump_pc.splits)
    show ?thesis unfolding z(2)
      by (rule destroys_implements [OF ok b held_late [OF boundD(1) [OF b] r(1)] r(2) y])
        (use fate_destroyed(1) [OF _ r(1)] z(1) in auto)
  next
    case (Destroys i)
    then obtain r where r: "teardown (sess (hs_sys h) i) = TDestroying r" "ask_destroy r (Teardown_Destroyed i) h = Some (Some e, h0)"
      using takes(1) by (auto simp: ask_teardown_def split: teardown_pc.splits)
    have "rooms (hs_sys h) r = RLive" using held_teardown [OF boundD(1) [OF b], of i r True] r(1) by simp
    then show ?thesis unfolding z(2)
      by (rule destroys_implements [OF ok b _ r(2) y]) (use fate_destroyed(2) [OF _ r(1)] z(1) in auto)
  next
    case (Cleans i w)
    then obtain k where k: "pump (sess (hs_sys h) i) = PCleanup k"
      "ask_destroy_kept b k (\<lambda>good. Pump_Cleaned i good w) h = Some (Some e, h0)"
      using takes(1) by (auto simp: ask_clean_def split: pump_pc.splits)
    show ?thesis unfolding z(2)
      by (rule kept_implements [OF ok b kept [of k "Claimed i"] k(2) y]) (use fate_kept(1) [OF _ k(1)] z(1) k(1) in auto)
  next
    case (Expires k)
    then have k: "ask_destroy_kept b k (Expire_End k) h = Some (Some e, h0)" using takes(1) by simp
    have e: "\<exists>good. e = Expire_End k good" using k by (auto simp: ask_destroy_kept_def split: option.splits prod.splits)
    then have "expiry (hs_sys h) k = EDestroying" using z(1) fate_kept(2) by fastforce
    then show ?thesis unfolding z(2)
      by (intro kept_implements [OF ok b kept [of k Expiring] k y]) (use fate_kept(2) z(1) in auto)
  next
    case (Sweeps k)
    then have k: "ask_destroy_kept b k (Sweep_End k) h = Some (Some e, h0)" using takes(1) by simp
    have e: "\<exists>good. e = Sweep_End k good" using k by (auto simp: ask_destroy_kept_def split: option.splits prod.splits)
    then have "k \<in> sweeping (hs_sys h)" using z(1) fate_kept(3) by fastforce
    then show ?thesis unfolding z(2)
      by (intro kept_implements [OF ok b kept [of k Swept] k y]) (use fate_kept(3) z(1) in auto)
  qed (use plain in blast)+
qed

end

subsection \<open>Every reachable house\<close>

definition tenanted :: "('s \<Rightarrow> bool) \<Rightarrow> ('k \<Rightarrow> bool) \<Rightarrow> ('s, 'k, 'o, 'c) ledger \<Rightarrow> bool \<Rightarrow> ('s, 'k) house \<Rightarrow> bool" where
  "tenanted P Q L strict h \<longleftrightarrow> house_ok P Q h
     \<and> (\<exists>f. bound L f h \<and> leases_ok (leases_of L f h) \<and> all_leased strict (leases_of L f h))"

text \<open>A host on which nothing has been let.\<close>

definition vacant :: "('s, 'k, 'o, 'c) ledger \<Rightarrow> 's \<Rightarrow> bool" where
  "vacant L s \<longleftrightarrow> (\<forall>c. \<not> there (box_of L s c)) \<and> retired L s \<subseteq> minted L s"

context renting begin

lemma tenanted_step:
  assumes fresh "house_step b h h'" "tenanted P Q L strict h"
  shows "tenanted P Q L strict h'"
proof -
  obtain f where f: "house_ok P Q h" "bound L f h" "leases_ok (leases_of L f h)" "all_leased strict (leases_of L f h)"
    using assms(3) unfolding tenanted_def by blast
  obtain ev where "house_does b ev h = Some h'" using assms(2) by cases
  then have "implements L strict f h h'" using house_implements [OF assms(1) f(1-3)] by blast
  moreover have "house_ok P Q h'" by (rule step [OF assms(2) f(1)])
  ultimately show ?thesis unfolding implements_def tenanted_def
    using lease_keeps [OF _ f(3)] leased_keeps [OF _ f(3,4)] by blast
qed

lemma tenanted_run: "(house_step b)\<^sup>*\<^sup>* h h' \<Longrightarrow> fresh \<Longrightarrow> tenanted P Q L strict h \<Longrightarrow> tenanted P Q L strict h'"
  by (induction rule: rtranclp_induct) (blast intro: tenanted_step)+

lemma tenanted_start:
  assumes "new_server y" "P g" "vacant L g"
  shows "tenanted P Q L strict (new_house y g)"
proof -
  have new: "rooms y = (\<lambda>_. RFresh)" "kepts y = (\<lambda>_. KFresh)" using assms(1) by (auto simp: new_server_def init_sys_def)
  have b: "bound L f (new_house y g)" for f
    by (rule boundI) (use assms in \<open>auto simp: new_house_def new vacant_def intro: reachable.start\<close>)
  have "leases_of L f (new_house y g) = (\<lambda>_. None, box_of L g)" for f
    by (auto simp: leases_of_def new_house_def new intro!: tenant_eqI)
  then show ?thesis unfolding tenanted_def
    using b start [OF assms(1,2)] assms(3) by (simp add: leases_ok_def all_leased_def vacant_def)
qed

lemma tenanted_reached:
  assumes "new_server y" "P g" "vacant L g" fresh "(house_step b)\<^sup>*\<^sup>* (new_house y g) h"
  shows "tenanted P Q L strict h"
  using tenanted_run [OF assms(5,4) tenanted_start [OF assms(1-3)]] .

lemma steps_are_leases:
  assumes "new_server y" "P g" "vacant L g" fresh "(house_step b)\<^sup>*\<^sup>* (new_house y g) h" "house_step b h h'"
  shows "\<exists>f f'. bound L f h \<and> bound L f' h' \<and> lease_step strict (leases_of L f h) (leases_of L f' h')"
proof -
  obtain f where f: "house_ok P Q h" "bound L f h" "leases_ok (leases_of L f h)"
    using tenanted_reached [OF assms(1-5)] unfolding tenanted_def by blast
  obtain ev where "house_does b ev h = Some h'" using assms(6) by cases
  from house_implements [OF assms(4) f this] f(2) show ?thesis unfolding implements_def by blast
qed

end

text \<open>What the leases say of the rooms of a house.\<close>

lemma tenants:
  assumes "tenanted P Q L strict h"
  obtains box where
    "\<And>r. rooms (hs_sys h) r = RLive \<Longrightarrow> (\<exists>n ob. hs_objs h r = Some ob \<and> is_room L n (box r) ob) \<and> box_of L (hs_host h) (box r) = Some Running"
    "\<And>k. kepts (hs_sys h) k = KPaused \<Longrightarrow> \<exists>x. hs_handles h k = Some x \<and> Q x \<and> there (box_of L (hs_host h) (kept_box L x))"
    "\<And>r q. rooms (hs_sys h) r = RLive \<Longrightarrow> rooms (hs_sys h) q = RLive \<Longrightarrow> box r = box q \<Longrightarrow> r = q"
    "\<And>k j x z. kepts (hs_sys h) k = KPaused \<Longrightarrow> kepts (hs_sys h) j = KPaused \<Longrightarrow> hs_handles h k = Some x \<Longrightarrow>
       hs_handles h j = Some z \<Longrightarrow> kept_box L x = kept_box L z \<Longrightarrow> k = j"
    "\<And>r k x. rooms (hs_sys h) r = RLive \<Longrightarrow> kepts (hs_sys h) k = KPaused \<Longrightarrow> hs_handles h k = Some x \<Longrightarrow> kept_box L x \<noteq> box r"
    "\<And>c. strict \<Longrightarrow> there (box_of L (hs_host h) c) \<Longrightarrow> (\<exists>r. rooms (hs_sys h) r = RLive \<and> box r = c)
       \<or> (\<exists>k x. kepts (hs_sys h) k = KPaused \<and> hs_handles h k = Some x \<and> kept_box L x = c)"
proof -
  obtain f where h: "house_ok P Q h" and b: "bound L f h" and ok: "leases_ok (tenant_of L f h, box_of L (hs_host h))"
    and all: "all_leased strict (tenant_of L f h, box_of L (hs_host h))"
    using assms unfolding tenanted_def leases_of_def by blast
  note D = leases_okD [OF ok]
  show thesis
  proof (rule that [of "\<lambda>r. snd (f r)"])
    fix r assume r: "rooms (hs_sys h) r = RLive"
    show "(\<exists>n ob. hs_objs h r = Some ob \<and> is_room L n (snd (f r)) ob) \<and> box_of L (hs_host h) (snd (f r)) = Some Running"
      using boundD(2) [OF b, of r] D(2) [of "Live r"] r by (auto simp: fits_def)
  next
    fix k assume k: "kepts (hs_sys h) k = KPaused"
    then obtain x where "hs_handles h k = Some x" using boundD(6) [OF b k] by blast
    then show "\<exists>x. hs_handles h k = Some x \<and> Q x \<and> there (box_of L (hs_host h) (kept_box L x))"
      using house_okD(3) [OF h] D(3) [of "Kept k"] k by auto
  next
    fix r q assume "rooms (hs_sys h) r = RLive" "rooms (hs_sys h) q = RLive" "snd (f r) = snd (f q)"
    then show "r = q" using D(1) [of "Live r" "snd (f r)" "Live q"] by simp
  next
    fix k j x z assume "kepts (hs_sys h) k = KPaused" "kepts (hs_sys h) j = KPaused" "hs_handles h k = Some x"
       "hs_handles h j = Some z" "kept_box L x = kept_box L z"
    then show "k = j" using D(1) [of "Kept k" "kept_box L x" "Kept j"] by simp
  next
    fix r k x assume "rooms (hs_sys h) r = RLive" "kepts (hs_sys h) k = KPaused" "hs_handles h k = Some x"
    then show "kept_box L x \<noteq> snd (f r)" using D(1) [of "Live r" "snd (f r)" "Kept k"] by auto
  next
    fix c assume strict and c: "there (box_of L (hs_host h) c)"
    then obtain t where t: "tenant_of L f h t = Some c" using all_leasedD [OF all] by blast
    then show "(\<exists>r. rooms (hs_sys h) r = RLive \<and> snd (f r) = c)
       \<or> (\<exists>k x. kepts (hs_sys h) k = KPaused \<and> hs_handles h k = Some x \<and> kept_box L x = c)"
      by (cases t) (auto split: if_splits)
  qed
qed

end
