(* ===== verification/Docker_Calls.thy ===== *)
theory Docker_Calls
  imports Backends
begin

section \<open>What each call of the Docker backend does to the daemon\<close>

text \<open>
  For every method of the backend and of its rooms: the object it makes, and what it changes of the
  containers, when it returns, when it raises, and when the daemon does what it is asked.
\<close>

text \<open>The daemon does what it is asked, and no caller is cancelled inside a call.\<close>

definition obliging :: "docker_answers \<Rightarrow> bool" where
  "obliging a \<longleftrightarrow> da_attach a = None \<and> (\<forall>e. da_size a = Some e \<longrightarrow> is_docker e) \<and> da_get a = None \<and> da_remove a = None
     \<and> (\<forall>e. da_pause a = Some e \<longrightarrow> is_exception e) \<and> (\<forall>n e. da_reload a n = Inl e \<longrightarrow> is_docker e)
     \<and> (\<forall>e. da_kill a = Some e \<longrightarrow> is_docker e)"

text \<open>The ids of new containers are new.\<close>

definition ids_fresh :: "(docker_host \<Rightarrow> docker_answers) \<Rightarrow> bool" where
  "ids_fresh A \<longleftrightarrow> (\<forall>s. da_run (A s) = None \<longrightarrow> containers (service s) (da_id (A s)) = None)"

definition boxes :: "docker_host \<Rightarrow> cid \<Rightarrow> cstate option" where
  "boxes s = containers (service s)"

lemma boxes_simps [simp]:
  "boxes (put_service d s) = containers d" "made (put_service d s) = made s"
  "containers (put_container c v d) = (containers d)(c \<mapsto> v)"
  "containers (d\<lparr>started_with := sw\<rparr>) = containers d"
  "boxes (s\<lparr>made := n\<rparr>) = boxes s" "boxes (s\<lparr>spent := sp\<rparr>) = boxes s"
  by (simp_all add: boxes_def put_service_def put_container_def)

lemma boxes_service: "containers (service s) = boxes s"
  by (simp add: boxes_def)

lemmas call_simps = io_simps on_service_def sdk_run attach_run boxes_service

lemma docker_opened:
  assumes "bk_open (docker_backend A) rc w l s = (Inr ob, t)"
  shows "ob = docker_room A (made s) (da_id (A s))" "made t = Suc (made s)" "spent t = spent s"
    "da_run (A s) = None" "boxes t = (boxes s)(da_id (A s) \<mapsto> Running)"
  using assms
  by (auto simp: docker_backend_def Let_def open_room_def docker_made_def new_object_def call_simps
      split: option.splits if_splits)

lemma docker_open_failed:
  assumes "bk_open (docker_backend A) rc w l s = (Inl e, t)"
  shows "made t = made s" "spent t = spent s"
    "boxes t = boxes s \<or> (da_run (A s) = None \<and> \<not> obliging (A s) \<and> boxes t = (boxes s)(da_id (A s) \<mapsto> Running))"
  using assms
  by (auto simp: docker_backend_def Let_def open_room_def docker_made_def new_object_def call_simps obliging_def
      split: option.splits if_splits)

lemma docker_resumed:
  assumes "bk_resume (docker_backend A) c w l s = (Inr ob, t)"
  shows "ob = docker_room A (made s) c" "made t = Suc (made s)" "spent t = spent s" "boxes t = (boxes s)(c \<mapsto> Running)"
  using assms
  by (auto simp: docker_backend_def Let_def resume_room_def docker_made_def new_object_def call_simps
      split: option.splits if_splits)

lemma docker_resume_failed:
  assumes "bk_resume (docker_backend A) c w l s = (Inl e, t)"
  shows "made t = made s" "spent t = spent s" "boxes t = boxes s \<or> boxes t = (boxes s)(c \<mapsto> Running)"
  using assms
  by (auto simp: docker_backend_def Let_def resume_room_def docker_made_def new_object_def call_simps
      split: option.splits if_splits)

lemma docker_kept_destroyed:
  assumes "bk_destroy_kept (docker_backend A) c s = (x, t)"
  shows "made t = made s" "spent t = spent s" "is_ok x \<Longrightarrow> obliging (A s) \<Longrightarrow> boxes t = (boxes s)(c \<mapsto> Removed)"
    "boxes t = boxes s \<or> (is_ok x \<and> boxes t = (boxes s)(c \<mapsto> Removed))" "obliging (A s) \<Longrightarrow> is_ok x"
  using assms
  by (auto simp: docker_backend_def destroy_kept_container_def call_simps obliging_def
      split: option.splits if_splits sum.splits)

lemma docker_paused:
  assumes "rm_pause (docker_room A ob c) s = (x, t)"
  shows "made t = made s" "spent t = spent s" "x = Inr d \<Longrightarrow> d = c"
    "boxes t = boxes s \<or> (x = Inr c \<and> boxes t = (boxes s)(c \<mapsto> Frozen))"
    "obliging (A s) \<Longrightarrow> x = Inl e \<Longrightarrow> is_exception e"
    "x = Inl e \<Longrightarrow> boxes t = boxes s"
  using assms
  by (auto simp: docker_room_def pause_room_def call_simps obliging_def split: option.splits if_splits)

lemma await_exit_ends:
  assumes "await_exit reload elapsed on_kill n = Some r"
  shows "\<exists>m. r = exit_result reload on_kill m"
proof (rule await_exit.raw_induct [where P = "\<lambda>reload elapsed on_kill n r. \<exists>m. r = exit_result reload on_kill m", OF _ assms])
  fix loop :: "(nat \<Rightarrow> (bool \<times> int) res) \<Rightarrow> (nat \<Rightarrow> rat) \<Rightarrow> py_exc option \<Rightarrow> nat \<Rightarrow> (int \<times> bool) res option"
  fix reload elapsed on_kill n r
  assume step: "\<And>reload elapsed on_kill n r. loop reload elapsed on_kill n = Some r \<Longrightarrow> \<exists>m. r = exit_result reload on_kill m"
    and body: "(case reload n of Inl e \<Rightarrow> Some (Inl e)
     | Inr st \<Rightarrow> if \<not> fst st then Some (Inr (snd st, False))
         else if time_up EXIT_GRACE (elapsed n) then Some (case on_kill of None \<Rightarrow> Inr (0, True) | Some e \<Rightarrow> Inl e)
         else loop reload elapsed on_kill (Suc n)) = Some r"
  have "r = exit_result reload on_kill n \<or> loop reload elapsed on_kill (Suc n) = Some r"
    using body by (auto simp: exit_result_def split: sum.splits if_splits)
  then show "\<exists>m. r = exit_result reload on_kill m" using step by blast
qed

lemma obliging_exit:
  assumes "obliging (A s)" "await_exit (da_reload (A s)) el (da_kill (A s)) 0 = Some r"
  shows "is_ok (exit_status r)"
proof -
  obtain m where "r = exit_result (da_reload (A s)) (da_kill (A s)) m" using await_exit_ends [OF assms(2)] by blast
  then show ?thesis using assms(1)
    by (auto simp: exit_result_def exit_status_def obliging_def split: sum.splits if_splits option.splits)
qed

lemma docker_destroyed:
  assumes "rm_destroy (docker_room A ob c) s = Some (x, t)" "ob \<notin> spent s"
  shows "made t = made s" "spent t = insert ob (spent s)" "boxes t = boxes s \<or> boxes t = (boxes s)(c \<mapsto> Removed)"
    "obliging (A s) \<Longrightarrow> is_ok x \<and> boxes t = (boxes s)(c \<mapsto> Removed)"
proof -
  obtain r where r: "await_exit (da_reload (A s)) (da_elapsed (A s)) (da_kill (A s)) 0 = Some r"
    and t: "(x, t) = on_service (case exit_status r of Inl e \<Rightarrow> raise_io e
        | Inr st \<Rightarrow> then_io (catch_io (sdk (da_remove (A s)) (put_container c Removed)) is_docker (\<lambda>_. ret_io ())) (ret_io st))
        (s\<lparr>spent := insert ob (spent s)\<rparr>)"
    using assms by (auto simp: docker_room_def flagged_destroy_def docker_destroy_def destroy_room_def destroy_container_def
        Let_def split: option.splits)
  show "made t = made s" "spent t = insert ob (spent s)" "boxes t = boxes s \<or> boxes t = (boxes s)(c \<mapsto> Removed)"
    using t by (auto simp: call_simps split: sum.splits option.splits if_splits)
  show "is_ok x \<and> boxes t = (boxes s)(c \<mapsto> Removed)" if o: "obliging (A s)"
    using t obliging_exit [of A s "da_elapsed (A s)" r, OF o r] o by (auto simp: call_simps obliging_def split: sum.splits option.splits if_splits)
qed

lemma docker_quiet:
  "rm_read (docker_room A ob c) s = (x, t) \<Longrightarrow> t = s" "rm_write (docker_room A ob c) d s = (u, t) \<Longrightarrow> t = s"
  "boxes (snd (rm_resize (docker_room A ob c) w l s)) = boxes s"
  "made (snd (rm_resize (docker_room A ob c) w l s)) = made s" "spent (snd (rm_resize (docker_room A ob c) w l s)) = spent s"
  by (auto simp: docker_room_def call_simps split: option.split)

end
