(* ===== verification/Tenancy.thy ===== *)
theory Tenancy
  imports Renting Docker_Calls Routing
begin

section \<open>Every container has its tenant (session.py over docker.py)\<close>

text \<open>
  The Docker backend rents out containers: a live room of the session layer is the tenant of the
  container that its object wraps, a paused room that of the container its handle names.
\<close>

definition docker_ledger :: "(docker_host \<Rightarrow> docker_answers) \<Rightarrow> (docker_host, cid, nat, cid) ledger" where
  "docker_ledger A = \<lparr>is_room = (\<lambda>n c r. r = docker_room A n c), kept_box = id, box_of = boxes,
     minted = (\<lambda>s. {..<made s}), retired = spent\<rparr>"

lemma docker_ledger_simps [simp]:
  "is_room (docker_ledger A) n c r \<longleftrightarrow> r = docker_room A n c" "kept_box (docker_ledger A) c = c"
  "box_of (docker_ledger A) = boxes" "minted (docker_ledger A) s = {..<made s}" "retired (docker_ledger A) = spent"
  by (simp_all add: docker_ledger_def)

lemma docker_rebox: "rebox (docker_ledger A) s D t \<longleftrightarrow> {..<made t} = {..<made s} \<and> spent t = spent s \<and> boxes t = D"
  by (simp add: rebox_def)

lemma docker_checks_in:
  "made t = Suc (made s) \<Longrightarrow> spent t = spent s \<Longrightarrow> boxes t = (boxes s)(c \<mapsto> Running) \<Longrightarrow>
    checks_in (docker_ledger A) s c (docker_room A (made s) c) t"
  by (auto simp: checks_in_def lessThan_Suc intro!: exI [of _ "made s"])

lemma boxes_answer: "ids_fresh A \<Longrightarrow> da_run (A s) = None \<Longrightarrow> boxes s (da_id (A s)) = None"
  by (simp add: ids_fresh_def boxes_def)

interpretation docker_books: room_books "\<lambda>_. True" "docker_ledger A" "\<forall>s. obliging (A s)" for A
proof
  let ?L = "docker_ledger A"
  show "kept_box ?L k = c \<and> (rebox ?L s (box_of ?L s) t \<or> rebox ?L s ((box_of ?L s)(c \<mapsto> Frozen)) t)"
    if "is_room ?L n c r" "rm_pause r s = (Inr k, t)" for n c r s k t
    using docker_paused [of A n c s "Inr k" t] that by (auto simp: docker_rebox)
  show "rebox ?L s (box_of ?L s) t \<and> ((\<forall>s. obliging (A s)) \<longrightarrow> is_exception e)"
    if "is_room ?L n c r" "rm_pause r s = (Inl e, t)" for n c r s e t
    using docker_paused [of A n c s "Inl e" t] that by (auto simp: docker_rebox)
  show "minted ?L t = minted ?L s \<and> retired ?L t \<subseteq> insert n (retired ?L s)
      \<and> (\<exists>v. box_of ?L t = (box_of ?L s)(c := v) \<and> ((\<forall>s. obliging (A s)) \<longrightarrow> \<not> there v))"
    if "is_room ?L n c r" "n \<notin> retired ?L s" "rm_destroy r s = Some (x, t)" for n c r s x t
  proof -
    note d = docker_destroyed [of A n c s x t]
    have "\<exists>v. boxes t = (boxes s)(c := v) \<and> ((\<forall>s. obliging (A s)) \<longrightarrow> \<not> there v)"
    proof (cases "boxes t = (boxes s)(c \<mapsto> Removed)")
      case False
      then have "boxes t = (boxes s)(c := boxes s c)" "\<not> (\<forall>s. obliging (A s))" using d that by auto
      then show ?thesis by blast
    qed auto
    then show ?thesis using d that by auto
  qed
  show "rebox ?L s (box_of ?L s) t" if "is_room ?L n c r" "rm_read r s = (a, t)" for n c r s a t
    using docker_quiet(1) [of A n c s a t] that by (simp add: docker_rebox)
  show "rebox ?L s (box_of ?L s) t" if "is_room ?L n c r" "rm_write r d s = (u, t)" for n c r d s u t
    using docker_quiet(2) [of A n c d s u t] that by (simp add: docker_rebox)
  show "rebox ?L s (box_of ?L s) (snd (rm_resize r w l s))" if "is_room ?L n c r" for n c r s w l
    using that by (simp add: docker_rebox docker_quiet(3-5))
qed

interpretation docker_rents: renting "docker_backend A" "\<lambda>_. True" "\<lambda>_. True" "docker_ledger A" "\<forall>s. obliging (A s)" "ids_fresh A" for A
proof
  let ?b = "docker_backend A" and ?L = "docker_ledger A"
  show "\<exists>c. \<not> there (box_of ?L s c) \<and> checks_in ?L s c r t"
    if "ids_fresh A" "bk_open ?b rc w l s = (Inr r, t)" for s rc w l r t
  proof -
    note o = docker_opened [OF that(2)]
    show ?thesis unfolding docker_ledger_simps o(1)
      by (intro exI [of _ "da_id (A s)"] conjI docker_checks_in [OF o(2,3,5)]) (simp add: boxes_answer [OF that(1) o(4)])
  qed
  show "rebox ?L s (box_of ?L s) t \<or> (\<exists>c v. \<not> (\<forall>s. obliging (A s)) \<and> \<not> there (box_of ?L s c) \<and> rebox ?L s ((box_of ?L s)(c := v)) t)"
    if "ids_fresh A" "bk_open ?b rc w l s = (Inl e, t)" for s rc w l e t
    using docker_open_failed(3) [OF that(2)]
  proof
    assume "boxes t = boxes s"
    then show ?thesis by (simp add: docker_rebox docker_open_failed(1,2) [OF that(2)])
  next
    assume "da_run (A s) = None \<and> \<not> obliging (A s) \<and> boxes t = (boxes s)(da_id (A s) \<mapsto> Running)"
    then show ?thesis
      by (intro disjI2 exI [of _ "da_id (A s)"] exI [of _ "Some Running"])
        (auto simp: docker_rebox docker_open_failed(1,2) [OF that(2)] boxes_answer [OF that(1)])
  qed
  show "checks_in ?L s (kept_box ?L k) r t" if "bk_resume ?b k w l s = (Inr r, t)" for s k w l r t
    unfolding docker_ledger_simps docker_resumed(1) [OF that] by (rule docker_checks_in [OF docker_resumed(2-4) [OF that]])
  show "rebox ?L s (box_of ?L s) t \<or> rebox ?L s ((box_of ?L s)(kept_box ?L k \<mapsto> Running)) t"
    if "bk_resume ?b k w l s = (Inl e, t)" for s k w l e t
    using docker_resume_failed [OF that] by (simp add: docker_rebox)
  show "(\<exists>v. \<not> there v \<and> is_ok x \<and> rebox ?L s ((box_of ?L s)(kept_box ?L k := v)) t)
      \<or> (is_ok x \<longrightarrow> \<not> (\<forall>s. obliging (A s))) \<and> rebox ?L s (box_of ?L s) t"
    if "bk_destroy_kept ?b k s = (x, t)" for s k x t
    using docker_kept_destroyed [OF that] by (auto simp: docker_rebox intro: exI [of _ "Some Removed"])
qed

subsection \<open>Properties\<close>

definition empty_daemon :: docker_host where
  "empty_daemon = \<lparr>service = \<lparr>containers = (\<lambda>_. None), started_with = (\<lambda>_. None)\<rparr>, made = 0, spent = {}\<rparr>"

lemma empty_vacant: "vacant (docker_ledger A) empty_daemon"
  by (simp add: vacant_def empty_daemon_def boxes_def)

lemma docker_tenanted:
  assumes "new_server y" "ids_fresh A" "(house_step (docker_backend A))\<^sup>*\<^sup>* (new_house y empty_daemon) h"
  shows "tenanted (\<lambda>_. True) (\<lambda>_. True) (docker_ledger A) (\<forall>s. obliging (A s)) h"
  by (rule docker_rents.tenanted_reached [OF assms(1) TrueI empty_vacant assms(2,3)])

text \<open>
  Property C4. The sessions over the Docker backend implement the leases of containers: every step
  of a house, whatever clients, timers, cancellations and the daemon do, is one step of a lease,
  strict if the daemon does what it is asked.
\<close>

theorem sessions_lease_containers:
  assumes "new_server y" "ids_fresh A" "(house_step (docker_backend A))\<^sup>*\<^sup>* (new_house y empty_daemon) h"
    and "house_step (docker_backend A) h h'"
  shows "\<exists>f f'. bound (docker_ledger A) f h \<and> bound (docker_ledger A) f' h'
    \<and> lease_step (\<forall>s. obliging (A s)) (leases_of (docker_ledger A) f h) (leases_of (docker_ledger A) f' h')"
  by (rule docker_rents.steps_are_leases [OF assms(1) TrueI empty_vacant assms(2-4)])

text \<open>A daemon that numbers its containers, and two clients: one stays, the other one's room is kept.\<close>

definition counting_docker :: "docker_host \<Rightarrow> docker_answers" where
  "counting_docker s = calm_docker\<lparr>da_id := made s,
     da_run := (if containers (service s) (made s) = None then None else Some DockerException)\<rparr>"

lemma counting_fresh: "ids_fresh counting_docker"
  by (simp add: ids_fresh_def counting_docker_def)

lemma counting_obliges: "obliging (counting_docker s)"
  by (simp add: obliging_def counting_docker_def calm_docker_def)

definition two_guests :: "house_event list" where
  "two_guests = [Quiet (Made 1), Quiet (Alone 1 Started), Starts 1, Opens 1 1 True] @ check_in_and_drop"

lemma two_guests_run:
  obtains h where "house_run (docker_backend counting_docker) two_guests (new_house (plain_server True) empty_daemon) = Some h"
    "rooms (hs_sys h) 1 = RLive" "kepts (hs_sys h) 5 = KPaused" "hs_handles h 5 = Some 1"
    "(house_step (docker_backend counting_docker))\<^sup>*\<^sup>* (new_house (plain_server True) empty_daemon) h"
proof -
  let ?h = "house_run (docker_backend counting_docker) two_guests (new_house (plain_server True) empty_daemon)"
  have "map_option (\<lambda>h. (rooms (hs_sys h) 1, kepts (hs_sys h) 5, hs_handles h 5)) ?h = Some (RLive, KPaused, Some 1)"
    by code_simp
  then obtain h where "?h = Some h" "rooms (hs_sys h) 1 = RLive" "kepts (hs_sys h) 5 = KPaused" "hs_handles h 5 = Some 1" by auto
  then show thesis using that house_run_steps by blast
qed

theorem sessions_lease_containers_witness:
  "\<exists>h f f'. house_run (docker_backend counting_docker) two_guests (new_house (plain_server True) empty_daemon) = Some h
     \<and> lease_step True (leases_of (docker_ledger counting_docker) f h)
         (leases_of (docker_ledger counting_docker) f' (the (house_does (docker_backend counting_docker) (Reads 1 True) h)))"
proof -
  let ?b = "docker_backend counting_docker"
  let ?h = "house_run ?b two_guests (new_house (plain_server True) empty_daemon)"
  have "?h \<noteq> None \<and> house_does ?b (Reads 1 True) (the ?h) \<noteq> None" by code_simp
  then obtain h h' where h: "?h = Some h" "house_does ?b (Reads 1 True) h = Some h'" by auto
  then show ?thesis
    using sessions_lease_containers [OF plain_new counting_fresh house_run_steps [OF h(1)] house_step.does [OF h(2)]] counting_obliges
    by auto
qed

text \<open>
  No two rooms share a container and nobody touches the container of another: that of
  a live room runs, until its own session pauses or destroys it; that of a paused room is there; and
  all of them are different. On a daemon that does what it is asked, there are no other containers:
  nothing leaks.
\<close>

theorem every_container_has_its_tenant:
  assumes "new_server y" "ids_fresh A" "(house_step (docker_backend A))\<^sup>*\<^sup>* (new_house y empty_daemon) h"
  shows "\<exists>box. (\<forall>r. rooms (hs_sys h) r = RLive \<longrightarrow>
        (\<exists>n. hs_objs h r = Some (docker_room A n (box r))) \<and> containers (service (hs_host h)) (box r) = Some Running)
    \<and> (\<forall>k. kepts (hs_sys h) k = KPaused \<longrightarrow> (\<exists>c. hs_handles h k = Some c \<and> there (containers (service (hs_host h)) c)))
    \<and> (\<forall>r q. rooms (hs_sys h) r = RLive \<and> rooms (hs_sys h) q = RLive \<and> box r = box q \<longrightarrow> r = q)
    \<and> (\<forall>k j. kepts (hs_sys h) k = KPaused \<and> kepts (hs_sys h) j = KPaused \<and> hs_handles h k = hs_handles h j \<longrightarrow> k = j)
    \<and> (\<forall>r k. rooms (hs_sys h) r = RLive \<and> kepts (hs_sys h) k = KPaused \<longrightarrow> hs_handles h k \<noteq> Some (box r))
    \<and> ((\<forall>s. obliging (A s)) \<longrightarrow> (\<forall>c. there (containers (service (hs_host h)) c) \<longrightarrow>
         (\<exists>r. rooms (hs_sys h) r = RLive \<and> box r = c) \<or> (\<exists>k. kepts (hs_sys h) k = KPaused \<and> hs_handles h k = Some c)))"
proof (rule tenants [OF docker_tenanted [OF assms]], unfold docker_ledger_simps boxes_service, goal_cases)
  case (1 box)
  show ?case
  proof (intro exI [of _ box] conjI allI impI)
    show "\<exists>n. hs_objs h r = Some (docker_room A n (box r))" "boxes (hs_host h) (box r) = Some Running"
      if "rooms (hs_sys h) r = RLive" for r
      using 1(1) [OF that] by auto
    show "\<exists>c. hs_handles h k = Some c \<and> there (boxes (hs_host h) c)" if "kepts (hs_sys h) k = KPaused" for k
      using 1(2) [OF that] by blast
    show "r = q" if "rooms (hs_sys h) r = RLive \<and> rooms (hs_sys h) q = RLive \<and> box r = box q" for r q
      using 1(3) that by blast
    show "k = j" if "kepts (hs_sys h) k = KPaused \<and> kepts (hs_sys h) j = KPaused \<and> hs_handles h k = hs_handles h j" for k j
      using 1(2) [of k] 1(4) [of k j] that by auto
    show "hs_handles h k \<noteq> Some (box r)" if "rooms (hs_sys h) r = RLive \<and> kepts (hs_sys h) k = KPaused" for r k
      using 1(5) [of r k] that by auto
    show "(\<exists>r. rooms (hs_sys h) r = RLive \<and> box r = c) \<or> (\<exists>k. kepts (hs_sys h) k = KPaused \<and> hs_handles h k = Some c)"
      if "\<forall>s. obliging (A s)" "there (boxes (hs_host h) c)" for c
      using 1(6) [OF that] by blast
  qed
qed

theorem every_container_has_its_tenant_witness:
  "\<exists>h box. house_run (docker_backend counting_docker) two_guests (new_house (plain_server True) empty_daemon) = Some h
     \<and> containers (service (hs_host h)) (box (1 :: rid)) = Some Running \<and> box 1 \<noteq> 1 \<and> there (containers (service (hs_host h)) 1)"
proof -
  obtain h where h: "house_run (docker_backend counting_docker) two_guests (new_house (plain_server True) empty_daemon) = Some h"
    "rooms (hs_sys h) 1 = RLive" "kepts (hs_sys h) 5 = KPaused" "hs_handles h 5 = Some 1"
    "(house_step (docker_backend counting_docker))\<^sup>*\<^sup>* (new_house (plain_server True) empty_daemon) h"
    by (rule two_guests_run)
  obtain box where box: "\<forall>r. rooms (hs_sys h) r = RLive \<longrightarrow> (\<exists>n. hs_objs h r = Some (docker_room counting_docker n (box r)))
      \<and> containers (service (hs_host h)) (box r) = Some Running"
    "\<forall>k. kepts (hs_sys h) k = KPaused \<longrightarrow> (\<exists>c. hs_handles h k = Some c \<and> there (containers (service (hs_host h)) c))"
    "\<forall>r k. rooms (hs_sys h) r = RLive \<and> kepts (hs_sys h) k = KPaused \<longrightarrow> hs_handles h k \<noteq> Some (box r)"
    using every_container_has_its_tenant [OF plain_new counting_fresh h(5)] by blast
  have "containers (service (hs_host h)) (box 1) = Some Running" using box(1) h(2) by blast
  moreover have "box 1 \<noteq> 1" using box(3) h(2-4) by metis
  moreover have "there (containers (service (hs_host h)) 1)" using box(2) h(3,4) by (metis option.inject)
  ultimately show ?thesis using h(1) by blast
qed



end
