(* ===== verification/Microvm_Calls.thy ===== *)
theory Microvm_Calls
  imports Backends Microvm_Safety
begin

section \<open>What each call of the microVM backend does to the host\<close>

text \<open>
  For every method of the backend and of its rooms: the object it makes, and what it changes of the
  instance directories and the running VMMs, when it returns, when it raises, and when the host does
  what it is asked.
\<close>

text \<open>
  What there is of an instance: a microVM that runs has its directory and its VMM; something is left
  of it while one of the two is there.
\<close>

definition vm_box :: "vm_host \<Rightarrow> string \<Rightarrow> cstate option" where
  "vm_box s i = (let d = i \<in> dirs (service s); v = i \<in> running (service s) in
     if d \<and> v then Some Running else if d \<or> v then Some Frozen else None)"

text \<open>
  The host does what it is asked: a VMM that is told to stop ends, a directory can be removed, the
  new directory can be written to, and a VMM that was started is not abandoned before it is ready.
\<close>

definition vm_obliging :: "vm_answers \<Rightarrow> bool" where
  "vm_obliging a \<longleftrightarrow> (let w = va_world a in stop_ends (stopping w) \<and> removable w \<and> on_owner w = None \<and> \<not> escapes w)"

text \<open>The names of new instances are new: no directory and no VMM has one.\<close>

definition tokens_fresh :: "(vm_host \<Rightarrow> vm_answers) \<Rightarrow> bool" where
  "tokens_fresh A \<longleftrightarrow> (\<forall>s nm. on_mkdir (va_world (A s)) = None \<longrightarrow>
     nm @ ''-'' @ va_token (A s) \<notin> dirs (service s) \<union> running (service s))"

lemma vm_box_simps [simp]: "vm_box (s\<lparr>made := n\<rparr>) = vm_box s" "vm_box (s\<lparr>spent := sp\<rparr>) = vm_box s"
  "vm_box (put_service v s) i = (if i \<in> dirs v \<and> i \<in> running v then Some Running
     else if i \<in> dirs v \<or> i \<in> running v then Some Frozen else None)"
  by (simp_all add: vm_box_def fun_eq_iff put_service_def)

subsection \<open>Only the instance itself is touched\<close>

definition elsewhere :: "string \<Rightarrow> vm_state \<Rightarrow> vm_state \<Rightarrow> bool" where
  "elsewhere i v s \<longleftrightarrow> dirs s - {i} = dirs v - {i} \<and> running s - {i} = running v - {i}"

lemma elsewhere_parts [keeps_intros]:
  "keeps (elsewhere i v) (modify_io (set_dir i))" "keeps (elsewhere i v) (modify_io (drop_dir i))"
  "keeps (elsewhere i v) (modify_io (set_running i))" "keeps (elsewhere i v) (modify_io (drop_running i))"
  "keeps (elsewhere i v) (modify_io (add_socks n))" "keeps (elsewhere i v) (modify_io id)"
  "keeps (elsewhere i v) (modify_io (log_api m p b))"
  by (auto intro!: keeps_modify simp: elsewhere_def set_dir_def drop_dir_def set_running_def drop_running_def
      add_socks_def log_api_def)

lemma elsewhere_stop [keeps_intros]: "keeps (elsewhere i v) (stop_vm a i)" "keeps (elsewhere i v) (remove_dir works i)"
  by (auto simp: stop_vm_def remove_dir_def intro!: keeps_intros split: sum.split)

lemma elsewhere_spawn [keeps_intros]: "keeps (elsewhere i v) (spawn w i)" "keeps (elsewhere i v) (lift_res r)"
  by (auto simp: spawn_def lift_res_def intro!: keeps_intros split: sum.split)

lemma elsewhere_attach [keeps_intros]: "keeps (elsewhere i v) (attach_vm w t)" "keeps (elsewhere i v) (api_put w p b)"
  by (auto simp: attach_vm_def send_resize_def api_put_def api_call_def intro!: keeps_intros split: sum.split)

lemma elsewhere_vm:
  "keeps (elsewhere (inst_id u) v) (open_vm w fc img k rc u)" "keeps (elsewhere i v) (destroy_vm w flag heard i)"
  by (auto simp: open_vm_defs boot_def configure_def cleanup_def destroy_vm_def Let_def intro!: keeps_intros)

lemma elsewhere_box:
  assumes "elsewhere i (service s) v"
  shows "vm_box (put_service v s) = (vm_box s)(i := vm_box (put_service v s) i)"
proof
  fix j
  have "j \<in> dirs v \<longleftrightarrow> j \<in> dirs (service s)" "j \<in> running v \<longleftrightarrow> j \<in> running (service s)" if "j \<noteq> i"
    using assms that by (auto simp: elsewhere_def)
  then show "vm_box (put_service v s) j = ((vm_box s)(i := vm_box (put_service v s) i)) j"
    by (auto simp: vm_box_def put_service_def)
qed

lemma on_service_eq: "on_service m s = (x, t) \<longleftrightarrow> (\<exists>v. m (service s) = (x, v) \<and> t = put_service v s)"
  by (auto simp: on_service_def io_simps split: prod.splits)

lemma put_service_made [simp]: "made (put_service v s) = made s"
  by (simp add: put_service_def)

subsection \<open>The calls\<close>

lemma spawn_ok: "spawn w i s = (Inr u, t) \<Longrightarrow> t = set_running i s"
  by (auto simp: spawn_def io_simps split: sum.splits option.splits if_splits prod.splits)

lemma on_error_ok: "on_error m c s = (Inr u, t) \<Longrightarrow> m s = (Inr u, t)"
  by (auto simp: io_simps split: prod.splits sum.splits)

lemma vm_opens:
  assumes "open_vm w fc img k room v s = (Inr v', t)"
  shows "v' = v \<and> on_mkdir w = None \<and> dirs t = insert (inst_id v) (dirs s) \<and> running t = insert (inst_id v) (running s)"
proof -
  have c: "created w img"
    using assms by (auto simp: open_vm_defs created_def Let_def io_simps split: if_splits option.splits)
  let ?i = "inst_id v"
  let ?first = "then_io (check_io (copy_rootfs w)) (bind_io (lift_res (machine_config room)) (\<lambda>m. spawn w ?i))"
  obtain u1 t1 u2 where first: "on_error ?first (cleanup w False ?i) (set_dir ?i s) = (Inr u1, t1)"
    and boot: "on_error (boot w fc k room v) (cleanup w True ?i) t1 = (Inr u2, t)" and v: "v' = v"
    using assms by (auto simp: open_vm_run [OF c] Let_def split: prod.splits sum.splits)
  have "t1 = set_running ?i (set_dir ?i s)"
    using on_error_ok [OF first]
    by (auto simp: then_io_run bind_io_run check_io_run lift_res_def raise_io_run ret_io_run dest: spawn_ok
        split: option.splits sum.splits prod.splits)
  moreover have "dirs t = dirs t1" "running t = running t1"
    using leaves_run [OF leaves_boot on_error_ok [OF boot]] by auto
  ultimately show ?thesis using v c by (simp add: created_def set_running_def set_dir_def)
qed

lemma microvm_opened:
  assumes "bk_open (microvm_backend A fc k) rc w l s = (Inr ob, t)" and fresh: "tokens_fresh A"
  shows "\<exists>v. ob = vm_room A (made s) v \<and> made t = Suc (made s) \<and> spent t = spent s
    \<and> vm_box s (inst_id v) = None \<and> vm_box t = (vm_box s)(inst_id v \<mapsto> Running)"
proof -
  let ?v = "instance_for (fc_runtime_dir fc) (rc_name rc) (va_token (A s))"
  obtain v' x where o: "open_vm (va_world (A s)) fc (va_image (A s)) k rc ?v (service s) = (Inr v', x)"
    and ob: "vm_made A v' (put_service x s) = (Inr ob, t)"
    using assms(1) by (auto simp: microvm_backend_def Let_def on_service_eq dest!: bind_io_ok)
  note f = vm_opens [OF o]
  have new: "inst_id ?v \<notin> dirs (service s)" "inst_id ?v \<notin> running (service s)"
    using fresh f by (auto simp: tokens_fresh_def instance_for_def Let_def)
  have "elsewhere (inst_id ?v) (service s) x" using f by (auto simp: elsewhere_def)
  from elsewhere_box [OF this] have "vm_box (put_service x s) = (vm_box s)(inst_id ?v \<mapsto> Running)" using f by simp
  moreover have "vm_box s (inst_id ?v) = None" using new by (simp add: vm_box_def)
  moreover have "ob = vm_room A (made s) ?v \<and> t = (put_service x s)\<lparr>made := Suc (made s)\<rparr>"
    using ob f by (auto simp: vm_made_def new_object_def io_simps)
  ultimately show ?thesis by (intro exI [of _ ?v]) simp
qed

lemma microvm_open_failed:
  assumes "bk_open (microvm_backend A fc k) rc w l s = (Inl e, t)" and fresh: "tokens_fresh A"
  shows "made t = made s" "spent t = spent s"
    "vm_box t = vm_box s \<or> (\<exists>i v. \<not> vm_obliging (A s) \<and> vm_box s i = None \<and> vm_box t = (vm_box s)(i := v))"
proof -
  let ?v = "instance_for (fc_runtime_dir fc) (rc_name rc) (va_token (A s))" and ?w = "va_world (A s)"
  obtain x where o: "open_vm ?w fc (va_image (A s)) k rc ?v (service s) = (Inl e, x)" and t: "t = put_service x s"
    using assms(1) by (auto simp: microvm_backend_def Let_def bind_io_run on_service_def vm_made_def new_object_def io_simps
        split: prod.splits sum.splits)
  then show "made t = made s" "spent t = spent s" by simp_all
  show "vm_box t = vm_box s \<or> (\<exists>i v. \<not> vm_obliging (A s) \<and> vm_box s i = None \<and> vm_box t = (vm_box s)(i := v))"
  proof (cases "on_mkdir ?w")
    case (Some err)
    then have "x = service s" using o by (auto simp: open_vm_defs Let_def io_simps split: if_splits)
    then show ?thesis by (simp add: t)
  next
    case None
    have new: "inst_id ?v \<notin> dirs (service s)" "inst_id ?v \<notin> running (service s)"
      using fresh None by (auto simp: tokens_fresh_def instance_for_def Let_def)
    have "elsewhere (inst_id ?v) (service s) x"
      by (rule keepsD [OF elsewhere_vm(1) _ o]) (simp add: elsewhere_def)
    note box = elsewhere_box [OF this]
    have old: "vm_box s (inst_id ?v) = None" using new by (simp add: vm_box_def)
    show ?thesis
    proof (cases "vm_obliging (A s)")
      case False
      then show ?thesis using box old t by blast
    next
      case True
      then have w: "stop_ends (stopping ?w)" "removable ?w" "on_owner ?w = None" "\<not> escapes ?w"
        by (simp_all add: vm_obliging_def Let_def)
      have "inst_id ?v \<notin> dirs x" "inst_id ?v \<notin> running x" using failed_vm [OF w(1,2) new o] w(3,4) by auto
      then have "vm_box t = (vm_box s)(inst_id ?v := None)" using box by (simp add: t)
      then show ?thesis using old by (simp add: fun_upd_idem)
    qed
  qed
qed

lemma microvm_destroyed:
  assumes "rm_destroy (vm_room A ob v) s = Some (x, t)" "ob \<notin> spent s"
  shows "made t = made s" "spent t = insert ob (spent s)" "\<exists>u. vm_box t = (vm_box s)(inst_id v := u)"
    "vm_obliging (A s) \<Longrightarrow> is_ok x \<and> vm_box t = (vm_box s)(inst_id v := None)"
proof -
  let ?i = "inst_id v" and ?w = "va_world (A s)"
  obtain y where d: "destroy_vm ?w False (va_heard (A s)) ?i (service s) = (x, y)"
    and t: "t = put_service y (s\<lparr>spent := insert ob (spent s)\<rparr>)"
    using assms by (auto simp: vm_room_def flagged_destroy_def vm_destroy_def on_service_eq)
  show "made t = made s" "spent t = insert ob (spent s)" by (simp_all add: t)
  have "elsewhere ?i (service s) y" by (rule keepsD [OF elsewhere_vm(2) _ d]) (simp add: elsewhere_def)
  then have box: "vm_box t = (vm_box s)(?i := vm_box t ?i)"
    using elsewhere_box [of ?i "s\<lparr>spent := insert ob (spent s)\<rparr>" y] by (simp add: t)
  then show "\<exists>u. vm_box t = (vm_box s)(?i := u)" by blast
  show "is_ok x \<and> vm_box t = (vm_box s)(?i := None)" if o: "vm_obliging (A s)"
  proof -
    have "stop_ends (stopping ?w)" "removable ?w" using o by (simp_all add: vm_obliging_def Let_def)
    from destroy_vm_run [OF this, of "va_heard (A s)" ?i "service s"] d
    have "is_ok x" "?i \<notin> dirs y" "?i \<notin> running y"
      by (auto simp: drop_dir_def drop_running_def add_socks_def)
    then have "vm_box t ?i = None" by (simp add: t)
    then show ?thesis using box \<open>is_ok x\<close> by metis
  qed
qed

lemma microvm_quiet:
  "rm_read (vm_room A ob v) s = (x, t) \<Longrightarrow> t = s" "rm_write (vm_room A ob v) d s = (u, t) \<Longrightarrow> t = s"
  "snd (rm_resize (vm_room A ob v) w l s) = s"
  by (auto simp: vm_room_def send_resize_def on_service_def io_simps split: option.split)

end
