(* ===== verification/Sealed.thy ===== *)
theory Sealed
  imports House_Safety Routing
begin

section \<open>Guest memory stays off the disk\<close>

text \<open>
  The sessions over the registry of both real backends. firecracker.py refuses to pause a room,
  because a snapshot writes the memory of the guest to disk in the clear; the code that could do it
  is still there, behind \<open>pause\<close>. Here every layer is shown to keep that promise: the microVM
  backend, the wrappers of the registry, and the session layer, which asks \<open>can_pause\<close> first.
\<close>

subsection \<open>The backends\<close>

definition no_snapshot :: "vm_state \<Rightarrow> bool" where
  "no_snapshot v \<longleftrightarrow> (\<forall>c\<in>set (api_log v). fst (snd c) \<noteq> ''/snapshot/create'')"

definition sealed :: "vm_host \<Rightarrow> bool" where
  "sealed s \<longleftrightarrow> no_snapshot (service s)"

lemma keeps_service: "keeps no_snapshot m \<Longrightarrow> keeps sealed (on_service m)"
  by (rule keepsI) (auto simp: sealed_def on_service_def io_simps put_service_def split: prod.splits dest: keepsD)

lemma keeps_parts [keeps_intros]:
  "keeps no_snapshot (modify_io (set_dir i))" "keeps no_snapshot (modify_io (drop_dir i))"
  "keeps no_snapshot (modify_io (set_running i))" "keeps no_snapshot (modify_io (drop_running i))"
  "keeps no_snapshot (modify_io (add_socks n))" "keeps no_snapshot (modify_io id)"
  by (auto intro!: keeps_modify simp: no_snapshot_def set_dir_def drop_dir_def set_running_def drop_running_def add_socks_def)

lemma keeps_api [keeps_intros]: "p \<noteq> ''/snapshot/create'' \<Longrightarrow> keeps no_snapshot (api_call w m p j)"
  "p \<noteq> ''/snapshot/create'' \<Longrightarrow> keeps no_snapshot (api_put w p j)"
  by (auto simp: api_put_def api_call_def no_snapshot_def log_api_def intro!: keeps_intros keeps_modify)

lemma keeps_stop [keeps_intros]: "keeps no_snapshot (stop_vm a i)" "keeps no_snapshot (remove_dir works i)"
  by (auto simp: stop_vm_def remove_dir_def intro!: keeps_intros split: sum.split)

lemma keeps_lift [keeps_intros]: "keeps no_snapshot (lift_res r)"
  by (auto simp: lift_res_def intro!: keeps_intros split: sum.split)

lemma keeps_spawn [keeps_intros]: "keeps no_snapshot (spawn w i)"
  by (auto simp: spawn_def intro!: keeps_intros split: sum.split)

lemma keeps_attach [keeps_intros]: "keeps no_snapshot (attach_vm w t)" "keeps no_snapshot (send_resize w)"
  by (auto simp: attach_vm_def send_resize_def intro!: keeps_intros split: sum.split)

lemma keeps_vm:
  "keeps no_snapshot (open_vm w fc img k rc v)" "keeps no_snapshot (resume_vm w fc v)"
  "keeps no_snapshot (destroy_vm w flag heard i)" "keeps no_snapshot (destroy_kept_vm w v)"
  by (auto simp: open_vm_defs boot_def configure_def cleanup_def resume_vm_def destroy_vm_def destroy_kept_vm_def Let_def
      intro!: keeps_intros)

lemma keeps_new_object: "keeps sealed new_object"
  by (rule keepsI) (auto simp: new_object_def sealed_def)

lemma vm_room_safe: "safe_room sealed Q (vm_room A ob v)"
proof -
  have "sealed t" if "sealed s" "flagged_destroy ob (vm_destroy A v) s = Some (x, t)" for s x t
  proof -
    have "on_service (destroy_vm (va_world (A s)) (ob \<in> spent s) (va_heard (A s)) (inst_id v)) (s\<lparr>spent := insert ob (spent s)\<rparr>) = (x, t)"
      using that(2) by (simp add: flagged_destroy_def vm_destroy_def)
    moreover have "sealed (s\<lparr>spent := insert ob (spent s)\<rparr>)" using that(1) by (simp add: sealed_def)
    ultimately show ?thesis using keepsD [OF keeps_service [OF keeps_vm(3)]] by blast
  qed
  moreover have "keeps sealed (\<lambda>s. on_service (send_resize (va_world (A s))) s)"
    by (rule keepsI) (auto dest: keepsD [OF keeps_service [OF keeps_attach(2)]])
  ultimately show ?thesis by (auto simp: safe_room_def vm_room_def intro: keepsI)
qed

lemma vm_made_safe:
  "sealed s \<Longrightarrow> vm_made A v s = (x, t) \<Longrightarrow> sealed t \<and> (\<forall>r. x = Inr r \<longrightarrow> safe_room sealed Q r)"
  by (auto simp: vm_made_def new_object_def io_simps vm_room_safe sealed_def)

lemma made_after:
  assumes "keeps sealed m" "sealed s" "bind_io m (vm_made A) s = (x, t)"
  shows "sealed t \<and> (\<forall>r. x = Inr r \<longrightarrow> safe_room sealed Q r)"
  using assms keepsD [OF assms(1,2)] vm_made_safe [of _ A _ x t Q]
  by (auto simp: io_simps split: prod.splits sum.splits)

interpretation microvm_sealed: guarded_backend "microvm_backend A fc k" sealed Q for A fc k Q
proof
  show "sealed t \<and> (\<forall>r. x = Inr r \<longrightarrow> safe_room sealed Q r)"
    if "sealed s" "bk_open (microvm_backend A fc k) rc w l s = (x, t)" for s rc w l x t
    using that made_after [OF keeps_service [OF keeps_vm(1)]] by (simp add: microvm_backend_def Let_def)
  show "sealed t \<and> (\<forall>r. x = Inr r \<longrightarrow> safe_room sealed Q r)"
    if "sealed s" "Q h" "bk_resume (microvm_backend A fc k) h w l s = (x, t)" for s h w l x t
    using that made_after [OF keeps_service [OF keeps_vm(2)]] by (simp add: microvm_backend_def Let_def)
  show "keeps sealed (bk_destroy_kept (microvm_backend A fc k) h)" if "Q h" for h
    by (rule keepsI) (auto simp: microvm_backend_def dest: keepsD [OF keeps_service [OF keeps_vm(4)]])
qed

subsection \<open>The wrappers\<close>

lemma lift_room_safe:
  assumes "part gt pt" "\<And>s. P s \<Longrightarrow> P' (gt s)" "\<And>d s. P s \<Longrightarrow> P' d \<Longrightarrow> P (pt d s)"
    and "\<And>x. Q' x \<Longrightarrow> Q (kind x)" "safe_room P' Q' r"
  shows "safe_room P Q (lift_room gt pt kind r)"
proof -
  have part: "keeps P (on_part gt pt m)" if "keeps P' m" for m
    by (rule keepsI) (auto simp: io_simps split: prod.splits intro!: assms(3) keepsD [OF that assms(2)])
  note r = assms(5) [unfolded safe_room_def]
  have "P t" if now: "P s" and d: "on_part_opt gt pt (rm_destroy r) s = Some (x, t)" for s x t
  proof -
    obtain g where g: "rm_destroy r (gt s) = Some (x, g)" "t = pt g s"
      using d by (auto simp: on_part_opt_def split: option.splits)
    then have "P' g" using r assms(2) [OF now] by blast
    then show ?thesis using assms(3) [OF now] g(2) by simp
  qed
  moreover have "keeps P (bind_io (on_part gt pt (rm_pause r)) (\<lambda>k. ret_io (kind k)))" if "rm_can_pause r"
    using that r part by (auto intro!: keeps_intros)
  moreover have "Q k" if can: "rm_can_pause r" and now: "P s"
      and d: "bind_io (on_part gt pt (rm_pause r)) (\<lambda>k. ret_io (kind k)) s = (Inr k, t)" for s k t
  proof -
    obtain x g where x: "rm_pause r (gt s) = (Inr x, g)" "k = kind x"
      using d by (auto simp: io_simps split: prod.splits sum.splits)
    then have "Q' x" using r can assms(2) [OF now] by blast
    then show ?thesis using assms(4) x(2) by simp
  qed
  ultimately show ?thesis using r by (intro safe_roomI) (simp_all add: lift_room_def part)
qed

lemma lift_guarded:
  assumes b: "guarded_backend b P' Q'" and part: "part gt pt"
    and get: "\<And>s. P s \<Longrightarrow> P' (gt s)" and put: "\<And>d s. P s \<Longrightarrow> P' d \<Longrightarrow> P (pt d s)"
    and kind: "\<And>x. Q' x \<Longrightarrow> Q (kind x)" and unkind: "\<And>k x. Q k \<Longrightarrow> unkind k = Some x \<Longrightarrow> Q' x"
  shows "guarded_backend (lift_backend gt pt kind unkind b) P Q"
proof (rule guarded_backend.intro)
  let ?b = "lift_backend gt pt kind unkind b"
  note room = lift_room_safe [of gt pt P P' Q' Q kind, OF part get put kind]
  have made: "P t \<and> (\<forall>r. x = Inr r \<longrightarrow> safe_room P Q r)"
    if "P s" "on_part gt pt call s = (y, u)" "\<And>z g. call (gt s) = (z, g) \<Longrightarrow> P' g \<and> (\<forall>r. z = Inr r \<longrightarrow> safe_room P' Q' r)"
      "bind_io (on_part gt pt call) (\<lambda>r. ret_io (lift_room gt pt kind r)) s = (x, t)" for s call y u x t
    using that put room by (auto simp: io_simps split: prod.splits sum.splits)
  show "P t \<and> (\<forall>r. x = Inr r \<longrightarrow> safe_room P Q r)" if "P s" "bk_open ?b rc w l s = (x, t)" for s rc w l x t
    using that made [of s "bk_open b rc w l"] guarded_backend.opens [OF b get [OF that(1)]]
    by (auto simp: lift_backend_def io_simps split: prod.splits sum.splits)
  show "P t \<and> (\<forall>r. x = Inr r \<longrightarrow> safe_room P Q r)" if "P s" "Q k" "bk_resume ?b k w l s = (x, t)" for s k w l x t
  proof (cases "unkind k")
    case None
    then show ?thesis using that by (auto simp: lift_backend_def cast_kept_def io_simps)
  next
    case (Some y)
    then show ?thesis
      using that made [of s "bk_resume b y w l"] guarded_backend.resumes [OF b get [OF that(1)] unkind [OF that(2) Some]]
      by (auto simp: lift_backend_def cast_kept_def io_simps split: prod.splits sum.splits)
  qed
  show "keeps P (bk_destroy_kept ?b k)" if "Q k" for k
  proof (cases "unkind k")
    case None
    then show ?thesis by (simp add: lift_backend_def cast_kept_def keeps_def io_simps)
  next
    case (Some y)
    show ?thesis
      by (rule keepsI) (auto simp: Some lift_backend_def cast_kept_def io_simps split: prod.splits
          intro!: put keepsD [OF guarded_backend.sweeps [OF b unkind [OF that Some]] get])
  qed
qed

subsection \<open>The registry\<close>

text \<open>What holds of the registry: \<open>P\<close> of its host, and \<open>G\<close> of each of its backends; and of its handles.\<close>

definition registry_ok ::
  "('s \<Rightarrow> bool) \<Rightarrow> (string \<Rightarrow> ('s, 'k) backend \<Rightarrow> bool) \<Rightarrow> ('s, 'k) routing \<Rightarrow> bool" where
  "registry_ok P G s \<longleftrightarrow> P (rt_world s) \<and> (\<forall>nm b. dget (rt_backends s) nm = Some b \<longrightarrow> G nm b)"

definition handle_ok :: "(string \<Rightarrow> 'k \<Rightarrow> bool) \<Rightarrow> 'k handle \<Rightarrow> bool" where
  "handle_ok Q x \<longleftrightarrow> (case x of Routed nm k \<Rightarrow> Q nm k | Foreign \<Rightarrow> False)"

definition factories_ok ::
  "('s \<Rightarrow> bool) \<Rightarrow> (string \<Rightarrow> ('s, 'k) backend \<Rightarrow> bool) \<Rightarrow> (string, ('s, 'k) factory) dict \<Rightarrow> config \<Rightarrow> bool" where
  "factories_ok P G fs cfg \<longleftrightarrow> (\<forall>nm f u x v. dget fs nm = Some f \<longrightarrow> P u \<longrightarrow> f cfg u = (x, v) \<longrightarrow>
     P v \<and> (\<forall>b. x = Inr b \<longrightarrow> G nm b))"

lemma registry_okD: "registry_ok P G s \<Longrightarrow> P (rt_world s)"
  "registry_ok P G s \<Longrightarrow> dget (rt_backends s) nm = Some b \<Longrightarrow> G nm b"
  by (simp_all add: registry_ok_def)

lemma registry_world: "registry_ok P G s \<Longrightarrow> P w \<Longrightarrow> registry_ok P G (put_world w s)"
  by (simp add: registry_ok_def)

lemma keeps_in_world: "keeps P m \<Longrightarrow> keeps (registry_ok P G) (in_world m)"
  by (rule keepsI) (auto simp: in_world_run split: prod.splits intro!: registry_world dest: registry_okD keepsD)

lemma get_backend_ok:
  assumes f: "factories_ok P G fs cfg" and s: "registry_ok P G s" and g: "get_backend fs cfg nm s = (x, t)"
  shows "registry_ok P G t \<and> (\<forall>b. x = Inr b \<longrightarrow> G nm b)"
proof (cases "dget (rt_backends s) nm")
  case (Some b)
  then show ?thesis using s g by (auto simp: get_backend_def dest: registry_okD)
next
  case None
  note run = get_backend_new [OF None, of fs cfg]
  show ?thesis
  proof (cases "dget fs nm")
    case None
    then show ?thesis using s g run by auto
  next
    case (Some fac)
    obtain y w where y: "fac cfg (rt_world s) = (y, w)" by fastforce
    then have w: "P w" "\<And>b. y = Inr b \<Longrightarrow> G nm b"
      using f Some registry_okD(1) [OF s] unfolding factories_ok_def by blast+
    have "registry_ok P G (add_backend nm b (put_world w s))" if "y = Inr b" for b
      using s w(1) w(2) [OF that] by (auto simp: registry_ok_def dget_dset)
    then show ?thesis using g run Some y w registry_world [OF s] by (cases y) auto
  qed
qed

lemma routed_room_safe:
  assumes "safe_room P (Q nm) r"
  shows "safe_room (registry_ok P G) (handle_ok Q) (routed_room nm r)"
proof -
  note r = assms [unfolded safe_room_def]
  have "registry_ok P G t" if now: "registry_ok P G s" and d: "on_part_opt rt_world put_world (rm_destroy r) s = Some (x, t)" for s x t
  proof -
    obtain g where g: "rm_destroy r (rt_world s) = Some (x, g)" "t = put_world g s"
      using d by (auto simp: on_part_opt_def split: option.splits)
    then have "P g" using r registry_okD(1) [OF now] by blast
    then show ?thesis using registry_world [OF now] g(2) by simp
  qed
  moreover have "handle_ok Q k" if can: "rm_can_pause r" and now: "registry_ok P G s"
      and d: "bind_io (in_world (rm_pause r)) (\<lambda>k. ret_io (Routed nm k)) s = (Inr k, t)" for s k t
  proof -
    obtain x g where x: "rm_pause r (rt_world s) = (Inr x, g)" "k = Routed nm x"
      using d by (auto simp: io_simps split: prod.splits sum.splits)
    then have "Q nm x" using r can registry_okD(1) [OF now] by blast
    then show ?thesis using x(2) by (simp add: handle_ok_def)
  qed
  moreover have "keeps (registry_ok P G) (bind_io (in_world (rm_pause r)) (\<lambda>k. ret_io (Routed nm k)))" if "rm_can_pause r"
    using r that by (intro keeps_intros keeps_in_world) blast
  ultimately show ?thesis using r by (intro safe_roomI) (simp_all add: routed_room_def keeps_in_world)
qed

lemma routed_after:
  assumes f: "factories_ok P G fs cfg" and s: "registry_ok P G s"
    and call: "\<And>b w x v. G nm b \<Longrightarrow> P w \<Longrightarrow> call b w = (x, v) \<Longrightarrow>
        P v \<and> (\<forall>r. x = Inr r \<longrightarrow> safe_room P (Q nm) r)"
    and run: "bind_io (get_backend fs cfg nm) (\<lambda>b. bind_io (in_world (call b)) (\<lambda>r. ret_io (routed_room nm r))) s = (x, t)"
  shows "registry_ok P G t \<and> (\<forall>r. x = Inr r \<longrightarrow> safe_room (registry_ok P G) (handle_ok Q) r)"
proof -
  obtain y u where g: "get_backend fs cfg nm s = (y, u)" by fastforce
  note u = get_backend_ok [OF f s g]
  show ?thesis
  proof (cases y)
    case (Inl e)
    then show ?thesis using run g u by (auto simp: io_simps)
  next
    case (Inr b)
    obtain z v where z: "call b (rt_world u) = (z, v)" by fastforce
    have b: "G nm b" "registry_ok P G u" using u Inr by auto
    note c = call [OF b(1) registry_okD(1) [OF b(2)] z]
    then have room: "z = Inr r \<Longrightarrow> safe_room P (Q nm) r" for r by blast
    have t: "registry_ok P G (put_world v u)" using registry_world [OF b(2)] c by blast
    show ?thesis
    proof (cases z)
      case (Inl e)
      then show ?thesis using run g Inr z t by (auto simp: io_simps)
    next
      case (Inr r)
      then show ?thesis using run g \<open>y = Inr b\<close> z t routed_room_safe [of P Q nm r] room by (auto simp: io_simps)
    qed
  qed
qed

lemma routing_guarded:
  assumes f: "factories_ok P G fs cfg" and G: "\<And>nm b. G nm b \<Longrightarrow> guarded_backend b P (Q nm)"
  shows "guarded_backend (routing_backend fs cfg) (registry_ok P G) (handle_ok Q)"
proof
  let ?b = "routing_backend fs cfg"
  show "registry_ok P G t \<and> (\<forall>r. x = Inr r \<longrightarrow> safe_room (registry_ok P G) (handle_ok Q) r)"
    if "registry_ok P G s" "bk_open ?b rc w l s = (x, t)" for s rc w l x t
  proof -
    have "bind_io (get_backend fs cfg (name_for cfg rc)) (\<lambda>b. bind_io (in_world (bk_open b rc w l))
        (\<lambda>r. ret_io (routed_room (name_for cfg rc) r))) s = (x, t)"
      using that(2) by (simp add: routing_backend_def Let_def)
    then show ?thesis
      by (rule routed_after [OF f that(1), rotated]) (rule guarded_backend.opens [OF G])
  qed
  show "registry_ok P G t \<and> (\<forall>r. x = Inr r \<longrightarrow> safe_room (registry_ok P G) (handle_ok Q) r)"
    if now: "registry_ok P G s" and ok: "handle_ok Q k" and run: "bk_resume ?b k w l s = (x, t)" for s k w l x t
  proof -
    obtain nm h where k: "k = Routed nm h" "Q nm h" using ok by (auto simp: handle_ok_def split: handle.splits)
    have "bind_io (get_backend fs cfg nm) (\<lambda>b. bind_io (in_world (bk_resume b h w l)) (\<lambda>r. ret_io (routed_room nm r))) s = (x, t)"
      using run k(1) by (simp add: routing_backend_def unrouted_def io_simps)
    then show ?thesis
      by (rule routed_after [OF f now, rotated]) (rule guarded_backend.resumes [OF G _ k(2)])
  qed
  show "keeps (registry_ok P G) (bk_destroy_kept ?b k)" if ok: "handle_ok Q k" for k
  proof -
    obtain nm h where k: "k = Routed nm h" "Q nm h" using ok by (auto simp: handle_ok_def split: handle.splits)
    have "registry_ok P G t" if s: "registry_ok P G s" and run: "bk_destroy_kept ?b k s = (x, t)" for s x t
    proof -
      obtain y u where g: "get_backend fs cfg nm s = (y, u)" by fastforce
      note u = get_backend_ok [OF f s g]
      show ?thesis
      proof (cases y)
        case (Inl e)
        then show ?thesis using run g u k(1) by (simp add: routing_backend_def unrouted_def io_simps)
      next
        case (Inr b)
        then have "bk_destroy_kept ?b k s = in_world (bk_destroy_kept b h) u"
          using g k(1) by (simp add: routing_backend_def unrouted_def io_simps)
        moreover have "guarded_backend b P (Q nm)" using G u Inr by blast
        then have "keeps (registry_ok P G) (in_world (bk_destroy_kept b h))"
          by (intro keeps_in_world guarded_backend.sweeps [of b P "Q nm"] k(2))
        ultimately show ?thesis using keepsD [of "registry_ok P G"] u run by metis
      qed
    qed
    then show ?thesis by (rule keepsI)
  qed
qed

subsection \<open>The two real backends\<close>

definition site_sealed :: "site_state \<Rightarrow> bool" where
  "site_sealed s \<longleftrightarrow> sealed (vm_part s)"

text \<open>The only handles that are ever made: those of containers, under the name of their backend.\<close>

definition container_handle :: "string \<Rightarrow> any_kept \<Rightarrow> bool" where
  "container_handle nm k \<longleftrightarrow> nm = ''docker'' \<and> (\<exists>c. k = DockerKept c)"

lemma site_parts:
  "site_sealed (put_docker d s) = site_sealed s" "site_sealed (put_vm v s) = sealed v"
  "site_sealed (put_entries e s) = site_sealed s"
  by (simp_all add: site_sealed_def put_docker_def put_vm_def put_entries_def)

lemma docker_guarded:
  "guarded_backend (lift_backend docker_part put_docker DockerKept docker_kept b) site_sealed (container_handle ''docker'')"
  by (rule lift_guarded [OF any_backend.guarded_backend_axioms docker_side.part_axioms])
    (simp_all add: site_parts container_handle_def)

lemma vm_guarded:
  "guarded_backend (lift_backend vm_part put_vm FirecrackerKept vm_kept (microvm_backend A fc k)) site_sealed
     (container_handle ''firecracker'')"
  by (rule lift_guarded [OF microvm_sealed.guarded_backend_axioms [of A fc k "\<lambda>_. False"] vm_side.part_axioms])
    (simp_all add: site_sealed_def put_vm_def container_handle_def)

text \<open>Every backend keeps the promise.\<close>

definition sealed_backend :: "string \<Rightarrow> (site_state, any_kept) backend \<Rightarrow> bool" where
  "sealed_backend nm b \<longleftrightarrow> guarded_backend b site_sealed (container_handle nm)"

lemma site_factories: "factories_ok site_sealed sealed_backend (FACTORIES st) cfg"
proof -
  have "site_sealed v \<and> (\<forall>b. x = Inr b \<longrightarrow> sealed_backend ''docker'' b)"
    if "site_sealed u" "docker_factory st cfg u = (x, v)" for u x v
    using that docker_guarded by (auto simp: sealed_backend_def docker_factory_def io_simps split: option.splits)
  moreover have "site_sealed v \<and> (\<forall>b. x = Inr b \<longrightarrow> sealed_backend ''firecracker'' b)"
    if "site_sealed u" "firecracker_factory st cfg u = (x, v)" for u x v
    using that vm_guarded
    by (auto simp: sealed_backend_def firecracker_factory_def io_simps Let_def site_parts split: option.splits prod.splits sum.splits)
  moreover have "f = docker_factory st \<and> nm = ''docker'' \<or> f = firecracker_factory st \<and> nm = ''firecracker''"
    if "dget (FACTORIES st) nm = Some f" for nm f
    using that by (auto simp: FACTORIES_def split: if_splits)
  ultimately show ?thesis unfolding factories_ok_def by metis
qed

interpretation routing_sealed: guarded_backend "routing_backend (FACTORIES st) cfg"
    "registry_ok site_sealed sealed_backend" "handle_ok container_handle" for st cfg
  by (rule routing_guarded [OF site_factories]) (simp add: sealed_backend_def)

lemma get_all_keeps:
  assumes "factories_ok P G fs cfg" "registry_ok P G s" "get_all fs cfg nms s = (x, t)"
  shows "registry_ok P G t"
  using assms(2,3)
proof (induction nms arbitrary: s)
  case (Cons nm nms)
  obtain y u where g: "get_backend fs cfg nm s = (y, u)" by fastforce
  then have "registry_ok P G u" using get_backend_ok [OF assms(1) Cons.prems(1)] by blast
  then show ?case using Cons g by (cases y) (auto simp: io_simps)
qed (simp add: io_simps)

lemma new_routing_sealed: "site_sealed s \<Longrightarrow> new_routing (FACTORIES st) cfg s = (x, r) \<Longrightarrow> registry_ok site_sealed sealed_backend r"
  unfolding new_routing_def by (rule get_all_keeps [OF site_factories]) (simp_all add: registry_ok_def)

subsection \<open>Properties\<close>

text \<open>
  Property C10. With both real backends under the registry, and whatever clients, timers,
  cancellations and the outside do: no microVM is ever snapshotted, so the memory of a guest is
  never written to disk, and every handle of a paused room is a container's, tagged with the
  Docker backend.
\<close>

theorem guest_memory_stays_off_disk:
  assumes "new_routing (FACTORIES st) cfg s0 = (Inr (), r0)" "site_sealed s0" "new_server y"
    and "(house_step (routing_backend (FACTORIES st) cfg))\<^sup>*\<^sup>* (new_house y r0) h"
  shows "(\<forall>c\<in>set (api_log (service (vm_part (rt_world (hs_host h))))). fst (snd c) \<noteq> ''/snapshot/create'')
    \<and> (\<forall>k x. hs_handles h k = Some x \<longrightarrow> (\<exists>c. x = Routed ''docker'' (DockerKept c)))"
proof -
  have "house_ok (registry_ok site_sealed sealed_backend) (handle_ok container_handle) (new_house y r0)"
    using routing_sealed.start [OF assms(3) new_routing_sealed [OF assms(2,1)]] .
  then have h: "house_ok (registry_ok site_sealed sealed_backend) (handle_ok container_handle) h"
    by (rule routing_sealed.house.along [OF assms(4)])
  have "site_sealed (rt_world (hs_host h))" using house_okD(2) [OF h] registry_okD(1) by blast
  moreover have "\<exists>c. x = Routed ''docker'' (DockerKept c)" if "hs_handles h k = Some x" for k x
    using house_okD(3) [OF h that] by (auto simp: handle_ok_def container_handle_def split: handle.splits)
  ultimately show ?thesis by (simp add: site_sealed_def sealed_def no_snapshot_def)
qed

definition first_registry :: "(site_state, any_kept) routing" where
  "first_registry = snd (new_routing (FACTORIES calm_site) (builtin_config sample_env) calm_state)"

theorem guest_memory_stays_off_disk_witness:
  "\<exists>h x. house_run (routing_backend (FACTORIES calm_site) (builtin_config sample_env)) check_in_and_drop
      (new_house (plain_server True) first_registry) = Some h \<and> hs_handles h 5 = Some x \<and> (\<exists>c. x = Routed ''docker'' (DockerKept c))"
proof -
  let ?b = "routing_backend (FACTORIES calm_site) (builtin_config sample_env)"
  let ?h = "house_run ?b check_in_and_drop (new_house (plain_server True) first_registry)"
  have "?h \<noteq> None \<and> hs_handles (the ?h) 5 \<noteq> None" by code_simp
  then obtain h x where h: "?h = Some h" "hs_handles h 5 = Some x" by auto
  have "fst (new_routing (FACTORIES calm_site) (builtin_config sample_env) calm_state) = Inr ()" by code_simp
  then have r: "new_routing (FACTORIES calm_site) (builtin_config sample_env) calm_state = (Inr (), first_registry)"
    by (simp add: first_registry_def prod_eq_iff)
  have "site_sealed calm_state" by (simp add: site_sealed_def sealed_def no_snapshot_def calm_state_def)
  from guest_memory_stays_off_disk [OF r this plain_new house_run_steps [OF h(1)]] show ?thesis using h by blast
qed

text \<open>
  Property C9. The sessions on any backend are the sessions of the session layer: each event of a
  house is one of its steps, with an answer of the backend, or a resize, which only the host sees;
  so whatever holds of every reachable server holds here. Every room that the session layer has
  heard of has its object, which answers \<open>can_pause\<close> as the session layer believes, and no room is
  asked to pause that says it cannot.
\<close>

theorem house_implements_sessions:
  assumes "new_server y" "(house_step b)\<^sup>*\<^sup>* (new_house y g) h"
  shows "server_reachable (hs_sys h)
    \<and> (\<forall>h'. house_step b h h' \<longrightarrow> server_step (hs_sys h) (hs_sys h')
         \<or> (hs_sys h' = hs_sys h \<and> hs_objs h' = hs_objs h \<and> hs_handles h' = hs_handles h))
    \<and> (\<forall>r. rooms (hs_sys h) r \<noteq> RFresh \<longrightarrow> (\<exists>ob. hs_objs h r = Some ob \<and> rm_can_pause ob = can_pause (hs_sys h) r))
    \<and> (\<forall>i r. teardown (sess (hs_sys h) i) = TPausing r \<longrightarrow> (\<exists>ob. hs_objs h r = Some ob \<and> rm_can_pause ob))"
proof -
  have ok: "house_ok (\<lambda>_. True) (\<lambda>_. True) h"
    by (rule any_backend.house.along [OF assms(2)]) (rule any_backend.start [OF assms(1)], simp)
  have "server_step (hs_sys h) (hs_sys h') \<or> (hs_sys h' = hs_sys h \<and> hs_objs h' = hs_objs h \<and> hs_handles h' = hs_handles h)"
    if "house_step b h h'" for h'
    using that house_step_cases [of b h h'] by blast
  moreover have obj: "\<exists>ob. hs_objs h r = Some ob \<and> rm_can_pause ob = can_pause (hs_sys h) r" if "rooms (hs_sys h) r \<noteq> RFresh" for r
    using house_okD(6) [OF ok, of r] that by (auto simp: obj_ok_def split: option.splits)
  moreover have "\<exists>ob. hs_objs h r = Some ob \<and> rm_can_pause ob" if "teardown (sess (hs_sys h) i) = TPausing r" for i r
    using obj [of r] held_teardown [OF house_okD(1) [OF ok], of i r False] house_okD(5) [OF ok that] that by simp
  ultimately show ?thesis using house_okD(1) [OF ok] by blast
qed

theorem house_implements_sessions_witness:
  "\<exists>h. house_run (docker_of calm_site) check_in_and_drop (new_house (plain_server True) calm_state) = Some h
     \<and> server_reachable (hs_sys h) \<and> (\<exists>k. rooms (hs_sys h) 0 = RPaused k) \<and> (\<exists>ob. hs_objs h 0 = Some ob \<and> rm_can_pause ob = can_pause (hs_sys h) 0)"
proof -
  let ?h = "house_run (docker_of calm_site) check_in_and_drop (new_house (plain_server True) calm_state)"
  have "?h \<noteq> None \<and> rooms (hs_sys (the ?h)) 0 = RPaused 5" by code_simp
  then obtain h where h: "?h = Some h" "rooms (hs_sys h) 0 = RPaused 5" by auto
  then show ?thesis using house_implements_sessions [OF plain_new house_run_steps [OF h(1)]] by auto
qed

end
