(* ===== verification/Microvm_Tenancy.thy ===== *)
theory Microvm_Tenancy
  imports Renting Microvm_Calls Sealed
begin

section \<open>Every microVM has its tenant (session.py over firecracker.py)\<close>

text \<open>
  The microVM backend rents out microVMs, by the name of their instance. It never pauses a room, so
  that it has no handles: what it would do with one does not matter.
\<close>

definition vm_ledger :: "(vm_host \<Rightarrow> vm_answers) \<Rightarrow> (vm_host, vm_instance, nat, string) ledger" where
  "vm_ledger A = \<lparr>is_room = (\<lambda>n i r. \<exists>v. inst_id v = i \<and> r = vm_room A n v), kept_box = inst_id, box_of = vm_box,
     minted = (\<lambda>s. {..<made s}), retired = spent\<rparr>"

lemma vm_ledger_simps [simp]:
  "is_room (vm_ledger A) n i r \<longleftrightarrow> (\<exists>v. inst_id v = i \<and> r = vm_room A n v)" "kept_box (vm_ledger A) v = inst_id v"
  "box_of (vm_ledger A) = vm_box" "minted (vm_ledger A) s = {..<made s}" "retired (vm_ledger A) = spent"
  by (simp_all add: vm_ledger_def)

lemma vm_rebox: "rebox (vm_ledger A) s D t \<longleftrightarrow> {..<made t} = {..<made s} \<and> spent t = spent s \<and> vm_box t = D"
  by (simp add: rebox_def)

lemma vm_never_pauses: "\<not> rm_can_pause (vm_room A n v)"
  by (simp add: vm_room_def)

interpretation vm_books: room_books sealed "vm_ledger A" "\<forall>s. vm_obliging (A s)" for A
proof
  let ?L = "vm_ledger A"
  show "kept_box ?L k = c \<and> (rebox ?L s (box_of ?L s) t \<or> rebox ?L s ((box_of ?L s)(c \<mapsto> Frozen)) t)"
    if "is_room ?L n c r" "rm_can_pause r" for n c r s k t
    using that vm_never_pauses by auto
  show "rebox ?L s (box_of ?L s) t \<and> ((\<forall>s. vm_obliging (A s)) \<longrightarrow> is_exception e)"
    if "is_room ?L n c r" "rm_can_pause r" for n c r s e t
    using that vm_never_pauses by auto
  show "minted ?L t = minted ?L s \<and> retired ?L t \<subseteq> insert n (retired ?L s)
      \<and> (\<exists>v. box_of ?L t = (box_of ?L s)(c := v) \<and> ((\<forall>s. vm_obliging (A s)) \<longrightarrow> \<not> there v))"
    if room: "is_room ?L n c r" and new: "n \<notin> retired ?L s" and does: "rm_destroy r s = Some (x, t)" for n c r s x t
  proof -
    obtain v where v: "inst_id v = c" "rm_destroy (vm_room A n v) s = Some (x, t)" using room does by auto
    note d = microvm_destroyed [OF v(2)]
    have "\<exists>u. vm_box t = (vm_box s)(c := u) \<and> ((\<forall>s. vm_obliging (A s)) \<longrightarrow> \<not> there u)"
    proof (cases "vm_obliging (A s)")
      case True
      then have "vm_box t = (vm_box s)(c := None)" using d(4) new v(1) by simp
      then show ?thesis by (intro exI [of _ None]) simp
    next
      case False
      then show ?thesis using d(3) new v(1) by auto
    qed
    then show ?thesis using d(1,2) new by auto
  qed
  show "rebox ?L s (box_of ?L s) t" if "is_room ?L n c r" "rm_read r s = (a, t)" for n c r s a t
    using that microvm_quiet(1) [of A n _ s a t] by (auto simp: vm_rebox)
  show "rebox ?L s (box_of ?L s) t" if "is_room ?L n c r" "rm_write r d s = (u, t)" for n c r d s u t
    using that microvm_quiet(2) [of A n _ d s u t] by (auto simp: vm_rebox)
  show "rebox ?L s (box_of ?L s) (snd (rm_resize r w l s))" if "is_room ?L n c r" for n c r s w l
    using that by (auto simp: vm_rebox microvm_quiet(3))
qed

interpretation vm_rents: renting "microvm_backend A fc k" sealed "\<lambda>_. False" "vm_ledger A" "\<forall>s. vm_obliging (A s)" "tokens_fresh A" for A fc k
proof
  let ?b = "microvm_backend A fc k" and ?L = "vm_ledger A"
  show "\<exists>c. \<not> there (box_of ?L s c) \<and> checks_in ?L s c r t"
    if fresh: "tokens_fresh A" and does: "bk_open ?b rc w l s = (Inr r, t)" for s rc w l r t
  proof -
    obtain v where v: "r = vm_room A (made s) v" "made t = Suc (made s)" "spent t = spent s"
      "vm_box s (inst_id v) = None" "vm_box t = (vm_box s)(inst_id v \<mapsto> Running)"
      using microvm_opened [OF does fresh] by blast
    have "checks_in ?L s (inst_id v) r t" unfolding checks_in_def vm_ledger_simps
      using v by (intro exI [of _ "made s"]) (auto simp: lessThan_Suc)
    then show ?thesis using v(4) by (intro exI [of _ "inst_id v"]) simp
  qed
  show "rebox ?L s (box_of ?L s) t \<or> (\<exists>c v. \<not> (\<forall>s. vm_obliging (A s)) \<and> \<not> there (box_of ?L s c) \<and> rebox ?L s ((box_of ?L s)(c := v)) t)"
    if "tokens_fresh A" "bk_open ?b rc w l s = (Inl e, t)" for s rc w l e t
    using microvm_open_failed(3) [OF that(2,1)]
  proof (elim disjE exE conjE)
    assume "vm_box t = vm_box s"
    then show ?thesis by (simp add: vm_rebox microvm_open_failed(1,2) [OF that(2,1)])
  next
    fix i v assume "\<not> vm_obliging (A s)" "vm_box s i = None" "vm_box t = (vm_box s)(i := v)"
    then show ?thesis
      by (intro disjI2 exI [of _ i] exI [of _ v]) (auto simp: vm_rebox microvm_open_failed(1,2) [OF that(2,1)])
  qed
qed simp_all

subsection \<open>Properties\<close>

definition no_instances :: vm_host where
  "no_instances = \<lparr>service = no_vms, made = 0, spent = {}\<rparr>"

lemma no_instances_vacant: "vacant (vm_ledger A) no_instances" "sealed no_instances"
  by (simp_all add: vacant_def no_instances_def no_vms_def vm_box_def sealed_def no_snapshot_def)

lemma vm_box_cases: "vm_box s i = Some Running \<longleftrightarrow> i \<in> dirs (service s) \<and> i \<in> running (service s)"
  "there (vm_box s i) \<longleftrightarrow> i \<in> dirs (service s) \<or> i \<in> running (service s)"
  by (auto simp: vm_box_def there_def Let_def)


text \<open>A host whose new instances have new names, and a client for whom a microVM is about to be opened.\<close>

definition counting_vm :: "vm_host \<Rightarrow> vm_answers" where
  "counting_vm s = (let u = ''-'' @ replicate (made s) (CHR ''a'') in
     \<lparr>va_world = good_world\<lparr>on_mkdir := (if \<exists>x\<in>dirs (service s) \<union> running (service s). drop (length x - length u) x = u
          then Some OSError else None)\<rparr>, va_token = replicate (made s) (CHR ''a''), va_image = True, va_heard = None,
        va_recv = Inr [], va_send = None\<rparr>)"

lemma counting_vm_fresh: "tokens_fresh counting_vm"
proof (unfold tokens_fresh_def, intro allI impI notI)
  fix s :: vm_host and nm
  let ?u = "''-'' @ replicate (made s) (CHR ''a'')"
  assume m: "on_mkdir (va_world (counting_vm s)) = None"
    and u: "nm @ ''-'' @ va_token (counting_vm s) \<in> dirs (service s) \<union> running (service s)"
  have "\<forall>x\<in>dirs (service s) \<union> running (service s). drop (length x - length ?u) x \<noteq> ?u"
    using m by (simp add: counting_vm_def Let_def split: if_splits)
  moreover have "nm @ ?u \<in> dirs (service s) \<union> running (service s)" using u by (simp add: counting_vm_def Let_def)
  ultimately have "drop (length (nm @ ?u) - length ?u) (nm @ ?u) \<noteq> ?u" by (rule bspec)
  then show False by simp
qed

lemma counting_vm_obliges: "vm_obliging (counting_vm s)"
  by (simp add: vm_obliging_def counting_vm_def Let_def good_world_def stop_ends_def escapes_def)

definition first_vms :: "(vm_host, vm_instance) backend" where
  "first_vms = microvm_backend counting_vm (default_firecracker sample_env) (mk_path ''/boot/vmlinux'')"

lemma first_vm_opens: "\<exists>n v t. bk_open first_vms (mk_room nm im) w l no_instances = (Inr (vm_room counting_vm n v), t)"
proof -
  have w: "va_world (counting_vm no_instances) = good_world" "va_image (counting_vm no_instances)"
    by (simp_all add: counting_vm_def Let_def no_instances_def no_vms_def good_world_def)
  let ?v = "instance_for (fc_runtime_dir (default_firecracker sample_env)) nm (va_token (counting_vm no_instances))"
  obtain t where "open_vm good_world (default_firecracker sample_env) True (mk_path ''/boot/vmlinux'') (mk_room nm im) ?v no_vms = (Inr ?v, t)"
    using good_opens by blast
  moreover have "rc_name (mk_room nm im) = nm" "service no_instances = no_vms" by (simp_all add: mk_room_def no_instances_def)
  ultimately show ?thesis using w
    by (auto simp: first_vms_def microvm_backend_def Let_def bind_io_run on_service_def io_simps vm_made_def new_object_def)
qed

definition moving_in :: "house_event list" where
  "moving_in = [Quiet (Made 0), Quiet (Alone 0 Started), Starts 0]"

lemma moving_in_host: "house_run b moving_in (new_house y g) = Some h \<Longrightarrow> hs_host h = g"
  by (auto simp: moving_in_def house_does_def ask_start_def new_house_def split: option.splits)

lemma moved_in:
  obtains h h' where "house_run first_vms moving_in (new_house (plain_server True) no_instances) = Some h"
    "house_does first_vms (Opens 0 0 True) h = Some h'" "rooms (hs_sys h') 0 = RLive"
proof -
  have "map_option (\<lambda>h. (room_cfg (sess (hs_sys h) 0), map_option (\<lambda>z. rooms z 0) (happen (Pump_Opened 0 (Opened 0 False) True) (hs_sys h))))
     (house_run (b :: (vm_host, vm_instance) backend) moving_in (new_house (plain_server True) no_instances))
     = Some (mk_room ''python'' ''python'', Some RLive)" for b
    by code_simp
  from this [of first_vms] obtain h where run: "house_run first_vms moving_in (new_house (plain_server True) no_instances) = Some h"
    and "room_cfg (sess (hs_sys h) 0) = mk_room ''python'' ''python''"
      "map_option (\<lambda>z. rooms z 0) (happen (Pump_Opened 0 (Opened 0 False) True) (hs_sys h)) = Some RLive"
    unfolding map_option_eq_Some prod.inject by blast
  then obtain z where h: "house_run first_vms moving_in (new_house (plain_server True) no_instances) = Some h"
    "room_cfg (sess (hs_sys h) 0) = mk_room ''python'' ''python''"
    "happen (Pump_Opened 0 (Opened 0 False) True) (hs_sys h) = Some z" "rooms z 0 = RLive"
    unfolding map_option_eq_Some by blast
  obtain n v t where o: "bk_open first_vms (mk_room ''python'' ''python'') (fst (hs_asked h 0)) (snd (hs_asked h 0)) (hs_host h)
      = (Inr (vm_room counting_vm n v), t)"
    unfolding moving_in_host [OF h(1)] using first_vm_opens by blast
  have "\<not> rm_can_pause (vm_room counting_vm n v)" by (rule vm_never_pauses)
  then have "\<exists>h'. house_does first_vms (Opens 0 0 True) h = Some h' \<and> hs_sys h' = z"
    using o h(2,3) by (simp add: house_does_def ask_open_def ask_room_def Let_def told_def)
  then show thesis using that h(1,4) by blast
qed


end
