(* ===== verification/Registry_Tenancy.thy ===== *)
theory Registry_Tenancy
  imports Tenancy Microvm_Tenancy
begin

section \<open>The whole server: every room has a box of its own\<close>

text \<open>
  The sessions over the registry of both real backends. A box is a container or a microVM. A backend
  that rents out boxes of one part of the site does so when it is lifted to the whole site, and the
  registry of such backends rents out the boxes of them all.
\<close>

subsection \<open>A part of the site\<close>

text \<open>\<open>L\<close> are the books of a part, \<open>W\<close> those of the site, which name its objects and boxes by \<open>ob\<close> and \<open>cl\<close>.\<close>

locale annex = site_part get put
  for get :: "site_state \<Rightarrow> 's" and put :: "'s \<Rightarrow> site_state \<Rightarrow> site_state" +
  fixes kind :: "'k \<Rightarrow> any_kept" and unkind :: "any_kept \<Rightarrow> 'k option" and ob :: "'o \<Rightarrow> 'p" and cl :: "'c \<Rightarrow> 'd"
    and L :: "('s, 'k, 'o, 'c) ledger" and W :: "(site_state, any_kept, 'p, 'd) ledger"
  assumes box_same: "box_of L v = box_of L (get s) \<Longrightarrow> box_of W (put v s) = box_of W s"
    and box_set: "box_of L v = (box_of L (get s))(c := u) \<Longrightarrow> box_of W (put v s) = (box_of W s)(cl c := u)"
    and box_at: "box_of W s (cl c) = box_of L (get s) c"
    and mint_same: "minted L v = minted L (get s) \<Longrightarrow> minted W (put v s) = minted W s"
    and mint_new: "minted L v = insert n (minted L (get s)) \<Longrightarrow> minted W (put v s) = insert (ob n) (minted W s)"
    and mint_at: "ob n \<in> minted W s \<longleftrightarrow> n \<in> minted L (get s)"
    and retire_same: "retired L v = retired L (get s) \<Longrightarrow> retired W (put v s) = retired W s"
    and retire_new: "retired L v \<subseteq> insert n (retired L (get s)) \<Longrightarrow> retired W (put v s) \<subseteq> insert (ob n) (retired W s)"
    and retire_at: "ob n \<in> retired W s \<longleftrightarrow> n \<in> retired L (get s)"
    and room_is: "is_room L n c r \<Longrightarrow> is_room W (ob n) (cl c) (lift_room get put kind r)"
    and handle_is: "kept_box W (kind k) = cl (kept_box L k)"
    and unkind_is: "unkind y = Some k \<Longrightarrow> y = kind k"
begin

lemma rebox_same: "rebox L (get s) (box_of L (get s)) v \<Longrightarrow> rebox W s (box_of W s) (put v s)"
  by (simp add: rebox_def box_same mint_same retire_same)

lemma rebox_set: "rebox L (get s) ((box_of L (get s))(c := u)) v \<Longrightarrow> rebox W s ((box_of W s)(cl c := u)) (put v s)"
  by (simp add: rebox_def box_set mint_same retire_same)

lemma checks_in_part:
  assumes "checks_in L (get s) c r v"
  shows "checks_in W s (cl c) (lift_room get put kind r) (put v s)"
proof -
  obtain n where n: "is_room L n c r" "n \<notin> minted L (get s)" "minted L v = insert n (minted L (get s))"
    "retired L v = retired L (get s)" "box_of L v = (box_of L (get s))(c \<mapsto> Running)"
    using assms unfolding checks_in_def by blast
  show ?thesis unfolding checks_in_def
    by (rule exI [of _ "ob n"]) (simp add: room_is n(1,2) mint_at mint_new [OF n(3)] retire_same [OF n(4)] box_set [OF n(5)])
qed

lemma rooms_in_part:
  assumes b: "room_books P' L str'" and P: "\<forall>s. P s \<longrightarrow> P' (get s)" and str: "str \<longrightarrow> str'"
    and r: "is_room L n c r" "P s" and R: "R = lift_room get put kind r"
  shows "rm_can_pause R \<Longrightarrow> rm_pause R s = (Inr k, t) \<Longrightarrow>
      kept_box W k = cl c \<and> (rebox W s (box_of W s) t \<or> rebox W s ((box_of W s)(cl c \<mapsto> Frozen)) t)"
    "rm_can_pause R \<Longrightarrow> rm_pause R s = (Inl e, t) \<Longrightarrow> rebox W s (box_of W s) t \<and> (str \<longrightarrow> is_exception e)"
    "ob n \<notin> retired W s \<Longrightarrow> rm_destroy R s = Some (st, t) \<Longrightarrow>
      minted W t = minted W s \<and> retired W t \<subseteq> insert (ob n) (retired W s)
        \<and> (\<exists>v. box_of W t = (box_of W s)(cl c := v) \<and> (str \<longrightarrow> \<not> there v))"
    "rm_read R s = (a, t) \<Longrightarrow> rebox W s (box_of W s) t"
    "rm_write R d s = (u, t) \<Longrightarrow> rebox W s (box_of W s) t"
    "rebox W s (box_of W s) (snd (rm_resize R w l s))"
proof -
  have here: "P' (get s)" if "P s" for s using P that by blast
  note laws = room_books.freezes [OF b r(1) here [OF r(2)]] room_books.freezes_fail [OF b r(1) here [OF r(2)]]
  show "kept_box W k = cl c \<and> (rebox W s (box_of W s) t \<or> rebox W s ((box_of W s)(cl c \<mapsto> Frozen)) t)"
    if can: "rm_can_pause R" and run: "rm_pause R s = (Inr k, t)"
  proof -
    obtain x v where x: "rm_pause r (get s) = (Inr x, v)" "k = kind x" "t = put v s"
      using run by (auto simp: R lift_room_def io_simps split: prod.splits sum.splits)
    have "kept_box L x = c \<and> (rebox L (get s) (box_of L (get s)) v \<or> rebox L (get s) ((box_of L (get s))(c \<mapsto> Frozen)) v)"
      using can by (intro laws(1) [OF _ x(1)]) (simp add: R lift_room_def)
    then show ?thesis using rebox_same rebox_set handle_is by (auto simp: x(2,3))
  qed
  show "rebox W s (box_of W s) t \<and> (str \<longrightarrow> is_exception e)" if can: "rm_can_pause R" and run: "rm_pause R s = (Inl e, t)"
  proof -
    obtain v where x: "rm_pause r (get s) = (Inl e, v)" "t = put v s"
      using run by (auto simp: R lift_room_def io_simps split: prod.splits sum.splits)
    have "rebox L (get s) (box_of L (get s)) v \<and> (str' \<longrightarrow> is_exception e)"
      using can by (intro laws(2) [OF _ x(1)]) (simp add: R lift_room_def)
    then show ?thesis using rebox_same str by (auto simp: x(2))
  qed
  show "minted W t = minted W s \<and> retired W t \<subseteq> insert (ob n) (retired W s)
        \<and> (\<exists>v. box_of W t = (box_of W s)(cl c := v) \<and> (str \<longrightarrow> \<not> there v))"
    if new: "ob n \<notin> retired W s" and run: "rm_destroy R s = Some (st, t)"
  proof -
    obtain v where x: "rm_destroy r (get s) = Some (st, v)" "t = put v s"
      using run by (auto simp: R lift_room_def on_part_opt_def split: option.splits)
    obtain u where u: "minted L v = minted L (get s)" "retired L v \<subseteq> insert n (retired L (get s))"
      "box_of L v = (box_of L (get s))(c := u)" "str' \<longrightarrow> \<not> there u"
      using room_books.empties [OF b r(1) here [OF r(2)] _ x(1)] new retire_at by blast
    show ?thesis unfolding x(2) using mint_same [OF u(1)] retire_new [OF u(2)] box_set [OF u(3)] u(4) str by blast
  qed
  show "rebox W s (box_of W s) t" if "rm_read R s = (a, t)"
    using that room_books.reads [OF b r(1) here [OF r(2)]] rebox_same
    by (auto simp: R lift_room_def io_simps split: prod.splits)
  show "rebox W s (box_of W s) t" if "rm_write R d s = (u, t)"
    using that room_books.writes [OF b r(1) here [OF r(2)]] rebox_same
    by (auto simp: R lift_room_def io_simps split: prod.splits)
  show "rebox W s (box_of W s) (snd (rm_resize R w l s))"
    using room_books.resizes [OF b r(1) here [OF r(2)]] rebox_same
    by (auto simp: R lift_room_def io_simps split: prod.split) (metis snd_conv)
qed

lemma backend_in_part:
  assumes b: "renting b P' Q' L str' fr'" and g: "guarded_backend (lift_backend get put kind unkind b) P Q"
    and books: "room_books P W str" and here: "\<And>s. P s \<Longrightarrow> P' (get s)" and str: "str \<Longrightarrow> str'" and fr: "fr \<Longrightarrow> fr'"
    and mine: "\<And>y. Q y \<Longrightarrow> \<exists>k. unkind y = Some k \<and> Q' k"
  shows "renting (lift_backend get put kind unkind b) P Q W str fr"
proof (intro renting.intro g books renting_axioms.intro)
  let ?b = "lift_backend get put kind unkind b"
  show "\<exists>c. \<not> there (box_of W s c) \<and> checks_in W s c R t"
    if fr and now: "P s" and run: "bk_open ?b rc w l s = (Inr R, t)" for s rc w l R t
  proof -
    obtain r v where x: "bk_open b rc w l (get s) = (Inr r, v)" "R = lift_room get put kind r" "t = put v s"
      using run by (auto simp: lift_backend_def io_simps split: prod.splits sum.splits)
    obtain c where "\<not> there (box_of L (get s) c)" "checks_in L (get s) c r v"
      using renting.lets [OF b fr [OF \<open>fr\<close>] here [OF now] x(1)] by blast
    then show ?thesis unfolding x(2,3) by (intro exI [of _ "cl c"] conjI checks_in_part) (simp_all add: box_at)
  qed
  show "rebox W s (box_of W s) t \<or> (\<exists>c v. \<not> str \<and> \<not> there (box_of W s c) \<and> rebox W s ((box_of W s)(c := v)) t)"
    if fr and now: "P s" and run: "bk_open ?b rc w l s = (Inl e, t)" for s rc w l e t
  proof -
    obtain v where x: "bk_open b rc w l (get s) = (Inl e, v)" "t = put v s"
      using run by (auto simp: lift_backend_def io_simps split: prod.splits sum.splits)
    from renting.lets_fail [OF b fr [OF \<open>fr\<close>] here [OF now] x(1)] show ?thesis unfolding x(2)
    proof (elim disjE exE conjE)
      assume "rebox L (get s) (box_of L (get s)) v"
      then show "rebox W s (box_of W s) (put v s)
          \<or> (\<exists>c u. \<not> str \<and> \<not> there (box_of W s c) \<and> rebox W s ((box_of W s)(c := u)) (put v s))"
        using rebox_same by blast
    next
      fix c u assume "\<not> str'" "\<not> there (box_of L (get s) c)" "rebox L (get s) ((box_of L (get s))(c := u)) v"
      then show "rebox W s (box_of W s) (put v s)
          \<or> (\<exists>c u. \<not> str \<and> \<not> there (box_of W s c) \<and> rebox W s ((box_of W s)(c := u)) (put v s))"
        using str rebox_set by (intro disjI2 exI [of _ "cl c"] exI [of _ u]) (auto simp: box_at)
    qed
  qed
  show "checks_in W s (kept_box W y) R t"
    if now: "P s" and q: "Q y" and run: "bk_resume ?b y w l s = (Inr R, t)" for s y w l R t
  proof -
    obtain k where k: "unkind y = Some k" "Q' k" using mine [OF q] by blast
    obtain r v where x: "bk_resume b k w l (get s) = (Inr r, v)" "R = lift_room get put kind r" "t = put v s"
      using run k(1) by (auto simp: lift_backend_def cast_kept_def io_simps split: prod.splits sum.splits)
    have "checks_in L (get s) (kept_box L k) r v" using renting.relets [OF b here [OF now] k(2) x(1)] .
    then show ?thesis unfolding x(2,3) unkind_is [OF k(1)] handle_is by (rule checks_in_part)
  qed
  show "rebox W s (box_of W s) t \<or> rebox W s ((box_of W s)(kept_box W y \<mapsto> Running)) t"
    if now: "P s" and q: "Q y" and run: "bk_resume ?b y w l s = (Inl e, t)" for s y w l e t
  proof -
    obtain k where k: "unkind y = Some k" "Q' k" using mine [OF q] by blast
    obtain v where x: "bk_resume b k w l (get s) = (Inl e, v)" "t = put v s"
      using run k(1) by (auto simp: lift_backend_def cast_kept_def io_simps split: prod.splits sum.splits)
    from renting.relets_fail [OF b here [OF now] k(2) x(1)] show ?thesis
      unfolding x(2) unkind_is [OF k(1)] handle_is using rebox_same rebox_set by blast
  qed
  show "(\<exists>v. \<not> there v \<and> is_ok x \<and> rebox W s ((box_of W s)(kept_box W y := v)) t)
        \<or> (is_ok x \<longrightarrow> \<not> str) \<and> rebox W s (box_of W s) t"
    if now: "P s" and q: "Q y" and run: "bk_destroy_kept ?b y s = (x, t)" for s y x t
  proof -
    obtain k where k: "unkind y = Some k" "Q' k" using mine [OF q] by blast
    obtain v where x: "bk_destroy_kept b k (get s) = (x, v)" "t = put v s"
      using run k(1) by (auto simp: lift_backend_def cast_kept_def io_simps split: prod.splits sum.splits)
    from renting.clears [OF b here [OF now] k(2) x(1)] show ?thesis
      unfolding x(2) unkind_is [OF k(1)] handle_is using rebox_same rebox_set str by blast
  qed
qed

end

subsection \<open>The registry\<close>

definition routed_ledger :: "('s, 'k, 'o, 'c) ledger \<Rightarrow> (('s, 'k) routing, 'k handle, 'o, 'c) ledger" where
  "routed_ledger W = \<lparr>is_room = (\<lambda>n c R. \<exists>nm r. is_room W n c r \<and> R = routed_room nm r),
     kept_box = (\<lambda>x. case x of Routed nm k \<Rightarrow> kept_box W k | Foreign \<Rightarrow> undefined),
     box_of = (\<lambda>s. box_of W (rt_world s)), minted = (\<lambda>s. minted W (rt_world s)), retired = (\<lambda>s. retired W (rt_world s))\<rparr>"

lemma routed_ledger_simps [simp]:
  "is_room (routed_ledger W) n c R \<longleftrightarrow> (\<exists>nm r. is_room W n c r \<and> R = routed_room nm r)"
  "kept_box (routed_ledger W) (Routed nm k) = kept_box W k" "box_of (routed_ledger W) s = box_of W (rt_world s)"
  "minted (routed_ledger W) s = minted W (rt_world s)" "retired (routed_ledger W) s = retired W (rt_world s)"
  by (simp_all add: routed_ledger_def)

lemma routed_rebox [simp]: "rebox (routed_ledger W) s D t \<longleftrightarrow> rebox W (rt_world s) D (rt_world t)"
  by (simp add: rebox_def)

lemma routed_checks_in: "checks_in W (rt_world s) c r (rt_world t) \<Longrightarrow> checks_in (routed_ledger W) s c (routed_room nm r) t"
  unfolding checks_in_def routed_ledger_simps by blast

lemma rebox_trans: "rebox W s (box_of W s) t \<Longrightarrow> rebox W t D u \<Longrightarrow> rebox W s D u"
  by (simp add: rebox_def)

lemma rebox_checks_in: "rebox W s (box_of W s) t \<Longrightarrow> checks_in W t c r u \<Longrightarrow> checks_in W s c r u"
  by (simp add: rebox_def checks_in_def)

lemma rebox_boxes: "rebox W s (box_of W s) t \<Longrightarrow> box_of W t = box_of W s"
  by (simp add: rebox_def)

lemma routed_books:
  assumes b: "room_books P W str"
  shows "room_books (registry_ok P G) (routed_ledger W) str"
proof
  let ?L = "routed_ledger W"
  note now = registry_okD(1)
  show "kept_box ?L k = c \<and> (rebox ?L s (box_of ?L s) t \<or> rebox ?L s ((box_of ?L s)(c \<mapsto> Frozen)) t)"
    if room: "is_room ?L n c R" and ok: "registry_ok P G s" and can: "rm_can_pause R" and run: "rm_pause R s = (Inr k, t)" for n c R s k t
  proof -
    obtain nm r where r: "is_room W n c r" "R = routed_room nm r" using room by auto
    obtain x v where x: "rm_pause r (rt_world s) = (Inr x, v)" "k = Routed nm x" "t = put_world v s"
      using run by (auto simp: r(2) routed_room_def io_simps split: prod.splits sum.splits)
    show ?thesis using room_books.freezes [OF b r(1) now [OF ok] _ x(1)] can by (simp add: r(2) routed_room_def x(2,3))
  qed
  show "rebox ?L s (box_of ?L s) t \<and> (str \<longrightarrow> is_exception e)"
    if room: "is_room ?L n c R" and ok: "registry_ok P G s" and can: "rm_can_pause R" and run: "rm_pause R s = (Inl e, t)" for n c R s e t
  proof -
    obtain nm r where r: "is_room W n c r" "R = routed_room nm r" using room by auto
    obtain v where x: "rm_pause r (rt_world s) = (Inl e, v)" "t = put_world v s"
      using run by (auto simp: r(2) routed_room_def io_simps split: prod.splits sum.splits)
    show ?thesis using room_books.freezes_fail [OF b r(1) now [OF ok] _ x(1)] can by (simp add: r(2) routed_room_def x(2))
  qed
  show "minted ?L t = minted ?L s \<and> retired ?L t \<subseteq> insert n (retired ?L s)
      \<and> (\<exists>v. box_of ?L t = (box_of ?L s)(c := v) \<and> (str \<longrightarrow> \<not> there v))"
    if room: "is_room ?L n c R" and ok: "registry_ok P G s" and new: "n \<notin> retired ?L s" and run: "rm_destroy R s = Some (st, t)" for n c R s st t
  proof -
    obtain nm r where r: "is_room W n c r" "R = routed_room nm r" using room by auto
    obtain v where x: "rm_destroy r (rt_world s) = Some (st, v)" "t = put_world v s"
      using run by (auto simp: r(2) routed_room_def on_part_opt_def split: option.splits)
    show ?thesis using room_books.empties [OF b r(1) now [OF ok] _ x(1)] new by (simp add: x(2))
  qed
  show "rebox ?L s (box_of ?L s) t" if room: "is_room ?L n c R" and ok: "registry_ok P G s" and run: "rm_read R s = (a, t)" for n c R s a t
    using room run room_books.reads [OF b _ now [OF ok]] by (auto simp: routed_room_def io_simps split: prod.splits)
  show "rebox ?L s (box_of ?L s) t" if room: "is_room ?L n c R" and ok: "registry_ok P G s" and run: "rm_write R d s = (u, t)" for n c R d s u t
    using room run room_books.writes [OF b _ now [OF ok]] by (auto simp: routed_room_def io_simps split: prod.splits)
  show "rebox ?L s (box_of ?L s) (snd (rm_resize R w l s))" if room: "is_room ?L n c R" and ok: "registry_ok P G s" for n c R s w l
  proof -
    obtain nm r where r: "is_room W n c r" "R = routed_room nm r" using room by auto
    show ?thesis using room_books.resizes [OF b r(1) now [OF ok], of w l] by (cases "rm_resize r w l (rt_world s)") (simp add: r(2) routed_room_def io_simps)
  qed
qed

text \<open>Building a backend changes no box.\<close>

definition quiet_factories :: "('s, 'k, 'o, 'c) ledger \<Rightarrow> (string, ('s, 'k) factory) dict \<Rightarrow> config \<Rightarrow> bool" where
  "quiet_factories W fs cfg \<longleftrightarrow> (\<forall>nm f u x v. dget fs nm = Some f \<longrightarrow> f cfg u = (x, v) \<longrightarrow> rebox W u (box_of W u) v)"

lemma get_backend_quiet:
  assumes q: "quiet_factories W fs cfg" and g: "get_backend fs cfg nm s = (x, t)"
  shows "rebox W (rt_world s) (box_of W (rt_world s)) (rt_world t)"
proof (cases "dget (rt_backends s) nm")
  case (Some b)
  then show ?thesis using g by (simp add: get_backend_def rebox_def)
next
  case None
  note run = get_backend_new [OF None, of fs cfg]
  show ?thesis
  proof (cases "dget fs nm")
    case None
    then show ?thesis using g run by (simp add: rebox_def)
  next
    case (Some fac)
    obtain y w where y: "fac cfg (rt_world s) = (y, w)" by fastforce
    then have "rebox W (rt_world s) (box_of W (rt_world s)) w" using q Some unfolding quiet_factories_def by blast
    then show ?thesis using g run Some y by (cases y) auto
  qed
qed

text \<open>A call through the registry: its backend is not there, or it is asked on a world with the same books.\<close>

lemma routed_call [consumes 4]:
  assumes f: "factories_ok P G fs cfg" and q: "quiet_factories W fs cfg" and s: "registry_ok P G s"
    and run: "bind_io (get_backend fs cfg nm) (\<lambda>b. bind_io (in_world (call b)) k) s = (x, t)"
  obtains (missing) e where "x = Inl e" "rebox W (rt_world s) (box_of W (rt_world s)) (rt_world t)"
    | (asked) b z v u where "G nm b" "registry_ok P G u" "rebox W (rt_world s) (box_of W (rt_world s)) (rt_world u)"
      "call b (rt_world u) = (z, v)" "(case z of Inl e \<Rightarrow> x = Inl e \<and> t = put_world v u | Inr r \<Rightarrow> k r (put_world v u) = (x, t))"
proof -
  obtain y u where g: "get_backend fs cfg nm s = (y, u)" by fastforce
  note u = get_backend_ok [OF f s g] get_backend_quiet [OF q g]
  show thesis
  proof (cases y)
    case (Inl e)
    then show thesis using missing [of e] run g u(2) by (auto simp: bind_io_run)
  next
    case (Inr b)
    obtain z v where z: "call b (rt_world u) = (z, v)" by fastforce
    show thesis
      by (rule asked [OF _ _ u(2) z]) (use run g u(1) Inr z in \<open>auto simp: bind_io_run in_world_run split: sum.splits\<close>)
  qed
qed

lemma routing_rents:
  assumes f: "factories_ok P G fs cfg" and q: "quiet_factories W fs cfg" and books: "room_books P W str"
    and G: "\<And>nm b. G nm b \<Longrightarrow> renting b P (Q nm) W str fr"
  shows "renting (routing_backend fs cfg) (registry_ok P G) (handle_ok Q) (routed_ledger W) str fr"
proof (intro renting.intro routing_guarded [OF f] routed_books [OF books] renting_axioms.intro)
  let ?b = "routing_backend fs cfg" and ?L = "routed_ledger W"
  show "guarded_backend b P (Q nm)" if "G nm b" for nm b using G [OF that] by (rule renting.axioms(1))
  show "\<exists>c. \<not> there (box_of ?L s c) \<and> checks_in ?L s c R t"
    if fr and ok: "registry_ok P G s" and run: "bk_open ?b rc w l s = (Inr R, t)" for s rc w l R t
  proof -
    have "bind_io (get_backend fs cfg (name_for cfg rc)) (\<lambda>b. bind_io (in_world (bk_open b rc w l))
        (\<lambda>r. ret_io (routed_room (name_for cfg rc) r))) s = (Inr R, t)"
      using run by (simp add: routing_backend_def Let_def)
    from f q ok this show ?thesis
    proof (cases rule: routed_call)
      case (asked b z v u)
      obtain r where z: "z = Inr r" "R = routed_room (name_for cfg rc) r" "rt_world t = v"
        using asked(5) by (cases z) (auto simp: io_simps)
      obtain c where "\<not> there (box_of W (rt_world u) c)" "checks_in W (rt_world u) c r v"
        using renting.lets [OF G [OF asked(1)] \<open>fr\<close> registry_okD(1) [OF asked(2)] asked(4) [unfolded z(1)]] by blast
      then show ?thesis using routed_checks_in [of W s c r t] rebox_checks_in [OF asked(3)] rebox_boxes [OF asked(3)]
        by (intro exI [of _ c]) (simp add: z(2,3))
    qed simp
  qed
  show "rebox ?L s (box_of ?L s) t \<or> (\<exists>c v. \<not> str \<and> \<not> there (box_of ?L s c) \<and> rebox ?L s ((box_of ?L s)(c := v)) t)"
    if fr and ok: "registry_ok P G s" and run: "bk_open ?b rc w l s = (Inl e, t)" for s rc w l e t
  proof -
    have "bind_io (get_backend fs cfg (name_for cfg rc)) (\<lambda>b. bind_io (in_world (bk_open b rc w l))
        (\<lambda>r. ret_io (routed_room (name_for cfg rc) r))) s = (Inl e, t)"
      using run by (simp add: routing_backend_def Let_def)
    from f q ok this show ?thesis
    proof (cases rule: routed_call)
      case (asked b z v u)
      have z: "z = Inl e" "rt_world t = v" using asked(5) by (auto simp: io_simps split: sum.splits)
      from renting.lets_fail [OF G [OF asked(1)] \<open>fr\<close> registry_okD(1) [OF asked(2)] asked(4) [unfolded z(1)]]
      show ?thesis using rebox_trans [OF asked(3)] by (auto simp: z(2) rebox_boxes [OF asked(3)])
    qed simp
  qed
  show "checks_in ?L s (kept_box ?L y) R t"
    if ok: "registry_ok P G s" and h: "handle_ok Q y" and run: "bk_resume ?b y w l s = (Inr R, t)" for s y w l R t
  proof -
    obtain nm k where y: "y = Routed nm k" "Q nm k" using h by (auto simp: handle_ok_def split: handle.splits)
    have "bind_io (get_backend fs cfg nm) (\<lambda>b. bind_io (in_world (bk_resume b k w l)) (\<lambda>r. ret_io (routed_room nm r))) s = (Inr R, t)"
      using run by (simp add: y(1) routing_backend_def unrouted_def io_simps)
    from f q ok this show ?thesis
    proof (cases rule: routed_call)
      case (asked b z v u)
      obtain r where z: "z = Inr r" "R = routed_room nm r" "rt_world t = v" using asked(5) by (cases z) (auto simp: io_simps)
      have "checks_in W (rt_world u) (kept_box W k) r v"
        using renting.relets [OF G [OF asked(1)] registry_okD(1) [OF asked(2)] y(2) asked(4) [unfolded z(1)]] .
      then show ?thesis using routed_checks_in [of W s "kept_box W k" r t] rebox_checks_in [OF asked(3)] by (simp add: y(1) z(2,3))
    qed simp
  qed
  show "rebox ?L s (box_of ?L s) t \<or> rebox ?L s ((box_of ?L s)(kept_box ?L y \<mapsto> Running)) t"
    if ok: "registry_ok P G s" and h: "handle_ok Q y" and run: "bk_resume ?b y w l s = (Inl e, t)" for s y w l e t
  proof -
    obtain nm k where y: "y = Routed nm k" "Q nm k" using h by (auto simp: handle_ok_def split: handle.splits)
    have "bind_io (get_backend fs cfg nm) (\<lambda>b. bind_io (in_world (bk_resume b k w l)) (\<lambda>r. ret_io (routed_room nm r))) s = (Inl e, t)"
      using run by (simp add: y(1) routing_backend_def unrouted_def io_simps)
    from f q ok this show ?thesis
    proof (cases rule: routed_call)
      case (asked b z v u)
      have z: "z = Inl e" "rt_world t = v" using asked(5) by (auto simp: io_simps split: sum.splits)
      from renting.relets_fail [OF G [OF asked(1)] registry_okD(1) [OF asked(2)] y(2) asked(4) [unfolded z(1)]]
      show ?thesis using rebox_trans [OF asked(3)] by (auto simp: y(1) z(2) rebox_boxes [OF asked(3)])
    qed simp
  qed
  show "(\<exists>v. \<not> there v \<and> is_ok x \<and> rebox ?L s ((box_of ?L s)(kept_box ?L y := v)) t)
        \<or> (is_ok x \<longrightarrow> \<not> str) \<and> rebox ?L s (box_of ?L s) t"
    if ok: "registry_ok P G s" and h: "handle_ok Q y" and run: "bk_destroy_kept ?b y s = (x, t)" for s y x t
  proof -
    obtain nm k where y: "y = Routed nm k" "Q nm k" using h by (auto simp: handle_ok_def split: handle.splits)
    have "bind_io (get_backend fs cfg nm) (\<lambda>b. bind_io (in_world (bk_destroy_kept b k)) ret_io) s = (x, t)"
      using run by (auto simp: y(1) routing_backend_def unrouted_def io_simps split: prod.splits sum.splits)
    from f q ok this show ?thesis
    proof (cases rule: routed_call)
      case (asked b z v u)
      have z: "z = x" "rt_world t = v" using asked(5) by (auto simp: io_simps split: sum.splits)
      from renting.clears [OF G [OF asked(1)] registry_okD(1) [OF asked(2)] y(2) asked(4)]
      show ?thesis using rebox_trans [OF asked(3)] by (auto simp: y(1) z rebox_boxes [OF asked(3)])
    qed simp
  qed
qed

subsection \<open>Both backends\<close>

definition site_ledger :: "site \<Rightarrow> (site_state, any_kept, nat + nat, cid + string) ledger" where
  "site_ledger st = \<lparr>is_room = (\<lambda>n c r. case (n, c) of
       (Inl m, Inl d) \<Rightarrow> r = lift_room docker_part put_docker DockerKept (docker_room (st_docker st) m d)
     | (Inr m, Inr i) \<Rightarrow> (\<exists>v. inst_id v = i \<and> r = lift_room vm_part put_vm FirecrackerKept (vm_room (st_vm st) m v))
     | _ \<Rightarrow> False),
     kept_box = (\<lambda>x. case x of DockerKept c \<Rightarrow> Inl c | FirecrackerKept v \<Rightarrow> Inr (inst_id v)),
     box_of = (\<lambda>s. case_sum (boxes (docker_part s)) (vm_box (vm_part s))),
     minted = (\<lambda>s. {..<made (docker_part s)} <+> {..<made (vm_part s)}),
     retired = (\<lambda>s. spent (docker_part s) <+> spent (vm_part s))\<rparr>"

lemma site_ledger_simps [simp]:
  "is_room (site_ledger st) n c r \<longleftrightarrow> (case (n, c) of
       (Inl m, Inl d) \<Rightarrow> r = lift_room docker_part put_docker DockerKept (docker_room (st_docker st) m d)
     | (Inr m, Inr i) \<Rightarrow> (\<exists>v. inst_id v = i \<and> r = lift_room vm_part put_vm FirecrackerKept (vm_room (st_vm st) m v))
     | _ \<Rightarrow> False)"
  "kept_box (site_ledger st) (DockerKept d) = Inl d" "kept_box (site_ledger st) (FirecrackerKept v) = Inr (inst_id v)"
  "box_of (site_ledger st) s = case_sum (boxes (docker_part s)) (vm_box (vm_part s))"
  "minted (site_ledger st) s = {..<made (docker_part s)} <+> {..<made (vm_part s)}"
  "retired (site_ledger st) s = spent (docker_part s) <+> spent (vm_part s)"
  by (simp_all add: site_ledger_def)

lemma sum_upd: "case_sum (D(c := u)) V = (case_sum D V)(Inl c := u)" "case_sum D (V(i := u)) = (case_sum D V)(Inr i := u)"
  by (auto simp: fun_eq_iff split: sum.split)

lemma sides [simp]: "docker_part (put_docker d s) = d" "vm_part (put_docker d s) = vm_part s"
  "docker_part (put_vm v s) = docker_part s" "vm_part (put_vm v s) = v"
  by (simp_all add: put_docker_def put_vm_def)

interpretation docker_annex: annex docker_part put_docker DockerKept docker_kept Inl Inl "docker_ledger (st_docker st)" "site_ledger st" for st
proof
  show "y = DockerKept k" if "docker_kept y = Some k" for y k using that by (cases y) auto
qed (auto simp: sum_upd)

interpretation vm_annex: annex vm_part put_vm FirecrackerKept vm_kept Inr Inr "vm_ledger (st_vm st)" "site_ledger st" for st
proof
  show "y = FirecrackerKept k" if "vm_kept y = Some k" for y k using that by (cases y) auto
qed (auto simp: sum_upd)

text \<open>Both hosts do what they are asked; both name new boxes freshly.\<close>

definition obliging_site :: "site \<Rightarrow> bool" where
  "obliging_site st \<longleftrightarrow> (\<forall>s. obliging (st_docker st s)) \<and> (\<forall>s. vm_obliging (st_vm st s))"

definition fresh_site :: "site \<Rightarrow> bool" where
  "fresh_site st \<longleftrightarrow> ids_fresh (st_docker st) \<and> tokens_fresh (st_vm st)"

interpretation site_books: room_books site_sealed "site_ledger st" "obliging_site st" for st
proof
  let ?L = "site_ledger st"
  have here: "\<forall>s. site_sealed s \<longrightarrow> True" "\<forall>s. site_sealed s \<longrightarrow> sealed (vm_part s)" by (simp_all add: site_sealed_def)
  have str: "obliging_site st \<longrightarrow> (\<forall>s. obliging (st_docker st s))" "obliging_site st \<longrightarrow> (\<forall>s. vm_obliging (st_vm st s))"
    by (simp_all add: obliging_site_def)
  note D = docker_annex.rooms_in_part [where P = site_sealed, OF docker_books.room_books_axioms here(1) str(1)]
  note V = vm_annex.rooms_in_part [where P = site_sealed, OF vm_books.room_books_axioms here(2) str(2)]
  have room: "(\<exists>m d r. n = Inl m \<and> c = Inl d \<and> is_room (docker_ledger (st_docker st)) m d r \<and> R = lift_room docker_part put_docker DockerKept r)
      \<or> (\<exists>m i r. n = Inr m \<and> c = Inr i \<and> is_room (vm_ledger (st_vm st)) m i r \<and> R = lift_room vm_part put_vm FirecrackerKept r)"
    if "is_room ?L n c R" for n c R
    using that by (cases n; cases c) auto
  fix n c R s assume r: "is_room ?L n c R" and P: "site_sealed s"
  show "kept_box ?L k = c \<and> (rebox ?L s (box_of ?L s) t \<or> rebox ?L s ((box_of ?L s)(c \<mapsto> Frozen)) t)"
    if "rm_can_pause R" "rm_pause R s = (Inr k, t)" for k t
    using room [OF r] D(1) [OF _ P _ that] V(1) [OF _ P _ that] by blast
  show "rebox ?L s (box_of ?L s) t \<and> (obliging_site st \<longrightarrow> is_exception e)" if "rm_can_pause R" "rm_pause R s = (Inl e, t)" for e t
    using room [OF r] D(2) [OF _ P _ that] V(2) [OF _ P _ that] by blast
  show "minted ?L t = minted ?L s \<and> retired ?L t \<subseteq> insert n (retired ?L s)
      \<and> (\<exists>v. box_of ?L t = (box_of ?L s)(c := v) \<and> (obliging_site st \<longrightarrow> \<not> there v))"
    if "n \<notin> retired ?L s" "rm_destroy R s = Some (x, t)" for x t
    using room [OF r] D(3) [OF _ P _ _ that(2)] V(3) [OF _ P _ _ that(2)] that(1) by blast
  show "rebox ?L s (box_of ?L s) t" if "rm_read R s = (a, t)" for a t
    using room [OF r] D(4) [OF _ P _ that] V(4) [OF _ P _ that] by blast
  show "rebox ?L s (box_of ?L s) t" if "rm_write R d s = (u, t)" for d u t
    using room [OF r] D(5) [OF _ P _ that] V(5) [OF _ P _ that] by blast
  show "rebox ?L s (box_of ?L s) (snd (rm_resize R w l s))" for w l
    using room [OF r] D(6) [OF _ P] V(6) [OF _ P] by blast
qed

definition lets_boxes :: "site \<Rightarrow> string \<Rightarrow> (site_state, any_kept) backend \<Rightarrow> bool" where
  "lets_boxes st nm b \<longleftrightarrow> renting b site_sealed (container_handle nm) (site_ledger st) (obliging_site st) (fresh_site st)"

lemma docker_lets: "lets_boxes st ''docker'' (lift_backend docker_part put_docker DockerKept docker_kept (docker_backend (st_docker st)))"
  unfolding lets_boxes_def
  by (rule docker_annex.backend_in_part [OF docker_rents.renting_axioms docker_guarded site_books.room_books_axioms])
    (auto simp: obliging_site_def fresh_site_def container_handle_def)

lemma vm_lets: "lets_boxes st ''firecracker'' (lift_backend vm_part put_vm FirecrackerKept vm_kept (microvm_backend (st_vm st) fc k))"
  unfolding lets_boxes_def
  by (rule vm_annex.backend_in_part [OF vm_rents.renting_axioms vm_guarded site_books.room_books_axioms])
    (auto simp: obliging_site_def fresh_site_def container_handle_def site_sealed_def)

lemma lets_factories: "factories_ok site_sealed (lets_boxes st) (FACTORIES st) cfg"
proof -
  have "site_sealed v \<and> (\<forall>b. x = Inr b \<longrightarrow> lets_boxes st ''docker'' b)"
    if "site_sealed u" "docker_factory st cfg u = (x, v)" for u x v
    using that docker_lets by (auto simp: docker_factory_def io_simps split: option.splits)
  moreover have "site_sealed v \<and> (\<forall>b. x = Inr b \<longrightarrow> lets_boxes st ''firecracker'' b)"
    if "site_sealed u" "firecracker_factory st cfg u = (x, v)" for u x v
    using that vm_lets
    by (auto simp: firecracker_factory_def io_simps Let_def site_parts split: option.splits prod.splits sum.splits)
  moreover have "f = docker_factory st \<and> nm = ''docker'' \<or> f = firecracker_factory st \<and> nm = ''firecracker''"
    if "dget (FACTORIES st) nm = Some f" for nm f
    using that by (auto simp: FACTORIES_def split: if_splits)
  ultimately show ?thesis unfolding factories_ok_def by metis
qed

lemma site_rebox_entries: "rebox (site_ledger st) s (box_of (site_ledger st) s) (put_entries e s)"
  by (simp add: rebox_def put_entries_def)

lemma site_quiet: "quiet_factories (site_ledger st) (FACTORIES st) cfg"
proof -
  have same: "rebox (site_ledger st) s (box_of (site_ledger st) s) s" for s by (simp add: rebox_def)
  have "rebox (site_ledger st) u (box_of (site_ledger st) u) v" if "docker_factory st cfg u = (x, v)" for u x v
    using that same by (auto simp del: site_ledger_simps simp: docker_factory_def io_simps split: option.splits)
  moreover have "rebox (site_ledger st) u (box_of (site_ledger st) u) v" if "firecracker_factory st cfg u = (x, v)" for u x v
    using that site_rebox_entries
    by (auto simp del: site_ledger_simps simp: firecracker_factory_def io_simps Let_def split: option.splits prod.splits sum.splits)
  moreover have "f = docker_factory st \<or> f = firecracker_factory st" if "dget (FACTORIES st) nm = Some f" for nm f
    using that by (auto simp: FACTORIES_def split: if_splits)
  ultimately show ?thesis unfolding quiet_factories_def by metis
qed

interpretation registry_rents: renting "routing_backend (FACTORIES st) cfg" "registry_ok site_sealed (lets_boxes st)"
    "handle_ok container_handle" "routed_ledger (site_ledger st)" "obliging_site st" "fresh_site st" for st cfg
  by (rule routing_rents [OF lets_factories site_quiet site_books.room_books_axioms]) (simp add: lets_boxes_def)

lemma get_all_quiet:
  assumes "quiet_factories W fs cfg" "get_all fs cfg nms s = (x, t)"
  shows "rebox W (rt_world s) (box_of W (rt_world s)) (rt_world t)"
  using assms(2)
proof (induction nms arbitrary: s)
  case Nil
  then show ?case by (simp add: io_simps rebox_def)
next
  case (Cons nm nms)
  obtain y u where g: "get_backend fs cfg nm s = (y, u)" by fastforce
  note q = get_backend_quiet [OF assms(1) g]
  show ?case using Cons.prems g q rebox_trans [OF q] Cons.IH [of u] rebox_boxes [OF q]
    by (cases y) (auto simp: then_io_run)
qed

subsection \<open>Properties\<close>

text \<open>A site on which nothing has been let, and no microVM was ever snapshotted.\<close>

definition empty_site :: "site_state \<Rightarrow> bool" where
  "empty_site s \<longleftrightarrow> (\<forall>c. \<not> there (containers (service (docker_part s)) c)) \<and> spent (docker_part s) \<subseteq> {..<made (docker_part s)}
     \<and> dirs (service (vm_part s)) = {} \<and> running (service (vm_part s)) = {} \<and> spent (vm_part s) \<subseteq> {..<made (vm_part s)}
     \<and> site_sealed s"

lemma empty_vacant_site: "empty_site s \<Longrightarrow> vacant (site_ledger st) s"
  by (auto simp: empty_site_def vacant_def boxes_def vm_box_def split: sum.split)

lemma rebox_vacant: "rebox W s (box_of W s) t \<Longrightarrow> vacant W s \<Longrightarrow> vacant W t"
  by (simp add: rebox_def vacant_def)

lemma server_tenanted:
  assumes "new_routing (FACTORIES st) cfg s0 = (Inr (), r0)" "empty_site s0" "fresh_site st" "new_server y"
    and "(house_step (routing_backend (FACTORIES st) cfg))\<^sup>*\<^sup>* (new_house y r0) h"
  shows "tenanted (registry_ok site_sealed (lets_boxes st)) (handle_ok container_handle) (routed_ledger (site_ledger st)) (obliging_site st) h"
proof (rule registry_rents.tenanted_reached [OF assms(4) _ _ assms(3,5)])
  note new = assms(1) [unfolded new_routing_def]
  show "registry_ok site_sealed (lets_boxes st) r0"
    by (rule get_all_keeps [OF lets_factories _ new]) (use assms(2) in \<open>simp add: registry_ok_def empty_site_def\<close>)
  have "vacant (site_ledger st) (rt_world r0)"
    using rebox_vacant [OF get_all_quiet [OF site_quiet new] ] empty_vacant_site [OF assms(2)] by simp
  then show "vacant (routed_ledger (site_ledger st)) r0" unfolding vacant_def routed_ledger_simps .
qed

text \<open>What the rooms of a registry over the site are.\<close>

lemma site_rooms:
  assumes "is_room (routed_ledger (site_ledger st)) n c R"
  shows "case c of Inl d \<Rightarrow> \<exists>nm m. R = routed_room nm (lift_room docker_part put_docker DockerKept (docker_room (st_docker st) m d))
    | Inr i \<Rightarrow> \<exists>nm m v. inst_id v = i \<and> R = routed_room nm (lift_room vm_part put_vm FirecrackerKept (vm_room (st_vm st) m v))"
  using assms by (cases n; cases c) auto


text \<open>A site with both, and the two clients of \<open>two_guests\<close>.\<close>

definition counting_site :: site where
  "counting_site = calm_site\<lparr>st_docker := counting_docker, st_vm := counting_vm\<rparr>"

definition counting_registry :: "(site_state, any_kept) routing" where
  "counting_registry = snd (new_routing (FACTORIES counting_site) (builtin_config sample_env) calm_state)"


end
