(* ===== verification/Spec2Isabelle.thy ===== *)
theory Spec2Isabelle
  imports Session_Kept Up Vsock Fcapi_Props Confine Docker Guest_Wire
    Microvm_Props Jail Exit_Watch Registry_Tenancy
begin

text \<open>
  Keycard: an SSH server that hands each connection a disposable room, a container or a microVM.
  This library models the Python program under src/src/keycard and proves what makes it correct.

  \<^bold>\<open>The parts of the program and how they interact.\<close> \<open>cli.py\<close> loads a configuration
  (\<open>config.py\<close>) and hands it to \<open>serve\<close> (\<open>server.py\<close>), which builds a registry of backends
  (\<open>routing.py\<close>), the two registries of sessions and of kept rooms (\<open>session.py\<close>) and the
  listener. Every connection gets a \<open>RoomSession\<close>: it opens a room through the seam of \<open>base.py\<close>,
  pumps bytes, and tears the room down, or pauses it for a reconnect. Behind the seam are
  \<open>docker.py\<close> and \<open>firecracker.py\<close>; the latter speaks to its VMM over \<open>fcapi.py\<close>, to the guest
  over \<open>vsock.py\<close>, and confines the VMM with \<open>confine.py\<close>. \<open>banner.py\<close> is what clients see.

  \<^bold>\<open>What is shared.\<close> \<open>Prelude\<close>: Python exceptions as a datatype, results as a sum of an exception
  and a value, dictionaries in insertion order. \<open>PyText\<close>: text and bytes as lists of characters,
  splitting, \<open>int\<close> and its inverse. \<open>PyFloat\<close>: binary64 numbers as exact rationals with rounding,
  and \<open>float\<close> of a text. \<open>PyPath\<close>: pure POSIX paths. \<open>Effects\<close>: calls that raise and change a
  state, with \<open>try/finally\<close>, \<open>except\<close> and \<open>raise\<close>, and \<open>keeps\<close>, what such a call leaves true. \<open>Polling\<close>: the locale of loops that look,
  sleep and look again; the four loops of the program (connecting to the guest, the readiness of
  the API, waiting for a container to exit) are interpretations of it and so return as soon as
  their clock does. \<open>Machine\<close>: transition systems, reachable states, and the locales of invariants.

  \<^bold>\<open>Which theory models what.\<close>
  \<^item> \<open>Config\<close> (\<open>config.py\<close>): the records, \<open>parse_duration\<close>, the tables of the file, \<open>load\<close>. The TOML
    parser and the file system are arguments. Lemmas: a loaded configuration is well formed, when
    \<open>load\<close> fails, what overrides what, the exact value of a duration.
  \<^item> \<open>Banner\<close> (\<open>banner.py\<close>) and \<open>Cli\<close>, \<open>Up\<close> (\<open>cli.py\<close>): the cards; the overrides of \<open>up\<close> and the
    listing of \<open>rooms\<close>; \<open>up\<close> as a whole, over \<open>serve\<close>.
  \<^item> \<open>Session\<close> (\<open>session.py\<close>): one definition per callback and per stretch of a coroutine between two
    awaits, over the state of all sessions, the registries, the expiry tasks and the rooms.
    \<open>Session_Steps\<close> interleaves them: the relation \<open>server_step\<close> has one rule per definition, and
    leaves open who runs next and what a backend answers. \<open>Session_Run\<close> is the same relation as an
    executable function on events, which the witnesses run.
  \<^item> \<open>Custody\<close>: the abstract specification of rooms, who holds a room and what may be done to it.
    \<open>Session_Refine\<close> and \<open>Session_Props\<close>: every step of the session layer implements it, and what
    follows for live, paused and destroyed rooms. \<open>Session_Change\<close> and \<open>Session_Safety\<close>: how one
    session may change, and the invariants of sessions and of the registry. \<open>Session_Outcomes\<close>: how
    sessions end, and input in order. \<open>Session_Kept\<close>: where a paused room can be, and reconnecting.
  \<^item> \<open>Server\<close>, \<open>Shutdown\<close>, \<open>Serve\<close> (\<open>server.py\<close>): a connection, the keys, \<open>create_server\<close>; the drain
    over the steps of the session layer; \<open>serve\<close> from its start with both real backends, over its
    signals and its wait, to the end of its \<open>finally\<close> clause. Lemmas: what a start leaves, and which
    steps of the shutdown run however it goes.
  \<^item> \<open>Backend\<close> (\<open>base.py\<close>): \<open>Room\<close> and \<open>Backend\<close> as records of methods, with the locales
    \<open>room_contract\<close> and \<open>backend_contract\<close> for what their docstrings promise. \<open>Backends\<close>: the two
    backends as such objects, with the interpretations. \<open>Routing\<close> (\<open>routing.py\<close>): the registry,
    itself a backend, and both factories.
  \<^item> \<open>House\<close>: the sessions of \<open>session.py\<close> over a backend object of the seam. Each event calls the
    backend (\<open>open\<close>, \<open>resume\<close>, \<open>destroy_kept\<close>, or a method of a room) and the step of \<open>Session\<close> takes its
    answer. \<open>House_Safety\<close>: the locale \<open>guarded_backend\<close>, the contract by which a property of the host
    survives everything sessions ask, with an invariant of houses proved in it. \<open>Sealed\<close>: both real
    backends and the registry interpret it; the memory of a guest never reaches the disk, and a
    house implements the session layer.
  \<^item> \<open>Leases\<close>: the abstract specification of a house over a backend, who a box (a container or a
    microVM) belongs to. \<open>House_Fates\<close>: what each event does to the rooms. \<open>Renting\<close>: the locale
    \<open>renting\<close>, what a backend must promise so that every step of a house over it implements the leases.
    \<open>Docker_Calls\<close> and \<open>Microvm_Calls\<close>: what each call of a backend does to its host; \<open>Tenancy\<close> and
    \<open>Microvm_Tenancy\<close>: both backends interpret \<open>renting\<close>, so that no two rooms share a container or a
    microVM and, on a host that does what it is asked, none is left without a room, also after
    the drain. \<open>Registry_Tenancy\<close>: a backend lifted to the site and the registry of such backends keep
    the promises of \<open>renting\<close>, so the whole server with both backends does.
  \<^item> \<open>Docker\<close> (\<open>docker.py\<close>): containers of the daemon, and open, resume, pause, destroy.
  \<^item> \<open>Microvm\<close>, \<open>Microvm_Props\<close> (\<open>firecracker.py\<close>, the pure part): sizes, paths, preflight, the sweep of
    what a crash left. \<open>Microvm_Run\<close>, \<open>Microvm_Safety\<close>: spawning, configuring, attaching, stopping, and
    what is left behind on every path. \<open>Exit_Watch\<close>: a room's exit watcher beside the callers of its
    \<open>destroy\<close>, one stretch between two awaits at a time, as a refinement of the atomic \<open>destroy_vm\<close>.
    \<open>Confine\<close> (\<open>confine.py\<close>): access rights as 64-bit words, the
    ruleset, the calls between fork and exec. \<open>Jail\<close>: \<open>_spawn\<close> over \<open>confine.py\<close>, from the console file
    to the child, what a confined VMM may do to which file, and that every microVM that runs was
    launched so. \<open>Fcapi\<close>, \<open>Fcapi_Props\<close> (\<open>fcapi.py\<close>) and \<open>Vsock\<close>
    (\<open>vsock.py\<close>): the bytes on the sockets. \<open>Guest_Wire\<close>: the two lines that host and guest
    (guest-agent/src/session.rs) exchange, from both ends.

  \<^bold>\<open>Concurrency.\<close> The program runs on one asyncio event loop, so code between two awaits is atomic.
  A coroutine is a program counter; a cancellation is a flag of the task, delivered at its next
  step, and passed on to the task it awaits, as asyncio does. \<open>asyncio.shield\<close> is not used by
  the session layer, which is why a teardown can be cancelled before it has started; the one use
  of it, around the exit watcher of a microVM, is in \<open>Exit_Watch\<close>.

  \<^bold>\<open>Answers of the outside.\<close> The docker SDK, the kernel, processes, sockets, asyncssh, click and the
  TOML and JSON decoders are not under src/. Each call is an answer, its error or its result, given
  as an argument or as a field of a record of answers (\<open>docker_answers\<close>, \<open>world\<close>, \<open>kernel\<close>,
  \<open>host\<close>, \<open>site\<close>, \<open>serve_answers\<close>), and a call that succeeds has its documented effect on the modelled state.
  Theorems hold for all answers unless they name a hypothesis on them.

  \<^bold>\<open>Loops and bounds.\<close> Polling loops are \<open>partial_function (option)\<close>, with theorems that they return
  when the clock reaches the deadline; all other loops are structural or have a measure. No fuel
  is used. Integers of Python are \<open>int\<close>; access rights are 64-bit words and the numbers of the
  guest 16-bit words. Where a number is printed and read back, its absolute value is below
  \<open>10 ^ 20\<close>, far under the limit of \<open>int\<close> on digits.

  \<^bold>\<open>Not modelled.\<close> Log messages and the text of exceptions; the sockets that
  \<open>_close_attachment\<close> closes, but for their number; the bytes of the rootfs image (which of its two
  ways to copy it fails are answers); loading libc and the raw system calls (they are the answers of a kernel record);
  the fields of a response head beyond those the client reads. Out of the Python program:
  the guest agent but for its two control lines, the rootfs scripts, packaging, tests and docs.

  \<^bold>\<open>Atomic calls.\<close> In a house a call of a backend takes effect at once, when it returns; what can
  happen inside one is modelled where it matters, in \<open>Exit_Watch\<close> for \<open>destroy\<close> and in the answers of
  \<open>Microvm_Run\<close> for a cancelled \<open>open\<close>. The meaning of a Landlock domain, that a handled right needs a
  rule above the file, is its documentation's; a path stands for the file it names.

  \<^bold>\<open>Plan.\<close> Next: the drain and the sweep of \<open>serve\<close> as events of a house, so that the shutdown and
  its backends share one state.
\<close>

end
